(* ===== verification/Prelude.thy ===== *)
theory Prelude
  imports Main "HOL-Library.List_Lexorder" "HOL-Library.Char_ord"
begin

section \<open>Shared vocabulary of the development\<close>

text \<open>
  What every component uses: the C++ exceptions the code can raise as a datatype, the result
  type of code that may raise one, the collections of simplification rules the component
  theories fill, and the interface of an invariant of a transition system, proved once and
  interpreted by every state machine of the program.
\<close>

subsection \<open>Exceptions and results\<close>

text \<open>
  The exceptions that can leave a function of the program. \<open>OutOfRange\<close> is
  \<open>std::out_of_range\<close> (\<open>std::string::at\<close>, \<open>std::string::substr\<close>), \<open>BadAnyCast\<close> is
  \<open>std::bad_any_cast\<close>, \<open>RuntimeError\<close> is \<open>std::runtime_error\<close>. \<open>JsonError n\<close> is an exception of
  the JSON library with its documented number (107, 108 and 109 are parse errors of JSON pointers,
  302, 304 and 305 type errors, 403 and 404 missing keys). \<open>NullDeref\<close> is not an exception but
  the undefined behaviour of a member call through a null \<open>shared_ptr\<close>, \<open>StackOverflow\<close> a recursion that
  does not come back or a loop that does not end, and \<open>ProcessExit\<close> a call of \<open>exit\<close>
  or an assertion that fails; they are kept apart so that a theorem can
  say that they do not happen. \<open>Unmodelled\<close> is not raised by the program: the model ends with it where the
  program has a floating-point number, which the documents here do not have.
\<close>

datatype exn =
    OutOfRange
  | BadAnyCast
  | RuntimeError string
  | JsonError nat
  | NullDeref
  | StackOverflow
  | ProcessExit
  | Unmodelled

type_synonym 'a result = "exn + 'a"

definition rbind :: "'a result \<Rightarrow> ('a \<Rightarrow> 'b result) \<Rightarrow> 'b result" where
  "rbind r f = (case r of Inl e \<Rightarrow> Inl e | Inr x \<Rightarrow> f x)"

lemma rbind_simps [simp]:
  "rbind (Inl e) f = Inl e"
  "rbind (Inr x) f = f x"
  by (simp_all add: rbind_def)

lemma rbind_eq_Inr: "rbind r f = Inr y \<longleftrightarrow> (\<exists>x. r = Inr x \<and> f x = Inr y)"
  by (auto simp: rbind_def split: sum.splits)

lemma rbind_eq_Inl: "rbind r f = Inl e \<longleftrightarrow> r = Inl e \<or> (\<exists>x. r = Inr x \<and> f x = Inl e)"
  by (auto simp: rbind_def split: sum.splits)

text \<open>
  Code that keeps what it changed before it raised: the result is paired with the state.
\<close>

type_synonym ('a, 's) outcome = "'a result \<times> 's"

definition sbind :: "('a, 's) outcome \<Rightarrow> ('a \<Rightarrow> 's \<Rightarrow> ('b, 's) outcome) \<Rightarrow> ('b, 's) outcome" where
  "sbind r f = (case r of (Inl e, s) \<Rightarrow> (Inl e, s) | (Inr x, s) \<Rightarrow> f x s)"

lemma sbind_simps [simp]:
  "sbind (Inl e, s) f = (Inl e, s)"
  "sbind (Inr x, s) f = f x s"
  by (simp_all add: sbind_def)

text \<open>A loop whose body may leave the function with false.\<close>

fun each :: "('x \<Rightarrow> 's \<Rightarrow> (bool, 's) outcome) \<Rightarrow> 'x list \<Rightarrow> 's \<Rightarrow> (bool, 's) outcome" where
  "each f [] s = (Inr True, s)"
| "each f (x # xs) s = sbind (f x s) (\<lambda>ok s'. if ok then each f xs s' else (Inr False, s'))"

lemma each_invariant:
  assumes "\<And>x s r s'. x \<in> set xs \<Longrightarrow> P s \<Longrightarrow> f x s = (r, s') \<Longrightarrow> P s'"
  shows "P s \<Longrightarrow> each f xs s = (r, s') \<Longrightarrow> P s'"
  using assms
proof (induction xs arbitrary: s)
  case Nil
  then show ?case by simp
next
  case (Cons x xs)
  obtain r1 s1 where f: "f x s = (r1, s1)" by (cases "f x s")
  then have s1: "P s1" using Cons.prems(3) [of x s r1 s1] Cons.prems(1) by simp
  show ?case
  proof (cases "r1 = Inr True")
    case True
    with f Cons.prems(2) have "each f xs s1 = (r, s')" by simp
    then show ?thesis
      by (rule Cons.IH [OF s1]) (use Cons.prems(3) in \<open>simp, blast\<close>)
  next
    case False
    with f Cons.prems(2) have "s' = s1" by (cases r1) auto
    with s1 show ?thesis by simp
  qed
qed

lemma sbind_split:
  "P (sbind r f) \<longleftrightarrow> (\<forall>e s. r = (Inl e, s) \<longrightarrow> P (Inl e, s)) \<and> (\<forall>x s. r = (Inr x, s) \<longrightarrow> P (f x s))"
  by (auto simp: sbind_def split: prod.splits sum.splits)

subsection \<open>Collections\<close>

named_theorems smap_simps \<open>lookups in updated maps\<close>
named_theorems string_simps \<open>searching and cutting strings\<close>
named_theorems session_defs \<open>the operations of the session manager\<close>

subsection \<open>Reachable states and invariants\<close>

text \<open>
  The states a machine reaches from its initial states. Every state machine of the development is
  a step relation, and its reachable states are an instance of this one predicate.
\<close>

inductive reachable :: "('s \<Rightarrow> bool) \<Rightarrow> ('s \<Rightarrow> 's \<Rightarrow> bool) \<Rightarrow> 's \<Rightarrow> bool"
  for init :: "'s \<Rightarrow> bool" and step :: "'s \<Rightarrow> 's \<Rightarrow> bool" where
  reachable_init: "init s \<Longrightarrow> reachable init step s"
| reachable_step: "reachable init step s \<Longrightarrow> step s t \<Longrightarrow> reachable init step t"

text \<open>
  The interface of an invariant: the machine promises that its initial states satisfy it and
  that its steps keep it; the client may use it in every reachable state.
\<close>

locale inductive_invariant =
  fixes init :: "'s \<Rightarrow> bool" and step :: "'s \<Rightarrow> 's \<Rightarrow> bool" and inv :: "'s \<Rightarrow> bool"
  assumes inv_init: "init s \<Longrightarrow> inv s"
    and inv_step: "inv s \<Longrightarrow> step s t \<Longrightarrow> inv t"
begin

lemma reachable_inv: "reachable init step s \<Longrightarrow> inv s"
  by (induction rule: reachable.induct) (auto intro: inv_init inv_step)

lemma steps_inv: "inv s \<Longrightarrow> step\<^sup>*\<^sup>* s t \<Longrightarrow> inv t"
  by (rotate_tac, induction rule: rtranclp.induct) (auto intro: inv_step)

end

subsection \<open>Lists\<close>

lemma foldl_invariant:
  assumes "P s" and "\<And>s x. P s \<Longrightarrow> x \<in> set xs \<Longrightarrow> P (f s x)"
  shows "P (foldl f s xs)"
  using assms by (induction xs arbitrary: s) auto

text \<open>\<open>before xs a b\<close>: every occurrence of \<open>b\<close> in \<open>xs\<close> comes after some occurrence of \<open>a\<close>.\<close>

definition before :: "'a list \<Rightarrow> 'a \<Rightarrow> 'a \<Rightarrow> bool" where
  "before xs a b \<longleftrightarrow> (\<forall>ys zs. xs = ys @ b # zs \<longrightarrow> a \<in> set ys)"

lemma beforeI: "(\<And>ys zs. xs = ys @ b # zs \<Longrightarrow> a \<in> set ys) \<Longrightarrow> before xs a b"
  by (simp add: before_def)

lemma beforeD: "before (ys @ b # zs) a b \<Longrightarrow> a \<in> set ys"
  by (auto simp: before_def)

lemma before_notin: "b \<notin> set xs \<Longrightarrow> before xs a b"
  by (auto simp: before_def)

lemma before_append1:
  assumes "before xs a b"
  shows "before (xs @ ys) a b \<longleftrightarrow> a \<in> set xs \<or> before ys a b"
proof (cases "a \<in> set xs")
  case True
  have "before (xs @ ys) a b"
  proof (rule beforeI)
    fix us vs
    assume eq: "xs @ ys = us @ b # vs"
    then consider zs where "us = xs @ zs" | zs where "xs = us @ zs" "zs \<noteq> []"
      by (metis append_Nil2 append_eq_append_conv2)
    then show "a \<in> set us"
    proof cases
      case 1
      with True show ?thesis by simp
    next
      case 2
      with eq have "hd zs = b" by (cases zs) auto
      with 2 have "xs = us @ b # tl zs" by (cases zs) auto
      with assms show ?thesis by (auto simp: before_def)
    qed
  qed
  with True show ?thesis by simp
next
  case False
  with assms have nb: "b \<notin> set xs"
    by (metis before_def in_set_conv_decomp Un_iff set_append)
  show ?thesis
  proof
    assume l: "before (xs @ ys) a b"
    have "before ys a b"
    proof (rule beforeI)
      fix us vs
      assume "ys = us @ b # vs"
      then have "xs @ ys = (xs @ us) @ b # vs" by simp
      with l have "a \<in> set (xs @ us)" unfolding before_def by blast
      with False show "a \<in> set us" by simp
    qed
    then show "a \<in> set xs \<or> before ys a b" ..
  next
    assume "a \<in> set xs \<or> before ys a b"
    with False have r: "before ys a b" by simp
    show "before (xs @ ys) a b"
    proof (rule beforeI)
      fix us vs
      assume eq: "xs @ ys = us @ b # vs"
      then obtain ws where "us = xs @ ws \<or> xs = us @ ws \<and> ws @ ys = b # vs"
        by (auto simp: append_eq_append_conv2)
      with nb obtain zs where "us = xs @ zs"
        by (cases ws) auto
      with eq r show "a \<in> set us" by (auto simp: before_def)
    qed
  qed
qed

end
