(* ===== verification/Values.thy ===== *)
theory Values
  imports Prelude "HOL-Library.Word"
begin

section \<open>Values of leaf nodes\<close>

text \<open>
  \<open>src/value.hpp\<close> and \<open>src/value.cpp\<close>: a value has a declared type that never changes and a holder
  (\<open>std::any\<close>) that is empty or holds an object. The setters refuse an object of another type, the
  getters throw \<open>std::bad_any_cast\<close>. \<open>Number\<close> is a 32-bit integer. A reference to a node inside a
  node array is only stored and compared, so it is an address.
\<close>

datatype value_type = BOOL | NUMBER | STRING | STRING_ARRAY | NODE_ARRAY | REF

type_synonym number = "32 word"
type_synonym node_ref = nat

datatype holder =
    HBool bool
  | HNumber number
  | HString string
  | HStringArray "string list"
  | HNodeArray "node_ref list"

record "value" =
  vtype :: value_type
  holder :: "holder option"

definition Value_init :: "value_type \<Rightarrow> value" where
  "Value_init t =
     \<lparr>vtype = t,
      holder = (if t = STRING_ARRAY then Some (HStringArray [])
                else if t = NODE_ARRAY then Some (HNodeArray [])
                else None)\<rparr>"

definition Value_copy :: "value \<Rightarrow> value" where
  "Value_copy v = \<lparr>vtype = vtype v, holder = holder v\<rparr>"

definition has_value :: "value \<Rightarrow> bool" where
  "has_value v = (holder v \<noteq> None)"

subsection \<open>The methods generated by the macro DEFINE_VALUE_METHOD\<close>

definition is_bool :: "value \<Rightarrow> bool" where
  "is_bool v = (case holder v of Some (HBool _) \<Rightarrow> True | _ \<Rightarrow> False)"

definition get_bool :: "value \<Rightarrow> bool result" where
  "get_bool v = (case holder v of Some (HBool b) \<Rightarrow> Inr b | _ \<Rightarrow> Inl BadAnyCast)"

definition set_bool :: "bool \<Rightarrow> value \<Rightarrow> bool \<times> value" where
  "set_bool b v =
     (if vtype v \<noteq> BOOL then (False, v) else (True, v\<lparr>holder := Some (HBool b)\<rparr>))"

definition is_number :: "value \<Rightarrow> bool" where
  "is_number v = (case holder v of Some (HNumber _) \<Rightarrow> True | _ \<Rightarrow> False)"

definition get_number :: "value \<Rightarrow> number result" where
  "get_number v = (case holder v of Some (HNumber n) \<Rightarrow> Inr n | _ \<Rightarrow> Inl BadAnyCast)"

definition set_number :: "number \<Rightarrow> value \<Rightarrow> bool \<times> value" where
  "set_number n v =
     (if vtype v \<noteq> NUMBER then (False, v) else (True, v\<lparr>holder := Some (HNumber n)\<rparr>))"

definition is_string :: "value \<Rightarrow> bool" where
  "is_string v = (case holder v of Some (HString _) \<Rightarrow> True | _ \<Rightarrow> False)"

definition get_string :: "value \<Rightarrow> string result" where
  "get_string v = (case holder v of Some (HString s) \<Rightarrow> Inr s | _ \<Rightarrow> Inl BadAnyCast)"

definition set_string :: "string \<Rightarrow> value \<Rightarrow> bool \<times> value" where
  "set_string s v =
     (if vtype v \<noteq> STRING then (False, v) else (True, v\<lparr>holder := Some (HString s)\<rparr>))"

subsection \<open>Arrays\<close>

definition is_string_array :: "value \<Rightarrow> bool" where
  "is_string_array v = (case holder v of Some (HStringArray _) \<Rightarrow> True | _ \<Rightarrow> False)"

definition get_string_array :: "value \<Rightarrow> string list result" where
  "get_string_array v = (case holder v of Some (HStringArray xs) \<Rightarrow> Inr xs | _ \<Rightarrow> Inl BadAnyCast)"

definition add_string_item :: "string \<Rightarrow> value \<Rightarrow> (bool \<times> value) result" where
  "add_string_item s v =
     (if vtype v \<noteq> STRING_ARRAY then Inr (False, v)
      else case holder v of
             Some (HStringArray xs) \<Rightarrow> Inr (True, v\<lparr>holder := Some (HStringArray (xs @ [s]))\<rparr>)
           | _ \<Rightarrow> Inl BadAnyCast)"

definition is_node_array :: "value \<Rightarrow> bool" where
  "is_node_array v = (case holder v of Some (HNodeArray _) \<Rightarrow> True | _ \<Rightarrow> False)"

definition get_node_array :: "value \<Rightarrow> node_ref list result" where
  "get_node_array v = (case holder v of Some (HNodeArray xs) \<Rightarrow> Inr xs | _ \<Rightarrow> Inl BadAnyCast)"

text \<open>The overload for nodes tests the declared type against \<open>STRING_ARRAY\<close>, as the code does.\<close>

definition add_node_item :: "node_ref \<Rightarrow> value \<Rightarrow> (bool \<times> value) result" where
  "add_node_item r v =
     (if vtype v \<noteq> STRING_ARRAY then Inr (False, v)
      else case holder v of
             Some (HNodeArray xs) \<Rightarrow> Inr (True, v\<lparr>holder := Some (HNodeArray (xs @ [r]))\<rparr>)
           | _ \<Rightarrow> Inl BadAnyCast)"

subsection \<open>Conversion to a string\<close>

text \<open>\<open>std::to_chars\<close> writes the shortest decimal representation into a buffer of 20 characters.\<close>

fun digits :: "nat \<Rightarrow> string" where
  "digits n = (if n < 10 then [char_of (48 + n)] else digits (n div 10) @ [char_of (48 + n mod 10)])"

declare digits.simps [simp del]

definition to_chars :: "int \<Rightarrow> string" where
  "to_chars i = (if i < 0 then CHR ''-'' # digits (nat (- i)) else digits (nat i))"

definition to_string :: "value \<Rightarrow> string result" where
  "to_string v =
     (case vtype v of
        BOOL \<Rightarrow> rbind (get_bool v) (\<lambda>b. Inr (if b then ''true'' else ''false''))
      | NUMBER \<Rightarrow> rbind (get_number v) (\<lambda>n. Inr (to_chars (sint n)))
      | STRING \<Rightarrow> get_string v
      | STRING_ARRAY \<Rightarrow> Inr ''String Array''
      | NODE_ARRAY \<Rightarrow> Inr ''Node Array''
      | REF \<Rightarrow> Inr '''')"

subsection \<open>Well-formed values\<close>

text \<open>
  A value holds nothing or an object of its declared type, and an array value is never empty of
  its vector. Every operation keeps this, so a getter throws only on a value that was never set.
\<close>

fun holder_type :: "holder \<Rightarrow> value_type" where
  "holder_type (HBool _) = BOOL"
| "holder_type (HNumber _) = NUMBER"
| "holder_type (HString _) = STRING"
| "holder_type (HStringArray _) = STRING_ARRAY"
| "holder_type (HNodeArray _) = NODE_ARRAY"

definition wf_value :: "value \<Rightarrow> bool" where
  "wf_value v \<longleftrightarrow>
     (case holder v of None \<Rightarrow> vtype v \<notin> {STRING_ARRAY, NODE_ARRAY}
                     | Some h \<Rightarrow> holder_type h = vtype v)"

lemmas value_defs = is_bool_def get_bool_def set_bool_def is_number_def get_number_def
  set_number_def is_string_def get_string_def set_string_def is_string_array_def
  get_string_array_def add_string_item_def is_node_array_def get_node_array_def
  add_node_item_def Value_init_def Value_copy_def has_value_def

lemma wf_value_init: "wf_value (Value_init t)"
  by (cases t) (simp_all add: wf_value_def Value_init_def)

lemma wf_value_copy: "Value_copy v = v"
  by (simp add: Value_copy_def)

lemma wf_value_setters:
  "wf_value v \<Longrightarrow> wf_value (snd (set_bool b v))"
  "wf_value v \<Longrightarrow> wf_value (snd (set_number n v))"
  "wf_value v \<Longrightarrow> wf_value (snd (set_string s v))"
  by (auto simp: wf_value_def value_defs split: option.splits)

lemma wf_value_add_string_item:
  "wf_value v \<Longrightarrow> add_string_item s v = Inr (r, v') \<Longrightarrow> wf_value v'"
  by (auto simp: wf_value_def value_defs split: if_splits option.splits holder.splits)

lemma add_string_item_total: "wf_value v \<Longrightarrow> \<exists>r. add_string_item s v = Inr r"
  by (auto simp: wf_value_def value_defs split: option.splits holder.splits)

lemma wf_string_array:
  "wf_value v \<Longrightarrow> vtype v = STRING_ARRAY \<Longrightarrow> \<exists>xs. holder v = Some (HStringArray xs)"
  by (auto simp: wf_value_def elim: holder_type.elims split: option.splits)

lemma add_string_item_appends:
  assumes "wf_value v" and "vtype v = STRING_ARRAY"
  obtains v' where "add_string_item s v = Inr (True, v')"
    and "rbind (get_string_array v) (\<lambda>xs. Inr (xs @ [s])) = get_string_array v'"
  using assms wf_string_array [OF assms] by (auto simp: value_defs)

lemma set_get:
  "vtype v = BOOL \<Longrightarrow> get_bool (snd (set_bool b v)) = Inr b"
  "vtype v = NUMBER \<Longrightarrow> get_number (snd (set_number n v)) = Inr n"
  "vtype v = STRING \<Longrightarrow> get_string (snd (set_string s v)) = Inr s"
  by (simp_all add: value_defs)

lemma set_refused:
  "vtype v \<noteq> BOOL \<Longrightarrow> set_bool b v = (False, v)"
  "vtype v \<noteq> NUMBER \<Longrightarrow> set_number n v = (False, v)"
  "vtype v \<noteq> STRING \<Longrightarrow> set_string s v = (False, v)"
  by (simp_all add: value_defs)

lemma is_type_wf:
  assumes "wf_value v" and "has_value v"
  shows "is_bool v \<longleftrightarrow> vtype v = BOOL"
    and "is_number v \<longleftrightarrow> vtype v = NUMBER"
    and "is_string v \<longleftrightarrow> vtype v = STRING"
  using assms by (auto simp: wf_value_def value_defs split: option.splits holder.splits)

subsection \<open>The buffer of to_chars\<close>

lemma length_digits: "n < 10 ^ Suc k \<Longrightarrow> length (digits n) \<le> Suc k"
proof (induction k arbitrary: n)
  case 0
  then show ?case by (simp add: digits.simps)
next
  case (Suc k)
  show ?case
  proof (cases "n < 10")
    case True
    then show ?thesis by (simp add: digits.simps)
  next
    case False
    have "n div 10 < 10 ^ Suc k" using Suc.prems by (simp add: less_mult_imp_div_less mult.commute)
    from Suc.IH [OF this] False show ?thesis by (simp add: digits.simps [of n])
  qed
qed

lemma length_to_chars_int32:
  assumes "- (2 ^ 31) \<le> i" and "i < 2 ^ 31"
  shows "length (to_chars i) \<le> 11"
proof -
  have "nat \<bar>i\<bar> < 10 ^ Suc 9" using assms by auto
  then have "length (digits (nat \<bar>i\<bar>)) \<le> Suc 9" by (rule length_digits)
  then show ?thesis by (auto simp: to_chars_def abs_if split: if_splits)
qed

lemma length_to_chars_number: "length (to_chars (sint (n :: number))) \<le> 11"
  using sint_range_size [of n] by (intro length_to_chars_int32) (auto simp: word_size)

text \<open>
  Reading the digits back: the decimal representation determines the number.
\<close>

definition digit_value :: "char \<Rightarrow> nat" where
  "digit_value c = of_char c - 48"

definition digits_value :: "string \<Rightarrow> nat" where
  "digits_value s = foldl (\<lambda>n c. 10 * n + digit_value c) 0 s"

lemma digit_value_char: "d < 10 \<Longrightarrow> digit_value (char_of (48 + d)) = d"
  by (simp add: digit_value_def of_char_of)

lemma digits_value_digits: "digits_value (digits n) = n"
proof (induction n rule: digits.induct)
  case (1 n)
  show ?case
  proof (cases "n < 10")
    case True
    then show ?thesis by (simp add: digits.simps digits_value_def digit_value_char)
  next
    case False
    with 1 have "digits_value (digits (n div 10)) = n div 10" by simp
    with False show ?thesis
      by (simp add: digits.simps [of n] digits_value_def digit_value_char)
  qed
qed

subsection \<open>Properties\<close>

text \<open>The number a text of \<open>to_chars\<close> denotes.\<close>

definition text_value :: "string \<Rightarrow> int" where
  "text_value s = (if s \<noteq> [] \<and> hd s = CHR ''-'' then - int (digits_value (tl s)) else int (digits_value s))"

lemma digits_hd: "digits n \<noteq> [] \<and> hd (digits n) \<noteq> CHR ''-''"
proof (induction n rule: digits.induct)
  case (1 n)
  have "char_of (48 + n) \<noteq> CHR ''-''" if "n < 10" for n :: nat
  proof
    assume "char_of (48 + n) = CHR ''-''"
    then have "of_char (char_of (48 + n) :: char) = (of_char (CHR ''-'') :: nat)" by simp
    with that show False by (simp add: of_char_of)
  qed
  with 1 show ?case by (cases "n < 10") (auto simp: digits.simps [of n])
qed

text \<open>C40 A number converts to a text of at most 11 characters, so the buffer of 20 is never too small, and the
  text determines the number.\<close>

theorem number_text_fits_and_reads_back:
  assumes "vtype v = NUMBER" "holder v = Some (HNumber n)"
  shows "\<exists>s. to_string v = Inr s \<and> length s \<le> 11 \<and> text_value s = sint n"
proof -
  have "text_value (to_chars i) = i" for i
    using digits_hd [of "nat i"] by (auto simp: text_value_def to_chars_def digits_value_digits)
  with assms length_to_chars_number [of n] show ?thesis
    by (simp add: to_string_def get_number_def)
qed

theorem number_text_fits_and_reads_back_witness:
  "\<exists>s. to_string \<lparr>vtype = NUMBER, holder = Some (HNumber (- 5))\<rparr> = Inr s \<and> length s \<le> 11 \<and>
       text_value s = sint (- 5 :: number)"
  by (rule number_text_fits_and_reads_back) simp_all

text \<open>\<open>add_item\<close> for nodes never appends: on a well-formed value it answers false, or it raises
  \<open>bad_any_cast\<close> when the value is an array of strings, since it tests for the wrong type.\<close>

theorem add_node_item_never_appends:
  assumes "wf_value v"
  shows "add_node_item r v = (if vtype v = STRING_ARRAY then Inl BadAnyCast else Inr (False, v))"
  using assms wf_string_array [OF assms] by (auto simp: add_node_item_def)

theorem add_node_item_never_appends_witness:
  "add_node_item 0 (Value_init NODE_ARRAY) = Inr (False, Value_init NODE_ARRAY)"
  using add_node_item_never_appends [OF wf_value_init [of NODE_ARRAY]] by (simp add: Value_init_def)

text \<open>C38 Every operation on a value keeps the declared type and the agreement of the held object with it, so a
  getter of the declared type raises only on a value that was never set.\<close>

theorem value_operations_keep_the_type:
  assumes "wf_value v"
  shows "(\<forall>b. wf_value (snd (set_bool b v)) \<and> vtype (snd (set_bool b v)) = vtype v) \<and>
    (\<forall>n. wf_value (snd (set_number n v)) \<and> vtype (snd (set_number n v)) = vtype v) \<and>
    (\<forall>s. wf_value (snd (set_string s v)) \<and> vtype (snd (set_string s v)) = vtype v) \<and>
    (\<forall>s. \<exists>ok v'. add_string_item s v = Inr (ok, v') \<and> wf_value v' \<and> vtype v' = vtype v \<and>
       (ok \<longleftrightarrow> vtype v = STRING_ARRAY))"
proof -
  have "\<exists>ok v'. add_string_item s v = Inr (ok, v') \<and> wf_value v' \<and> vtype v' = vtype v \<and>
       (ok \<longleftrightarrow> vtype v = STRING_ARRAY)" for s
  proof (cases "vtype v = STRING_ARRAY")
    case True
    with wf_string_array [OF assms] obtain xs where "holder v = Some (HStringArray xs)" by blast
    with True show ?thesis by (auto simp: add_string_item_def wf_value_def)
  next
    case False
    with assms show ?thesis by (auto simp: add_string_item_def)
  qed
  moreover have "vtype (snd (set_bool b v)) = vtype v" "vtype (snd (set_number n v)) = vtype v"
    "vtype (snd (set_string s v)) = vtype v" for b n s
    by (simp_all add: value_defs)
  ultimately show ?thesis using wf_value_setters [OF assms] by blast
qed

theorem value_operations_keep_the_type_witness:
  "wf_value (snd (set_bool True (Value_init BOOL))) \<and> vtype (snd (set_bool True (Value_init BOOL))) = BOOL"
  using value_operations_keep_the_type [OF wf_value_init [of BOOL]] by (simp add: Value_init_def)

end
