(* ===== verification/Std_Map.thy ===== *)
theory Std_Map
  imports Prelude
begin

section \<open>Ordered maps and sets of the standard library\<close>

text \<open>
  The aliases \<open>Map\<close> and \<open>Set\<close> of \<open>src/lib/std_types.hpp\<close> are \<open>std::map\<close> and \<open>std::set\<close>. The
  order in which the code iterates over them is visible in what it does, so a map is modelled as
  its sequence of entries, sorted by key, and a set as the sorted sequence of its members. The
  interface is stated as a locale and interpreted on the two representations.
\<close>

type_synonym ('k, 'v) smap = "('k \<times> 'v) list"

fun sm_find :: "('k, 'v) smap \<Rightarrow> 'k \<Rightarrow> 'v option" where
  "sm_find [] k = None"
| "sm_find ((a, b) # m) k = (if k = a then Some b else sm_find m k)"

fun sm_assign :: "'k::linorder \<Rightarrow> 'v \<Rightarrow> ('k, 'v) smap \<Rightarrow> ('k, 'v) smap" where
  "sm_assign k v [] = [(k, v)]"
| "sm_assign k v ((a, b) # m) =
     (if k < a then (k, v) # (a, b) # m
      else if k = a then (k, v) # m
      else (a, b) # sm_assign k v m)"

fun sm_erase :: "'k \<Rightarrow> ('k, 'v) smap \<Rightarrow> ('k, 'v) smap" where
  "sm_erase k [] = []"
| "sm_erase k ((a, b) # m) = (if k = a then m else (a, b) # sm_erase k m)"

definition sm_contains :: "('k, 'v) smap \<Rightarrow> 'k \<Rightarrow> bool" where
  "sm_contains m k = (sm_find m k \<noteq> None)"

text \<open>\<open>emplace\<close> and \<open>insert\<close> leave an existing entry alone; \<open>operator[]\<close> assignment does not.\<close>

definition sm_emplace :: "'k::linorder \<Rightarrow> 'v \<Rightarrow> ('k, 'v) smap \<Rightarrow> ('k, 'v) smap" where
  "sm_emplace k v m = (if sm_contains m k then m else sm_assign k v m)"

definition sm_sorted :: "('k::linorder, 'v) smap \<Rightarrow> bool" where
  "sm_sorted m \<longleftrightarrow> sorted_wrt (<) (map fst m)"

lemma sm_sorted_Nil [simp]: "sm_sorted []"
  by (simp add: sm_sorted_def)

lemma sm_sorted_Cons [simp]:
  "sm_sorted ((a, b) # m) \<longleftrightarrow> (\<forall>k \<in> fst ` set m. a < k) \<and> sm_sorted m"
  by (auto simp: sm_sorted_def)

lemma keys_sm_assign [simp]: "fst ` set (sm_assign k v m) = insert k (fst ` set m)"
  by (induction k v m rule: sm_assign.induct) auto

lemma keys_sm_erase: "fst ` set (sm_erase k m) \<subseteq> fst ` set m"
  by (induction k m rule: sm_erase.induct) auto

lemma sm_find_None: "sm_find m k = None \<longleftrightarrow> k \<notin> fst ` set m"
  by (induction m k rule: sm_find.induct) auto

lemma sm_find_assign [simp, smap_simps]:
  "sm_find (sm_assign k v m) j = (if j = k then Some v else sm_find m j)"
  by (induction k v m rule: sm_assign.induct) auto

lemma sm_sorted_assign [simp]: "sm_sorted m \<Longrightarrow> sm_sorted (sm_assign k v m)"
  by (induction k v m rule: sm_assign.induct) force+

lemma sm_find_erase_other: "j \<noteq> k \<Longrightarrow> sm_find (sm_erase k m) j = sm_find m j"
  by (induction k m rule: sm_erase.induct) auto

lemma sm_find_erase_same: "sm_sorted m \<Longrightarrow> sm_find (sm_erase k m) k = None"
  by (induction k m rule: sm_erase.induct) (auto simp: sm_find_None image_iff)

lemma sm_find_erase [simp, smap_simps]:
  "sm_sorted m \<Longrightarrow> sm_find (sm_erase k m) j = (if j = k then None else sm_find m j)"
  by (simp add: sm_find_erase_other sm_find_erase_same)

lemma sm_sorted_erase [simp]: "sm_sorted m \<Longrightarrow> sm_sorted (sm_erase k m)"
  by (induction k m rule: sm_erase.induct) (use keys_sm_erase in fastforce)+

lemma sm_find_entry: "sm_sorted m \<Longrightarrow> (k, v) \<in> set m \<longleftrightarrow> sm_find m k = Some v"
  by (induction m k rule: sm_find.induct) force+

lemma sm_find_SomeD: "sm_find m k = Some v \<Longrightarrow> (k, v) \<in> set m"
  by (induction m k rule: sm_find.induct) (auto split: if_splits)

lemma sm_contains_keys: "sm_contains m k \<longleftrightarrow> k \<in> fst ` set m"
  unfolding sm_contains_def by (simp only: sm_find_None) simp

lemma sm_contains_assign [simp, smap_simps]:
  "sm_contains (sm_assign k v m) j \<longleftrightarrow> j = k \<or> sm_contains m j"
  by (auto simp: sm_contains_keys)

lemma sm_contains_Nil [simp]: "\<not> sm_contains [] k"
  by (simp add: sm_contains_def)

lemma sm_contains_erase [smap_simps]:
  "sm_sorted m \<Longrightarrow> sm_contains (sm_erase k m) j \<longleftrightarrow> j \<noteq> k \<and> sm_contains m j"
  by (auto simp: sm_contains_def)

lemma keys_sm_erase_eq [simp]:
  "sm_sorted m \<Longrightarrow> fst ` set (sm_erase k m) = fst ` set m - {k}"
  by (rule set_eqI) (simp only: sm_contains_keys [symmetric] sm_contains_erase Diff_iff, auto)

lemma distinct_keys: "sm_sorted m \<Longrightarrow> distinct (map fst m)"
  by (simp add: sm_sorted_def strict_sorted_iff)

lemma sm_sorted_fold_erase: "sm_sorted m \<Longrightarrow> sm_sorted (fold sm_erase ts m)"
  by (induction ts arbitrary: m) auto

lemma sm_find_fold_erase:
  "sm_sorted m \<Longrightarrow> sm_find (fold sm_erase ts m) k = (if k \<in> set ts then None else sm_find m k)"
  by (induction ts arbitrary: m) auto

lemma sm_contains_fold_erase:
  "sm_sorted m \<Longrightarrow> sm_contains (fold sm_erase ts m) k \<longleftrightarrow> k \<notin> set ts \<and> sm_contains m k"
  by (simp add: sm_contains_def sm_find_fold_erase)

subsection \<open>The interface\<close>

text \<open>
  What the components rely on: lookups after an insertion and a removal, and iteration in key order
  over exactly the entries. Two maps with the same lookups iterate alike, so a component may
  reason about lookups and conclude about iterations.
\<close>

locale ordered_map =
  fixes find :: "'m \<Rightarrow> 'k::linorder \<Rightarrow> 'v option"
    and assign :: "'k \<Rightarrow> 'v \<Rightarrow> 'm \<Rightarrow> 'm"
    and erase :: "'k \<Rightarrow> 'm \<Rightarrow> 'm"
    and entries :: "'m \<Rightarrow> ('k \<times> 'v) list"
    and invar :: "'m \<Rightarrow> bool"
  assumes find_assign: "invar m \<Longrightarrow> find (assign k v m) j = (if j = k then Some v else find m j)"
    and find_erase: "invar m \<Longrightarrow> find (erase k m) j = (if j = k then None else find m j)"
    and entries_find: "invar m \<Longrightarrow> (k, v) \<in> set (entries m) \<longleftrightarrow> find m k = Some v"
    and entries_sorted: "invar m \<Longrightarrow> sorted_wrt (<) (map fst (entries m))"
    and invar_assign: "invar m \<Longrightarrow> invar (assign k v m)"
    and invar_erase: "invar m \<Longrightarrow> invar (erase k m)"
begin

lemma entries_cong:
  assumes "invar m" "invar n" and eq: "find m = find n"
  shows "entries m = entries n"
proof -
  have by_keys: "entries l = map (\<lambda>k. (k, the (find l k))) (map fst (entries l))" if "invar l" for l
    using that by (auto simp: entries_find intro!: map_idI [symmetric])
  have "set (entries m) = set (entries n)"
    using assms entries_find by (auto simp: set_eq_iff)
  then have "map fst (entries m) = map fst (entries n)"
    using assms entries_sorted by (intro strict_sorted_equal) (auto simp: strict_sorted_iff)
  then show ?thesis
    using by_keys [OF assms(1)] by_keys [OF assms(2)] eq by simp
qed

end

interpretation std_map: ordered_map sm_find sm_assign sm_erase "\<lambda>m. m" sm_sorted
  by unfold_locales (simp_all add: sm_find_entry, simp_all add: sm_sorted_def)

lemmas smap_eqI = std_map.entries_cong

lemma sm_emplace_find [smap_simps]:
  "sm_find (sm_emplace k v m) j =
     (if j = k \<and> \<not> sm_contains m k then Some v else sm_find m j)"
  by (auto simp: sm_emplace_def)

lemma sm_sorted_emplace [simp]: "sm_sorted m \<Longrightarrow> sm_sorted (sm_emplace k v m)"
  by (simp add: sm_emplace_def)

lemma sm_assign_same: "sm_sorted m \<Longrightarrow> sm_find m k = Some v \<Longrightarrow> sm_assign k v m = m"
  by (rule smap_eqI) (auto simp: fun_eq_iff)

lemma sm_erase_absent: "sm_find m k = None \<Longrightarrow> sm_erase k m = m"
  by (induction k m rule: sm_erase.induct) (auto split: if_splits)

text \<open>Appending an entry whose key is larger than every key of the map is an assignment.\<close>

lemma sm_assign_snoc: "\<forall>a \<in> fst ` set m. a < k \<Longrightarrow> sm_assign k v m = m @ [(k, v)]"
  by (induction k v m rule: sm_assign.induct) (auto dest: less_not_sym)

subsection \<open>Sets\<close>

fun ss_insert :: "'k::linorder \<Rightarrow> 'k list \<Rightarrow> 'k list" where
  "ss_insert x [] = [x]"
| "ss_insert x (y # ys) =
     (if x < y then x # y # ys else if x = y then y # ys else y # ss_insert x ys)"

definition ss_erase :: "'k \<Rightarrow> 'k list \<Rightarrow> 'k list" where
  "ss_erase x ys = filter (\<lambda>y. y \<noteq> x) ys"

definition ss_sorted :: "'k::linorder list \<Rightarrow> bool" where
  "ss_sorted xs \<longleftrightarrow> sorted_wrt (<) xs"

lemma set_ss_insert [simp]: "set (ss_insert x ys) = insert x (set ys)"
  by (induction x ys rule: ss_insert.induct) auto

lemma ss_sorted_insert [simp]: "ss_sorted ys \<Longrightarrow> ss_sorted (ss_insert x ys)"
  by (induction x ys rule: ss_insert.induct) (auto simp: ss_sorted_def)

lemma set_ss_erase [simp]: "set (ss_erase x ys) = set ys - {x}"
  by (auto simp: ss_erase_def)

lemma ss_sorted_erase [simp]: "ss_sorted ys \<Longrightarrow> ss_sorted (ss_erase x ys)"
  by (simp add: ss_sorted_def ss_erase_def sorted_wrt_filter)

locale ordered_set =
  fixes insert_key :: "'k::linorder \<Rightarrow> 'm \<Rightarrow> 'm"
    and erase_key :: "'k \<Rightarrow> 'm \<Rightarrow> 'm"
    and members :: "'m \<Rightarrow> 'k list"
    and invar :: "'m \<Rightarrow> bool"
  assumes members_insert: "invar s \<Longrightarrow> set (members (insert_key x s)) = insert x (set (members s))"
    and members_erase: "invar s \<Longrightarrow> set (members (erase_key x s)) = set (members s) - {x}"
    and members_sorted: "invar s \<Longrightarrow> sorted_wrt (<) (members s)"
    and invar_insert: "invar s \<Longrightarrow> invar (insert_key x s)"
    and invar_erase: "invar s \<Longrightarrow> invar (erase_key x s)"
begin

lemma members_cong: "invar s \<Longrightarrow> invar t \<Longrightarrow> set (members s) = set (members t) \<Longrightarrow> members s = members t"
  using members_sorted by (intro strict_sorted_equal) (auto simp: strict_sorted_iff)

lemma insert_commute:
  "invar s \<Longrightarrow> members (insert_key x (insert_key y s)) = members (insert_key y (insert_key x s))"
  by (rule members_cong) (auto simp: invar_insert members_insert)

lemma fold_insert_invar: "invar s \<Longrightarrow> invar (fold insert_key xs s)"
  by (induction xs arbitrary: s) (auto intro: invar_insert)

lemma fold_insert_members: "invar s \<Longrightarrow> set (members (fold insert_key xs s)) = set xs \<union> set (members s)"
  by (induction xs arbitrary: s) (auto simp: members_insert invar_insert)

end

interpretation std_set: ordered_set ss_insert ss_erase "\<lambda>s. s" ss_sorted
  by unfold_locales (simp_all, simp add: ss_sorted_def)

lemmas sset_eqI = std_set.members_cong

lemma ss_sorted_simps [simp]:
  "ss_sorted []"
  "ss_sorted (x # xs) \<longleftrightarrow> (\<forall>y \<in> set xs. x < y) \<and> ss_sorted xs"
  by (simp_all add: ss_sorted_def)

lemma ss_sorted_distinct: "ss_sorted xs \<Longrightarrow> distinct xs"
  by (simp add: ss_sorted_def strict_sorted_iff)

text \<open>Re-inserting the members of a set in any order rebuilds the set.\<close>

lemma fold_ss_insert_id: "ss_sorted xs \<Longrightarrow> fold ss_insert xs [] = xs"
  by (rule sset_eqI) (simp_all add: std_set.fold_insert_invar std_set.fold_insert_members)

end
