(* ===== verification/Std_String.thy ===== *)
theory Std_String
  imports Prelude
begin

section \<open>Strings: searching, cutting, trimming and replacing\<close>

text \<open>
  The operations of \<open>std::string\<close> the code uses, and the helpers of \<open>src/lib/utils.hpp\<close>
  (\<open>leftTrim\<close>, \<open>rightTrim\<close>, \<open>Trim\<close>, \<open>find_and_replace_all\<close>) together with the tokenizer
  \<open>strtok\<close> the path functions are built on. A string is a list of bytes. \<open>String::npos\<close> is
  \<open>None\<close>.
\<close>

subsection \<open>find and substr\<close>

fun find_sub :: "string \<Rightarrow> string \<Rightarrow> nat option" where
  "find_sub pat [] = (if pat = [] then Some 0 else None)"
| "find_sub pat (c # cs) =
     (if take (length pat) (c # cs) = pat then Some 0 else map_option Suc (find_sub pat cs))"

text \<open>\<open>s.find(pat, pos)\<close>: the least position from \<open>pos\<close> on where \<open>pat\<close> occurs.\<close>

definition str_find :: "string \<Rightarrow> string \<Rightarrow> nat \<Rightarrow> nat option" where
  "str_find s pat pos =
     (if pos \<le> length s then map_option (\<lambda>i. pos + i) (find_sub pat (drop pos s)) else None)"

definition contains :: "string \<Rightarrow> string \<Rightarrow> bool" where
  "contains s pat = (str_find s pat 0 \<noteq> None)"

text \<open>\<open>s.substr(pos, n)\<close> throws when \<open>pos\<close> is past the end and cuts \<open>n\<close> down to what is left.\<close>

definition substr :: "string \<Rightarrow> nat \<Rightarrow> nat option \<Rightarrow> string result" where
  "substr s pos n =
     (if length s < pos then Inl OutOfRange
      else Inr (case n of None \<Rightarrow> drop pos s | Some k \<Rightarrow> take k (drop pos s)))"

lemma find_sub_Some:
  "find_sub pat s = Some i \<Longrightarrow> i + length pat \<le> length s \<and> take (length pat) (drop i s) = pat"
proof (induction pat s arbitrary: i rule: find_sub.induct)
  case (1 pat)
  then show ?case by (auto split: if_splits)
next
  case (2 pat c cs)
  show ?case
  proof (cases "take (length pat) (c # cs) = pat")
    case True
    with 2 have "i = 0" by simp
    moreover from True have "length pat \<le> length (c # cs)"
      by (metis length_take min.cobounded1)
    ultimately show ?thesis using True by simp
  next
    case False
    with 2 show ?thesis by auto
  qed
qed

lemma find_sub_first:
  "find_sub pat s = Some i \<Longrightarrow> j < i \<Longrightarrow> take (length pat) (drop j s) \<noteq> pat"
proof (induction pat s arbitrary: i j rule: find_sub.induct)
  case (1 pat)
  then show ?case by (auto split: if_splits)
next
  case (2 pat c cs)
  then show ?case by (cases j) (auto split: if_splits)
qed

lemma find_sub_None:
  "find_sub pat s = None \<longleftrightarrow> (\<forall>i \<le> length s. take (length pat) (drop i s) \<noteq> pat)"
proof (induction pat s rule: find_sub.induct)
  case (1 pat)
  then show ?case by auto
next
  case (2 pat c cs)
  have "(\<forall>i \<le> length (c # cs). take (length pat) (drop i (c # cs)) \<noteq> pat) \<longleftrightarrow>
    take (length pat) (c # cs) \<noteq> pat \<and> (\<forall>i \<le> length cs. take (length pat) (drop i cs) \<noteq> pat)"
    by (metis (no_types, opaque_lifting) Suc_le_mono drop0 drop_Suc_Cons le0 length_Cons nat.exhaust)
  with 2 show ?case by auto
qed

lemma find_sub_iff: "find_sub pat s \<noteq> None \<longleftrightarrow> (\<exists>us vs. s = us @ pat @ vs)"
proof
  assume "find_sub pat s \<noteq> None"
  then obtain i where "find_sub pat s = Some i" by auto
  then have "take (length pat) (drop i s) = pat" by (simp add: find_sub_Some)
  then have "s = take i s @ pat @ drop (length pat) (drop i s)"
    by (metis append_take_drop_id)
  then show "\<exists>us vs. s = us @ pat @ vs" by blast
next
  assume "\<exists>us vs. s = us @ pat @ vs"
  then obtain us vs where "s = us @ pat @ vs" by blast
  then have "length us \<le> length s" and "take (length pat) (drop (length us) s) = pat" by auto
  then show "find_sub pat s \<noteq> None" using find_sub_None by blast
qed

lemma contains_iff: "contains s pat \<longleftrightarrow> (\<exists>us vs. s = us @ pat @ vs)"
  by (simp add: contains_def str_find_def flip: find_sub_iff)

lemma contains_trans: "contains s t \<Longrightarrow> contains t u \<Longrightarrow> contains s u"
  unfolding contains_iff by (metis append.assoc)

lemma contains_length: "contains s pat \<Longrightarrow> length pat \<le> length s"
  by (auto simp: contains_iff)

lemma contains_refl [simp]: "contains s s"
  unfolding contains_iff by (rule exI [of _ "[]"], rule exI [of _ "[]"]) simp

lemma contains_same_length: "contains s t \<Longrightarrow> length s \<le> length t \<Longrightarrow> s = t"
  by (auto simp: contains_iff)

lemma contains_antisym: "contains s t \<Longrightarrow> contains t s \<Longrightarrow> s = t"
  by (rule contains_same_length) (auto dest: contains_length)

lemma str_find_0: "str_find s pat 0 = find_sub pat s"
  by (cases "find_sub pat s") (simp_all add: str_find_def)

lemma substr_le: "pos \<le> length s \<Longrightarrow> substr s pos None = Inr (drop pos s)"
  by (simp add: substr_def)

subsection \<open>Trimming\<close>

text \<open>
  The two regular expressions \<open>^\s+\<close> and \<open>\s+$\<close> of \<open>src/lib/utils.hpp\<close>, matched without the
  multiline flag, delete the white space at one end of the string. \<open>is_space\<close> is the class \<open>\s\<close>
  in the C locale.
\<close>

definition is_space :: "char \<Rightarrow> bool" where
  "is_space c \<longleftrightarrow> c \<in> {CHR '' '', CHR 0x09, CHR 0x0A, CHR 0x0B, CHR 0x0C, CHR 0x0D}"

definition leftTrim :: "string \<Rightarrow> string" where
  "leftTrim s = dropWhile is_space s"

definition rightTrim :: "string \<Rightarrow> string" where
  "rightTrim s = rev (dropWhile is_space (rev s))"

definition Trim :: "string \<Rightarrow> string" where
  "Trim s = leftTrim (rightTrim s)"

lemma rightTrim_snoc: "rightTrim (s @ [c]) = (if is_space c then rightTrim s else s @ [c])"
  by (simp add: rightTrim_def)

lemma rightTrim_prefix: "\<exists>ws. s = rightTrim s @ ws \<and> (\<forall>c \<in> set ws. is_space c)"
proof (induction s rule: rev_induct)
  case Nil
  then show ?case by (simp add: rightTrim_def)
next
  case (snoc c s)
  then obtain ws where ws: "s = rightTrim s @ ws" "\<forall>c \<in> set ws. is_space c" by blast
  show ?case
  proof (cases "is_space c")
    case True
    with ws show ?thesis by (intro exI [of _ "ws @ [c]"]) (simp add: rightTrim_snoc)
  next
    case False
    then show ?thesis by (simp add: rightTrim_snoc)
  qed
qed

lemma Trim_ends:
  assumes "Trim s \<noteq> []"
  shows "\<not> is_space (hd (Trim s)) \<and> \<not> is_space (last (Trim s))"
proof -
  have l: "dropWhile is_space (rightTrim s) \<noteq> []"
    using assms by (simp add: Trim_def leftTrim_def)
  have "rightTrim s \<noteq> []"
    using l by auto
  then have "\<not> is_space (last (rightTrim s))"
    unfolding rightTrim_def by (metis hd_dropWhile last_rev rev_is_Nil_conv)
  then have "\<not> is_space (last (dropWhile is_space (rightTrim s)))"
    using l by (metis last_appendR takeWhile_dropWhile_id)
  then show ?thesis
    using l by (simp add: Trim_def leftTrim_def hd_dropWhile)
qed

lemma Trim_no_space: "\<forall>c \<in> set s. \<not> is_space c \<Longrightarrow> Trim s = s"
proof -
  have "rightTrim s = s" if "\<forall>c \<in> set s. \<not> is_space c" for s
    using that by (cases s rule: rev_cases) (simp_all add: rightTrim_snoc, simp add: rightTrim_def)
  moreover have "leftTrim s = s" if "\<forall>c \<in> set s. \<not> is_space c" for s
    using that by (cases s) (simp_all add: leftTrim_def)
  ultimately show "\<forall>c \<in> set s. \<not> is_space c \<Longrightarrow> Trim s = s"
    by (simp add: Trim_def)
qed

subsection \<open>Replacing every occurrence\<close>

text \<open>
  The loop of \<open>find_and_replace_all\<close>: replace the occurrence at \<open>pos\<close>, search on behind the
  replacement. \<open>None\<close> is a loop that does not end.
\<close>

definition replace_at :: "string \<Rightarrow> nat \<Rightarrow> nat \<Rightarrow> string \<Rightarrow> string" where
  "replace_at data pos n replace_str = take pos data @ replace_str @ drop (pos + n) data"

partial_function (option) replace_loop ::
  "string \<Rightarrow> string \<Rightarrow> string \<Rightarrow> nat option \<Rightarrow> string option" where
  "replace_loop to_search replace_str data pos =
     (if pos = None then Some data
      else replace_loop to_search replace_str
             (replace_at data (the pos) (length to_search) replace_str)
             (str_find (replace_at data (the pos) (length to_search) replace_str) to_search
                (the pos + length replace_str)))"

definition find_and_replace_all :: "string \<Rightarrow> string \<Rightarrow> string \<Rightarrow> string option" where
  "find_and_replace_all data to_search replace_str =
     replace_loop to_search replace_str data (str_find data to_search 0)"

text \<open>
  What the loop computes, by recursion over the string: the left-most occurrences that do not
  overlap are replaced, and a replacement is not searched again.
\<close>

fun replace_all :: "string \<Rightarrow> string \<Rightarrow> string \<Rightarrow> string" where
  "replace_all pat rep [] = []"
| "replace_all pat rep (c # cs) =
     (if pat \<noteq> [] \<and> take (length pat) (c # cs) = pat
      then rep @ replace_all pat rep (drop (length pat - 1) cs)
      else c # replace_all pat rep cs)"

lemma replace_all_find_None: "pat \<noteq> [] \<Longrightarrow> find_sub pat s = None \<Longrightarrow> replace_all pat rep s = s"
  by (induction pat rep s rule: replace_all.induct) (auto split: if_splits)

lemma replace_all_find_Some:
  "pat \<noteq> [] \<Longrightarrow> find_sub pat s = Some i \<Longrightarrow>
     replace_all pat rep s = take i s @ rep @ replace_all pat rep (drop (i + length pat) s)"
proof (induction s arbitrary: i)
  case Nil
  then show ?case by simp
next
  case (Cons c cs)
  show ?case
  proof (cases "take (length pat) (c # cs) = pat")
    case True
    with Cons.prems have "i = 0" by simp
    with True Cons.prems(1) show ?thesis by (cases "length pat") simp_all
  next
    case False
    with Cons.prems obtain j where "find_sub pat cs = Some j" "i = Suc j" by auto
    with Cons False show ?thesis by simp
  qed
qed

lemma replace_loop_done:
  assumes "to_search \<noteq> []"
  shows "replace_loop to_search rep (out @ rest) (str_find (out @ rest) to_search (length out))
    = Some (out @ replace_all to_search rep rest)"
proof (induction "length rest" arbitrary: out rest rule: less_induct)
  case less
  show ?case
  proof (cases "find_sub to_search rest")
    case None
    then show ?thesis
      using assms by (simp add: str_find_def replace_loop.simps replace_all_find_None)
  next
    case (Some i)
    let ?done = "out @ take i rest @ rep"
    let ?rest = "drop (i + length to_search) rest"
    have bound: "i + length to_search \<le> length rest"
      using find_sub_Some [OF Some] by simp
    then have "length ?rest < length rest"
      using assms by (cases to_search) auto
    from less [OF this, of ?done] Some bound show ?thesis
      using assms
      by (simp add: str_find_def [of "out @ rest"] replace_loop.simps [of _ _ "out @ rest"]
          replace_at_def replace_all_find_Some add.assoc min_absorb2)
  qed
qed

lemma find_and_replace_all_correct:
  "to_search \<noteq> [] \<Longrightarrow>
     find_and_replace_all data to_search rep = Some (replace_all to_search rep data)"
  using replace_loop_done [of to_search rep "[]" data] by (simp add: find_and_replace_all_def)

text \<open>With an empty pattern the search never fails, and the loop runs for ever.\<close>

lemma find_sub_Nil [simp]: "find_sub [] s = Some 0"
  by (cases s) auto

lemma replace_loop_empty:
  assumes "replace_loop pat rep data pos = Some r"
  shows "pat = [] \<longrightarrow> (\<forall>p. pos = Some p \<longrightarrow> length data < p)"
proof (rule replace_loop.raw_induct
    [where P = "\<lambda>pat rep data pos r. pat = [] \<longrightarrow> (\<forall>p. pos = Some p \<longrightarrow> length data < p)", OF _ assms])
  fix f and pat rep data :: string and pos r
  assume IH: "\<And>pat rep data pos r. f pat rep data pos = Some r \<Longrightarrow>
      pat = [] \<longrightarrow> (\<forall>p. pos = Some p \<longrightarrow> length data < p)"
    and eq: "(if pos = None then Some data
      else f pat rep (replace_at data (the pos) (length pat) rep)
          (str_find (replace_at data (the pos) (length pat) rep) pat (the pos + length rep))) = Some r"
  show "pat = [] \<longrightarrow> (\<forall>p. pos = Some p \<longrightarrow> length data < p)"
  proof (intro impI allI, rule ccontr)
    fix p
    assume "pat = []" "pos = Some p" "\<not> length data < p"
    then show False
      using eq IH [of pat rep "replace_at data p 0 rep"
          "str_find (replace_at data p 0 rep) pat (p + length rep)" r]
      by (simp add: replace_at_def str_find_def)
  qed
qed

lemma find_and_replace_all_empty: "find_and_replace_all data [] rep = None"
proof (cases "find_and_replace_all data [] rep")
  case (Some r)
  then show ?thesis
    using replace_loop_empty [where pat = "[]" and pos = "Some 0" and data = data]
    by (fastforce simp: find_and_replace_all_def str_find_0)
qed simp

lemma replace_all_absent: "\<not> contains s pat \<Longrightarrow> replace_all pat rep s = s"
  by (cases "pat = []")
     (auto simp: contains_def str_find_0 intro: replace_all_find_None)

subsection \<open>Tokens\<close>

text \<open>
  The loop over \<open>strtok\<close> with a single delimiter: skip delimiters, cut the token up to the next
  one, go on behind it. \<open>c_str\<close> is what a C function sees of a \<open>std::string\<close>: it stops at the first
  NUL byte.
\<close>

definition c_str :: "string \<Rightarrow> string" where
  "c_str s = takeWhile (\<lambda>c. c \<noteq> CHR 0x00) s"

function strtok_all :: "char \<Rightarrow> string \<Rightarrow> string list" where
  "strtok_all sep s =
     (let r = dropWhile (\<lambda>c. c = sep) s in
      if r = [] then []
      else takeWhile (\<lambda>c. c \<noteq> sep) r # strtok_all sep (dropWhile (\<lambda>c. c \<noteq> sep) r))"
  by pat_completeness auto
termination
proof (relation "measure (\<lambda>(sep, s). length s)", goal_cases)
  case 1
  show ?case by simp
next
  case (2 sep s r)
  then obtain c cs where "dropWhile (\<lambda>c. c = sep) s = c # cs"
    by (metis neq_Nil_conv)
  moreover from this have "c \<noteq> sep" by (simp add: dropWhile_eq_Cons_conv)
  ultimately show ?case
    using 2 length_dropWhile_le [of "\<lambda>c. c = sep" s] length_dropWhile_le [of "\<lambda>c. c \<noteq> sep" cs]
    by simp
qed

declare strtok_all.simps [simp del]

lemma strtok_all_unfold:
  "dropWhile (\<lambda>c. c = sep) s = r \<Longrightarrow> r \<noteq> [] \<Longrightarrow>
     strtok_all sep s = takeWhile (\<lambda>c. c \<noteq> sep) r # strtok_all sep (dropWhile (\<lambda>c. c \<noteq> sep) r)"
  by (subst strtok_all.simps) (simp only: Let_def if_False)

lemma strtok_all_sep [simp]: "strtok_all sep (sep # s) = strtok_all sep s"
  by (simp add: strtok_all.simps [of sep "sep # s"] strtok_all.simps [of sep s])

lemma strtok_all_Nil [simp]: "strtok_all sep [] = []"
  by (simp add: strtok_all.simps)

lemma strtok_all_token:
  assumes "t \<noteq> []" and "sep \<notin> set t" and "rest = [] \<or> hd rest = sep"
  shows "strtok_all sep (t @ rest) = t # strtok_all sep rest"
proof -
  have "dropWhile (\<lambda>c. c = sep) (t @ rest) = t @ rest"
    using assms by (cases t) auto
  moreover have "takeWhile (\<lambda>c. c \<noteq> sep) (t @ rest) = t"
    using assms by (cases rest) (auto simp: takeWhile_append)
  moreover have "dropWhile (\<lambda>c. c \<noteq> sep) (t @ rest) = rest"
    using assms by (cases rest) (auto simp: dropWhile_append)
  ultimately show ?thesis
    using assms by (subst strtok_all.simps) simp
qed

definition is_token :: "char \<Rightarrow> string \<Rightarrow> bool" where
  "is_token sep t \<longleftrightarrow> t \<noteq> [] \<and> sep \<notin> set t"

lemma strtok_all_concat:
  "\<forall>t \<in> set ts. is_token sep t \<Longrightarrow> strtok_all sep (concat (map (\<lambda>t. sep # t) ts)) = ts"
proof (induction ts)
  case Nil
  then show ?case by simp
next
  case (Cons t ts)
  have "concat (map (\<lambda>t. sep # t) ts) = [] \<or> hd (concat (map (\<lambda>t. sep # t) ts)) = sep"
    by (cases ts) auto
  with Cons show ?case
    by (simp add: strtok_all_token is_token_def)
qed

lemma strtok_all_tokens: "\<forall>t \<in> set (strtok_all sep s). is_token sep t"
proof (induction sep s rule: strtok_all.induct)
  case (1 sep s)
  show ?case
  proof (cases "dropWhile (\<lambda>c. c = sep) s")
    case Nil
    then show ?thesis by (subst strtok_all.simps) simp
  next
    case (Cons c cs)
    then have "c \<noteq> sep" by (simp add: dropWhile_eq_Cons_conv)
    then have "is_token sep (takeWhile (\<lambda>c. c \<noteq> sep) (c # cs))"
      by (auto simp: is_token_def dest: set_takeWhileD)
    with 1 [OF refl] Cons show ?thesis by (simp add: strtok_all_unfold [OF Cons])
  qed
qed

lemma strtok_all_chars: "\<forall>t \<in> set (strtok_all sep s). set t \<subseteq> set s"
proof (induction sep s rule: strtok_all.induct)
  case (1 sep s)
  let ?r = "dropWhile (\<lambda>c. c = sep) s"
  have sub: "set ?r \<subseteq> set s" "set (takeWhile (\<lambda>c. c \<noteq> sep) ?r) \<subseteq> set ?r"
    "set (dropWhile (\<lambda>c. c \<noteq> sep) ?r) \<subseteq> set ?r"
    by (auto dest: set_dropWhileD set_takeWhileD)
  show ?case
  proof (cases "?r = []")
    case True
    then show ?thesis by (simp add: strtok_all.simps [of sep s])
  next
    case False
    then have "strtok_all sep s =
        takeWhile (\<lambda>c. c \<noteq> sep) ?r # strtok_all sep (dropWhile (\<lambda>c. c \<noteq> sep) ?r)"
      by (rule strtok_all_unfold [OF refl])
    moreover have "\<forall>t \<in> set (strtok_all sep (dropWhile (\<lambda>c. c \<noteq> sep) ?r)). set t \<subseteq> set ?r"
      using 1 [OF refl False] sub by blast
    ultimately show ?thesis using sub by auto
  qed
qed

subsection \<open>Property\<close>

text \<open>\<open>find_and_replace_all\<close> returns exactly when the pattern is not empty, and then it has replaced the
  left-most occurrences that do not overlap, without searching its replacements again.\<close>

theorem find_and_replace_all_result:
  "find_and_replace_all data to_search rep =
     (if to_search = [] then None else Some (replace_all to_search rep data))"
  by (simp add: find_and_replace_all_correct find_and_replace_all_empty)

end
