(* ===== verification/Json.thy ===== *)
theory Json
  imports Values Std_Map Std_String
begin

section \<open>JSON documents\<close>

text \<open>
  What the configuration manager uses of the JSON library in \<open>src/lib/external/nlohmann\<close>: documents
  (numbers are integers here), lookup by key and by pointer, and the mutating \<open>operator[]\<close>, which
  turns a null into an object or an array and inserts a null for a missing key. The errors are the
  library's own, by their numbers. Objects are ordered maps, so iteration is in key order.
\<close>

datatype json =
    JNull
  | JBool bool
  | JNum int
  | JStr string
  | JArr "json list"
  | JObj "(string, json) smap"

fun is_JArr :: "json \<Rightarrow> bool" where
  "is_JArr (JArr xs) = True"
| "is_JArr j = False"

text \<open>The library keeps a number in 64 bits, with a sign or without.\<close>

definition in_64_bits :: "int \<Rightarrow> bool" where
  "in_64_bits n \<longleftrightarrow> - (2 ^ 63) \<le> n \<and> n < 2 ^ 64"

fun wf_json :: "json \<Rightarrow> bool" where
  "wf_json (JNum n) \<longleftrightarrow> in_64_bits n"
| "wf_json (JObj m) \<longleftrightarrow> sm_sorted m \<and> (\<forall>(k, v) \<in> set m. wf_json v)"
| "wf_json (JArr xs) \<longleftrightarrow> (\<forall>x \<in> set xs. wf_json x)"
| "wf_json j \<longleftrightarrow> True"

subsection \<open>Access by key\<close>

text \<open>\<open>find\<close> gives \<open>end()\<close> on everything that is not an object; \<open>at\<close> raises.\<close>

fun json_find :: "json \<Rightarrow> string \<Rightarrow> json option" where
  "json_find (JObj m) k = sm_find m k"
| "json_find j k = None"

definition json_has :: "json \<Rightarrow> string \<Rightarrow> bool" where
  "json_has j k \<longleftrightarrow> json_find j k \<noteq> None"

fun json_at :: "json \<Rightarrow> string \<Rightarrow> json result" where
  "json_at (JObj m) k = (case sm_find m k of None \<Rightarrow> Inl (JsonError 403) | Some v \<Rightarrow> Inr v)"
| "json_at j k = Inl (JsonError 304)"

text \<open>
  \<open>j[k]\<close> on a value that may change: the value found or inserted, with the document after the
  access; and the assignment \<open>j[k] = v\<close>.
\<close>

fun json_index :: "json \<Rightarrow> string \<Rightarrow> (json \<times> json) result" where
  "json_index (JObj m) k =
     (case sm_find m k of Some v \<Rightarrow> Inr (v, JObj m) | None \<Rightarrow> Inr (JNull, JObj (sm_assign k JNull m)))"
| "json_index JNull k = Inr (JNull, JObj [(k, JNull)])"
| "json_index j k = Inl (JsonError 305)"

fun json_set :: "string \<Rightarrow> json \<Rightarrow> json \<Rightarrow> json result" where
  "json_set k v (JObj m) = Inr (JObj (sm_assign k v m))"
| "json_set k v JNull = Inr (JObj [(k, v)])"
| "json_set k v j = Inl (JsonError 305)"

text \<open>\<open>j[0]\<close> with a number: an array is extended by nulls up to the index, a null becomes an array.\<close>

fun json_nth :: "json \<Rightarrow> nat \<Rightarrow> (json \<times> json) result" where
  "json_nth (JArr xs) i =
     (let ys = xs @ replicate (Suc i - length xs) JNull in Inr (ys ! i, JArr ys))"
| "json_nth JNull i = (let ys = replicate (Suc i) JNull in Inr (JNull, JArr ys))"
| "json_nth j i = Inl (JsonError 305)"

fun json_put_nth :: "nat \<Rightarrow> json \<Rightarrow> json \<Rightarrow> json" where
  "json_put_nth i v (JArr xs) = JArr (xs[i := v])"
| "json_put_nth i v j = j"

text \<open>The assignment \<open>j[0][k] = v\<close>.\<close>

definition json_set_0 :: "string \<Rightarrow> json \<Rightarrow> json \<Rightarrow> json result" where
  "json_set_0 k v j = rbind (json_nth j 0) (\<lambda>(x, j'). rbind (json_set k v x) (\<lambda>x'. Inr (json_put_nth 0 x' j')))"

text \<open>Iteration: \<open>items()\<close> numbers the elements of an array; a primitive value is one item.\<close>

fun json_items :: "json \<Rightarrow> (string \<times> json) list" where
  "json_items (JObj m) = m"
| "json_items (JArr xs) = map (\<lambda>i. (digits i, xs ! i)) [0..<length xs]"
| "json_items JNull = []"
| "json_items j = [([], j)]"

definition json_elements :: "json \<Rightarrow> json list" where
  "json_elements j = map snd (json_items j)"

text \<open>\<open>j.begin() == j.end()\<close>.\<close>

definition json_no_items :: "json \<Rightarrow> bool" where
  "json_no_items j \<longleftrightarrow> json_items j = []"

fun json_get_string :: "json \<Rightarrow> string result" where
  "json_get_string (JStr s) = Inr s"
| "json_get_string j = Inl (JsonError 302)"

subsection \<open>Pointers\<close>

text \<open>
  \<open>json_pointer\<close>: the tokens between the slashes, with \<open>~1\<close> standing for a slash and \<open>~0\<close> for a tilde.
\<close>

type_synonym pointer = "string list"

fun split_slash :: "string \<Rightarrow> string list" where
  "split_slash [] = [[]]"
| "split_slash (c # cs) =
     (if c = CHR ''/'' then [] # split_slash cs
      else case split_slash cs of [] \<Rightarrow> [[c]] | t # ts \<Rightarrow> (c # t) # ts)"

fun escapes_ok :: "string \<Rightarrow> bool" where
  "escapes_ok [] = True"
| "escapes_ok [c] = (c \<noteq> CHR ''~'')"
| "escapes_ok (c # d # cs) =
     ((c = CHR ''~'' \<longrightarrow> d = CHR ''0'' \<or> d = CHR ''1'') \<and> escapes_ok (d # cs))"

definition unescape :: "string \<Rightarrow> string" where
  "unescape s = replace_all ''~0'' ''~'' (replace_all ''~1'' ''/'' s)"

definition escape :: "string \<Rightarrow> string" where
  "escape s = replace_all ''/'' ''~1'' (replace_all ''~'' ''~0'' s)"

definition pointer_parse :: "string \<Rightarrow> pointer result" where
  "pointer_parse s =
     (case s of
        [] \<Rightarrow> Inr []
      | c # cs \<Rightarrow>
          if c \<noteq> CHR ''/'' then Inl (JsonError 107)
          else let ts = split_slash cs in
               if \<forall>t \<in> set ts. escapes_ok t then Inr (map unescape ts) else Inl (JsonError 108))"

definition pointer_to_string :: "pointer \<Rightarrow> string" where
  "pointer_to_string ts = concat (map (\<lambda>t. CHR ''/'' # escape t) ts)"

definition pointer_back :: "pointer \<Rightarrow> string result" where
  "pointer_back ts = (if ts = [] then Inl (JsonError 405) else Inr (last ts))"

definition pointer_pop_back :: "pointer \<Rightarrow> pointer result" where
  "pointer_pop_back ts = (if ts = [] then Inl (JsonError 405) else Inr (butlast ts))"

definition parent_pointer :: "pointer \<Rightarrow> pointer" where
  "parent_pointer ts = butlast ts"

definition is_digit :: "char \<Rightarrow> bool" where
  "is_digit c \<longleftrightarrow> CHR ''0'' \<le> c \<and> c \<le> CHR ''9''"

definition array_index :: "string \<Rightarrow> nat result" where
  "array_index s =
     (if length s > 1 \<and> hd s = CHR ''0'' then Inl (JsonError 106)
      else if length s > 1 \<and> \<not> is_digit (hd s) then Inl (JsonError 109)
      else if s = [] \<or> \<not> list_all is_digit s \<or> digits_value s \<ge> 2 ^ 64 then Inl (JsonError 404)
      else if digits_value s \<ge> 2 ^ 64 - 1 then Inl (JsonError 410)
      else Inr (digits_value s))"

text \<open>
  \<open>j[pointer]\<close> on a document that may change: the value it refers to, and the document in which the
  missing parts were created on the way.
\<close>

fun json_ref :: "pointer \<Rightarrow> json \<Rightarrow> (json \<times> json) result" where
  "json_ref [] j = Inr (j, j)"
| "json_ref (t # ts) j =
     (let j1 = (if j = JNull then (if list_all is_digit t \<or> t = ''-'' then JArr [] else JObj []) else j) in
      case j1 of
        JObj m \<Rightarrow>
          let x = (case sm_find m t of None \<Rightarrow> JNull | Some v \<Rightarrow> v) in
          rbind (json_ref ts x) (\<lambda>(v, x'). Inr (v, JObj (sm_assign t x' m)))
      | JArr xs \<Rightarrow>
          rbind (if t = ''-'' then Inr (length xs) else array_index t) (\<lambda>i.
            let ys = xs @ replicate (Suc i - length xs) JNull in
            rbind (json_ref ts (ys ! i)) (\<lambda>(v, x'). Inr (v, JArr (ys[i := x']))))
      | _ \<Rightarrow> Inl (JsonError 404))"

definition json_ref_value :: "pointer \<Rightarrow> json \<Rightarrow> json result" where
  "json_ref_value p j = rbind (json_ref p j) (\<lambda>(v, j'). Inr v)"

text \<open>\<open>contains(pointer)\<close>; and \<open>contains\<close> with a string, which looks for a member of that name.\<close>

definition index_syntax :: "string \<Rightarrow> bool" where
  "index_syntax t \<longleftrightarrow> t \<noteq> ''-'' \<and>
     (length t = 1 \<longrightarrow> is_digit (hd t)) \<and>
     (length t > 1 \<longrightarrow> is_digit (hd t) \<and> hd t \<noteq> CHR ''0'' \<and> list_all is_digit (tl t))"

fun json_contains :: "pointer \<Rightarrow> json \<Rightarrow> bool result" where
  "json_contains [] j = Inr True"
| "json_contains (t # ts) j =
     (case j of
        JObj m \<Rightarrow> (case sm_find m t of None \<Rightarrow> Inr False | Some v \<Rightarrow> json_contains ts v)
      | JArr xs \<Rightarrow>
          if \<not> index_syntax t then Inr False
          else rbind (array_index t) (\<lambda>i.
                 if length xs \<le> i then Inr False else json_contains ts (xs ! i))
      | _ \<Rightarrow> Inr False)"

definition json_contains_key :: "string \<Rightarrow> json \<Rightarrow> bool" where
  "json_contains_key k j = json_has j k"

text \<open>
  \<open>json::diff({}, j)\<close>: the difference to a null document is the replacement of the whole document, and
  nothing for a null.
\<close>

definition diff_from_null :: "json \<Rightarrow> json" where
  "diff_from_null j = JArr (if j = JNull then []
     else [JObj [(''op'', JStr ''replace''), (''path'', JStr []), (''value'', j)]])"

subsection \<open>Pointers and their text\<close>

definition escape_char :: "char \<Rightarrow> string" where
  "escape_char c = (if c = CHR ''~'' then ''~0'' else if c = CHR ''/'' then ''~1'' else [c])"

lemma replace_single: "replace_all [c] rep s = concat (map (\<lambda>x. if x = c then rep else [x]) s)"
  by (induction s) auto

lemma escape_chars: "escape s = concat (map escape_char s)"
  unfolding escape_def replace_single
  by (induction s) (auto simp: escape_char_def)

lemma unescape_slashes:
  "replace_all ''~1'' ''/'' (concat (map escape_char s)) =
     concat (map (\<lambda>c. if c = CHR ''~'' then ''~0'' else [c]) s)"
  by (induction s) (auto simp: escape_char_def)

lemma unescape_tildes:
  "replace_all ''~0'' ''~'' (concat (map (\<lambda>c. if c = CHR ''~'' then ''~0'' else [c]) s)) = s"
  by (induction s) auto

lemma unescape_escape [simp]: "unescape (escape s) = s"
  by (simp add: unescape_def escape_chars unescape_slashes unescape_tildes)

lemma escapes_ok_escape: "escapes_ok (escape s)"
proof -
  have "escapes_ok (concat (map escape_char s))"
  proof (induction s)
    case (Cons c s)
    have "escapes_ok (x # y # zs) = ((x = CHR ''~'' \<longrightarrow> y = CHR ''0'' \<or> y = CHR ''1'') \<and> escapes_ok (y # zs))"
      for x y zs by simp
    moreover have "escapes_ok (x # zs)" if "x \<noteq> CHR ''~''" "escapes_ok zs" for x zs
      using that by (cases zs) auto
    ultimately show ?case using Cons by (simp add: escape_char_def)
  qed simp
  then show ?thesis by (simp add: escape_chars)
qed

lemma no_slash_escape: "CHR ''/'' \<notin> set (escape s)"
  by (auto simp: escape_chars escape_char_def split: if_splits)

lemma split_slash_nonempty [simp]: "split_slash s \<noteq> []"
  by (cases s) (auto split: list.splits)

lemma split_slash_token: "CHR ''/'' \<notin> set t \<Longrightarrow> split_slash (t @ CHR ''/'' # s) = t # split_slash s"
  by (induction t) auto

lemma split_slash_last: "CHR ''/'' \<notin> set t \<Longrightarrow> split_slash t = [t]"
  by (induction t) auto

lemma split_pointer:
  "split_slash (tl (pointer_to_string (t # ts))) = map escape (t # ts)"
proof (induction ts arbitrary: t)
  case Nil
  then show ?case by (simp add: pointer_to_string_def split_slash_last no_slash_escape)
next
  case (Cons u ts)
  then show ?case
    by (simp add: pointer_to_string_def split_slash_token no_slash_escape)
qed

lemma pointer_parse_to_string [simp]: "pointer_parse (pointer_to_string ts) = Inr ts"
proof (cases ts)
  case Nil
  then show ?thesis by (simp add: pointer_parse_def pointer_to_string_def)
next
  case (Cons t us)
  obtain cs where cs: "pointer_to_string (t # us) = CHR ''/'' # cs"
    by (simp add: pointer_to_string_def)
  then have split: "split_slash cs = map escape (t # us)"
    using split_pointer [of t us] by simp
  show ?thesis
    unfolding Cons pointer_parse_def cs list.case split Let_def
    by (auto simp: escapes_ok_escape comp_def)
qed

subsection \<open>Well-formed documents\<close>

lemma wf_json_find: "wf_json j \<Longrightarrow> json_find j k = Some v \<Longrightarrow> wf_json v"
  by (cases j) (auto dest: sm_find_SomeD)

lemma wf_assign: "\<forall>(k, v) \<in> set m. wf_json v \<Longrightarrow> wf_json x \<Longrightarrow> \<forall>(k, v) \<in> set (sm_assign t x m). wf_json v"
  by (induction t x m rule: sm_assign.induct) auto

lemma wf_json_set: "json_set k v j = Inr j' \<Longrightarrow> wf_json j \<Longrightarrow> wf_json v \<Longrightarrow> wf_json j'"
  by (cases j) (auto simp: wf_assign)

lemma wf_json_ref: "json_ref ts j = Inr (v, j') \<Longrightarrow> wf_json j \<Longrightarrow> wf_json v \<and> wf_json j'"
proof (induction ts arbitrary: j v j')
  case Nil
  then show ?case by auto
next
  case (Cons t ts)
  define j1 where "j1 = (if j = JNull then (if list_all is_digit t \<or> t = ''-'' then JArr [] else JObj []) else j)"
  have wf1: "wf_json j1" using Cons.prems(2) by (simp add: j1_def)
  note step = Cons.prems(1) [simplified, folded j1_def]
  show ?case
  proof (cases j1)
    case (JObj m)
    let ?x = "case sm_find m t of None \<Rightarrow> JNull | Some v \<Rightarrow> v"
    from step JObj obtain x' where r: "json_ref ts ?x = Inr (v, x')" and j': "j' = JObj (sm_assign t x' m)"
      by (auto simp: rbind_eq_Inr)
    have "wf_json ?x" using wf1 JObj by (auto split: option.splits dest: sm_find_SomeD)
    from Cons.IH [OF r this] wf1 JObj j' wf_assign [of m x' t] show ?thesis by simp
  next
    case (JArr xs)
    define idx where "idx = (if t = ''-'' then Inr (length xs) else array_index t)"
    from step JArr have "rbind idx (\<lambda>i.
        let ys = xs @ replicate (Suc i - length xs) JNull in
        rbind (json_ref ts (ys ! i)) (\<lambda>(v, x'). Inr (v, JArr (ys[i := x'])))) = Inr (v, j')"
      by (simp add: idx_def)
    then obtain i x' where
      r: "json_ref ts ((xs @ replicate (Suc i - length xs) JNull) ! i) = Inr (v, x')"
      and j': "j' = JArr ((xs @ replicate (Suc i - length xs) JNull)[i := x'])"
      by (auto simp: rbind_eq_Inr Let_def split: if_splits)
    have all: "\<forall>y \<in> set (xs @ replicate (Suc i - length xs) JNull). wf_json y"
      using wf1 JArr by auto
    moreover have "i < length (xs @ replicate (Suc i - length xs) JNull)" by simp
    ultimately have "wf_json ((xs @ replicate (Suc i - length xs) JNull) ! i)"
      using nth_mem by blast
    from Cons.IH [OF r this] all j' show ?thesis
      using set_update_subset_insert by fastforce
  qed (use step in auto)
qed

text \<open>Through existing members \<open>json_ref\<close> only looks: it finds what is there and changes nothing.\<close>

fun json_walk :: "pointer \<Rightarrow> json \<Rightarrow> json option" where
  "json_walk [] j = Some j"
| "json_walk (t # ts) j = (case json_find j t of None \<Rightarrow> None | Some v \<Rightarrow> json_walk ts v)"

lemma json_ref_walk: "wf_json j \<Longrightarrow> json_walk ts j = Some v \<Longrightarrow> json_ref ts j = Inr (v, j)"
proof (induction ts arbitrary: j)
  case Nil
  then show ?case by simp
next
  case (Cons t ts)
  then obtain x where x: "json_find j t = Some x" "json_walk ts x = Some v"
    by (auto split: option.splits)
  then obtain m where m: "j = JObj m" "sm_find m t = Some x" by (cases j) auto
  have "wf_json x" using wf_json_find [OF Cons.prems(1) x(1)] .
  with Cons.IH x(2) have "json_ref ts x = Inr (v, x)" by blast
  with m Cons.prems(1) show ?case by (simp add: sm_assign_same)
qed

lemma json_contains_walk: "json_walk ts j = Some v \<Longrightarrow> json_contains ts j = Inr True"
  by (induction ts arbitrary: j) (auto split: option.splits json.splits elim!: json_find.elims)

end
