(* ===== verification/Nodes.thy ===== *)
theory Nodes
  imports Std_Map Values
begin

section \<open>The configuration tree\<close>

text \<open>
  \<open>src/node/node.cpp\<close>, \<open>leaf.cpp\<close>, \<open>composite.cpp\<close>: a configuration is a tree of leaves, which
  hold a value, and composites, which hold their children by name in a map. A node of the tree is
  reached through a pointer, from which the code reads the name, the parent chain and the
  subtree; it is modelled as a handle, the names of the ancestors (nearest first) with the
  subtree. The tree is a value: a copy of a node (\<open>MakeCopy\<close>) shares nothing with the original.
\<close>

datatype node =
    Leaf string "value"
  | Composite string "(string \<times> node) list"

type_synonym handle = "string list \<times> node"

fun Name :: "node \<Rightarrow> string" where
  "Name (Leaf n v) = n"
| "Name (Composite n ch) = n"

fun children :: "node \<Rightarrow> (string, node) smap" where
  "children (Leaf n v) = []"
| "children (Composite n ch) = ch"

fun is_composite :: "node \<Rightarrow> bool" where
  "is_composite (Leaf n v) = False"
| "is_composite (Composite n ch) = True"

subsection \<open>Leaf\<close>

fun getValue :: "node \<Rightarrow> value option" where
  "getValue (Leaf n v) = Some v"
| "getValue (Composite n ch) = None"

fun SetValue :: "value \<Rightarrow> node \<Rightarrow> node" where
  "SetValue v (Leaf n w) = Leaf n v"
| "SetValue v (Composite n ch) = Composite n ch"

subsection \<open>Composite\<close>

text \<open>
  \<open>Add\<close> overwrites a child of the same name. \<open>Remove\<close> reports whether there was one. On a leaf
  the casts of the callers give a null pointer, so the operations are applied to composites only;
  here they leave a leaf alone.
\<close>

fun Composite_Add :: "node \<Rightarrow> node \<Rightarrow> node" where
  "Composite_Add c (Composite n ch) = Composite n (sm_assign (Name c) c ch)"
| "Composite_Add c (Leaf n v) = Leaf n v"

fun Composite_Remove :: "string \<Rightarrow> node \<Rightarrow> bool \<times> node" where
  "Composite_Remove k (Composite n ch) =
     (if sm_contains ch k then (True, Composite n (sm_erase k ch)) else (False, Composite n ch))"
| "Composite_Remove k (Leaf n v) = (False, Leaf n v)"

fun FindNode :: "string \<Rightarrow> node \<Rightarrow> node option" where
  "FindNode k (Composite n ch) = sm_find ch k"
| "FindNode k (Leaf n v) = None"

fun Count :: "node \<Rightarrow> nat" where
  "Count (Composite n ch) = length ch"
| "Count (Leaf n v) = 0"

text \<open>\<open>MakeCopy\<close> copies the children one by one into the map of the copy.\<close>

fun MakeCopy :: "node \<Rightarrow> node" where
  "MakeCopy (Leaf n v) = Leaf n (Value_copy v)"
| "MakeCopy (Composite n ch) =
     Composite n (foldl (\<lambda>m (k, c). sm_emplace k (MakeCopy c) m) [] ch)"

subsection \<open>Visitors\<close>

text \<open>
  A visitor is a function from its own state and the visited node to the answer of \<open>visit\<close>
  and its next state. \<open>Accept\<close> on a composite goes over the children in key order, stops at
  this level when \<open>visit\<close> answers false, and otherwise descends; the answer does not stop the
  levels above, and a leaf has nothing to visit.
\<close>

type_synonym 's visitor = "'s \<Rightarrow> handle \<Rightarrow> bool \<times> 's"

fun Accept :: "'s visitor \<Rightarrow> string list \<Rightarrow> node \<Rightarrow> 's \<Rightarrow> 's"
  and Accept_children :: "'s visitor \<Rightarrow> string list \<Rightarrow> (string \<times> node) list \<Rightarrow> 's \<Rightarrow> 's" where
  "Accept visit anc (Leaf n v) s = s"
| "Accept visit anc (Composite n ch) s = Accept_children visit (n # anc) ch s"
| "Accept_children visit anc [] s = s"
| "Accept_children visit anc ((k, c) # cs) s =
     (case visit s (anc, c) of (go_on, s') \<Rightarrow>
        if go_on then Accept_children visit anc cs (Accept visit anc c s') else s')"

definition accept :: "'s visitor \<Rightarrow> handle \<Rightarrow> 's \<Rightarrow> 's" where
  "accept visit h s = Accept visit (fst h) (snd h) s"

text \<open>All nodes below a node, parents before their children, siblings in key order.\<close>

fun descendants :: "string list \<Rightarrow> node \<Rightarrow> handle list"
  and descendants_list :: "string list \<Rightarrow> (string \<times> node) list \<Rightarrow> handle list" where
  "descendants anc (Leaf n v) = []"
| "descendants anc (Composite n ch) = descendants_list (n # anc) ch"
| "descendants_list anc [] = []"
| "descendants_list anc ((k, c) # cs) = (anc, c) # descendants anc c @ descendants_list anc cs"

subsection \<open>Well-formed trees\<close>

text \<open>
  The children of a composite are sorted by key, and a child's key is its name. Every tree the
  code builds with \<open>Add\<close> is of this kind.
\<close>

fun wf_node :: "node \<Rightarrow> bool" where
  "wf_node (Leaf n v) = True"
| "wf_node (Composite n ch) \<longleftrightarrow> sm_sorted ch \<and> (\<forall>(k, c) \<in> set ch. k = Name c \<and> wf_node c)"

lemma wf_child: "wf_node t \<Longrightarrow> FindNode k t = Some c \<Longrightarrow> Name c = k \<and> wf_node c"
  by (cases t) (auto dest: sm_find_SomeD)

lemma wf_Composite_empty [simp]: "wf_node (Composite n [])"
  by simp

lemma set_sm_assign: "set (sm_assign k v m) \<subseteq> insert (k, v) (set m)"
  by (induction k v m rule: sm_assign.induct) auto

lemma set_sm_erase: "set (sm_erase k m) \<subseteq> set m"
  by (induction k m rule: sm_erase.induct) auto

lemma wf_Composite_Add: "wf_node t \<Longrightarrow> wf_node c \<Longrightarrow> wf_node (Composite_Add c t)"
  by (cases t) (use set_sm_assign in fastforce)+

lemma wf_Composite_Remove: "wf_node t \<Longrightarrow> wf_node (snd (Composite_Remove k t))"
  by (cases t) (use set_sm_erase in fastforce)+

lemma Name_Add [simp]: "Name (Composite_Add c t) = Name t"
  by (cases t) auto

lemma Name_Remove [simp]: "Name (snd (Composite_Remove k t)) = Name t"
  by (cases t) auto

lemma FindNode_Add:
  "is_composite t \<Longrightarrow> FindNode k (Composite_Add c t) = (if k = Name c then Some c else FindNode k t)"
  by (cases t) auto

lemma FindNode_Remove:
  "wf_node t \<Longrightarrow> FindNode k (snd (Composite_Remove j t)) = (if k = j then None else FindNode k t)"
  by (cases t) (auto simp: sm_contains_def)

lemma fst_Remove: "fst (Composite_Remove k t) \<longleftrightarrow> FindNode k t \<noteq> None"
  by (cases t) (auto simp: sm_contains_def)

lemma foldl_copy_snoc:
  assumes "sm_sorted (m @ ch)" and "\<forall>(k, c) \<in> set ch. f c = c"
  shows "foldl (\<lambda>m (k, c). sm_emplace k (f c) m) m ch = m @ ch"
  using assms
proof (induction ch arbitrary: m)
  case Nil
  then show ?case by simp
next
  case (Cons p ch)
  obtain k c where p: "p = (k, c)" by fastforce
  have lt: "\<forall>a \<in> fst ` set m. a < k"
    using Cons.prems(1) p by (auto simp: sm_sorted_def sorted_wrt_append)
  then have "sm_emplace k c m = m @ [(k, c)]"
    by (auto simp: sm_emplace_def sm_contains_keys sm_assign_snoc)
  with Cons p show ?case by simp
qed

lemma MakeCopy_id: "wf_node t \<Longrightarrow> MakeCopy t = t"
proof (induction t)
  case (Leaf n v)
  then show ?case by (simp add: wf_value_copy)
next
  case (Composite n ch)
  have "\<forall>(k, c) \<in> set ch. MakeCopy c = c"
    using Composite by fastforce
  with Composite.prems show ?case by (simp add: foldl_copy_snoc [of "[]"])
qed

subsection \<open>Attributes of schema nodes\<close>

text \<open>\<open>SchemaNode\<close> keeps, per attribute name, the values added so far, the latest first.\<close>

type_synonym attrs = "(string, string list) smap"

definition FindAttr :: "attrs \<Rightarrow> string \<Rightarrow> string list" where
  "FindAttr a k = (case sm_find a k of None \<Rightarrow> [] | Some vs \<Rightarrow> vs)"

definition AddAttr :: "string \<Rightarrow> string \<Rightarrow> attrs \<Rightarrow> attrs" where
  "AddAttr k v a = sm_assign k (v # FindAttr a k) a"

lemma FindAttr_AddAttr:
  "FindAttr (AddAttr k v a) j = (if j = k then v # FindAttr a k else FindAttr a j)"
  by (simp add: FindAttr_def AddAttr_def)

lemma FindAttr_Nil [simp]: "FindAttr [] k = []"
  by (simp add: FindAttr_def)

lemma sm_sorted_AddAttr: "sm_sorted a \<Longrightarrow> sm_sorted (AddAttr k v a)"
  by (simp add: AddAttr_def)

lemma FindAttr_AddAttr_fold:
  "FindAttr (fold (AddAttr k) vs a) j = (if j = k then rev vs @ FindAttr a k else FindAttr a j)"
  by (induction vs arbitrary: a) (auto simp: FindAttr_AddAttr)

subsection \<open>Visitors as folds\<close>

text \<open>
  For most visitors of the program \<open>Accept\<close> is one pass over the nodes below, in the order of
  \<open>descendants\<close>, and what the visitor collects is a fold over that list. It holds for every visitor whose
  state, once it has answered false, is not changed by another node; most visitors always answer true.
\<close>

locale absorbing_visitor =
  fixes visit :: "'s visitor"
  assumes visit_stopped: "\<not> fst (visit s h) \<Longrightarrow> snd (visit (snd (visit s h)) h') = snd (visit s h)"
begin

lemma fold_stopped: "\<not> fst (visit s h) \<Longrightarrow> fold (\<lambda>h s. snd (visit s h)) hs (snd (visit s h)) = snd (visit s h)"
  by (induction hs) (simp_all add: visit_stopped)

lemma Accept_fold:
  "Accept visit anc t s = fold (\<lambda>h s. snd (visit s h)) (descendants anc t) s"
  "Accept_children visit anc cs s = fold (\<lambda>h s. snd (visit s h)) (descendants_list anc cs) s"
proof (induction anc t and anc cs arbitrary: s and s rule: descendants_descendants_list.induct)
  case (4 anc k c cs)
  then show ?case
    using fold_stopped [of s "(anc, c)"] by (simp add: case_prod_beta)
qed auto

lemma accept_fold: "accept visit h s = fold (\<lambda>h s. snd (visit s h)) (descendants (fst h) (snd h)) s"
  by (simp add: accept_def Accept_fold)

end

locale full_visitor =
  fixes visit :: "'s visitor"
  assumes visit_goes_on: "fst (visit s h)"

sublocale full_visitor \<subseteq> absorbing_visitor visit
  by unfold_locales (simp add: visit_goes_on)

text \<open>The nodes below a handle have it in their chain of parents.\<close>

lemma descendants_anc_names:
  "h \<in> set (descendants anc t) \<Longrightarrow> \<exists>up. fst h = up @ Name t # anc \<and>
     (\<forall>n \<in> set up. \<exists>g \<in> set (descendants anc t). Name (snd g) = n)"
  "h \<in> set (descendants_list anc cs) \<Longrightarrow> \<exists>up. fst h = up @ anc \<and>
     (\<forall>n \<in> set up. \<exists>g \<in> set (descendants_list anc cs). Name (snd g) = n)"
proof (induction anc t and anc cs rule: descendants_descendants_list.induct)
  case (4 anc k c cs)
  then consider "h = (anc, c)" | "h \<in> set (descendants anc c)" | "h \<in> set (descendants_list anc cs)"
    by auto
  then show ?case
  proof cases
    case 1
    then show ?thesis by simp
  next
    case 2
    from "4.IH"(1) [OF this] obtain up where "fst h = up @ Name c # anc"
      "\<forall>n \<in> set up. \<exists>g \<in> set (descendants anc c). Name (snd g) = n" by blast
    then show ?thesis by (intro exI [of _ "up @ [Name c]"]) auto
  next
    case 3
    from "4.IH"(2) [OF this] obtain up where "fst h = up @ anc"
      "\<forall>n \<in> set up. \<exists>g \<in> set (descendants_list anc cs). Name (snd g) = n" by blast
    moreover have "set (descendants_list anc cs) \<subseteq> set (descendants_list anc ((k, c) # cs))" by auto
    ultimately show ?thesis by blast
  qed
qed auto

lemma descendants_anc: "h \<in> set (descendants anc t) \<Longrightarrow> \<exists>up. fst h = up @ Name t # anc"
  using descendants_anc_names(1) by blast

lemma descendants_list_child:
  "(k, c) \<in> set cs \<Longrightarrow> (anc, c) \<in> set (descendants_list anc cs) \<and>
     set (descendants anc c) \<subseteq> set (descendants_list anc cs)"
  by (induction cs) auto

lemma wf_descendants:
  "wf_node t \<Longrightarrow> h \<in> set (descendants anc t) \<Longrightarrow> wf_node (snd h)"
  "\<forall>(k, c) \<in> set cs. wf_node c \<Longrightarrow> h \<in> set (descendants_list anc cs) \<Longrightarrow> wf_node (snd h)"
  by (induction anc t and anc cs rule: descendants_descendants_list.induct) auto

subsection \<open>Walking down by child names\<close>

text \<open>
  The reference notion of a path: each name is the name of a child of the node before. It is what
  a path in the configuration means, and what the search of the code is compared with.
\<close>

fun walk :: "string list \<Rightarrow> handle \<Rightarrow> handle option" where
  "walk [] h = Some h"
| "walk (k # ks) (anc, t) =
     (case FindNode k t of None \<Rightarrow> None | Some c \<Rightarrow> walk ks (Name t # anc, c))"

lemma walk_append:
  "walk (xs @ ys) h = (case walk xs h of None \<Rightarrow> None | Some h' \<Rightarrow> walk ys h')"
  by (induction xs h rule: walk.induct) (auto split: option.splits)

lemma walk_names:
  "wf_node t \<Longrightarrow> walk ks (anc, t) = Some (anc', t') \<Longrightarrow>
     wf_node t' \<and> Name t' # anc' = rev ks @ Name t # anc"
proof (induction ks arbitrary: anc t)
  case Nil
  then show ?case by simp
next
  case (Cons k ks)
  then obtain c where "FindNode k t = Some c" "walk ks (Name t # anc, c) = Some (anc', t')"
    by (auto split: option.splits)
  with Cons wf_child [of t k c] show ?case by fastforce
qed

text \<open>Replacing the node at the end of a path.\<close>

fun update_at :: "string list \<Rightarrow> (node \<Rightarrow> node) \<Rightarrow> node \<Rightarrow> node" where
  "update_at [] f t = f t"
| "update_at (k # ks) f t =
     (case t of
        Leaf n v \<Rightarrow> Leaf n v
      | Composite n ch \<Rightarrow>
          (case sm_find ch k of
             None \<Rightarrow> Composite n ch
           | Some c \<Rightarrow> Composite n (sm_assign k (update_at ks f c) ch)))"

lemma Name_update_at [simp]: "(\<And>t. Name (f t) = Name t) \<Longrightarrow> Name (update_at ks f t) = Name t"
  by (cases ks; cases t) (auto split: option.splits)

lemma wf_update_at:
  assumes "\<And>t. Name (f t) = Name t" and "\<And>t. wf_node t \<Longrightarrow> wf_node (f t)"
  shows "wf_node t \<Longrightarrow> wf_node (update_at ks f t)"
proof (induction ks arbitrary: t)
  case Nil
  then show ?case using assms(2) by simp
next
  case (Cons k ks t)
  show ?case
  proof (cases t)
    case (Leaf n v)
    then show ?thesis by simp
  next
    case t: (Composite n ch)
    show ?thesis
    proof (cases "sm_find ch k")
      case None
      with Cons t show ?thesis by simp
    next
      case (Some c)
      with wf_child [OF Cons.prems, of k c] t have c: "Name c = k" "wf_node c" by auto
      then have "wf_node (update_at ks f c)" by (simp add: Cons.IH)
      with Cons.prems t Some c assms(1) show ?thesis by (auto dest!: subsetD [OF set_sm_assign])
    qed
  qed
qed

lemma walk_update_at:
  "walk ks (anc, t) = Some (anc', t') \<Longrightarrow> walk ks (anc, update_at ks f t) = Some (anc', f t')"
proof (induction ks arbitrary: anc t)
  case Nil
  then show ?case by simp
next
  case (Cons k ks)
  then show ?case by (cases t) (auto split: option.splits)
qed

subsection \<open>Property\<close>

text \<open>The children of a composite are a map from their names: after \<open>Add\<close> the node is found under its name and
  every other name finds what it found, after \<open>Remove\<close> the name finds nothing; \<open>Remove\<close> says whether there was a
  child, and both keep the tree well formed.\<close>

theorem children_are_a_map:
  assumes "wf_node t" "is_composite t" "wf_node c"
  shows "FindNode k (Composite_Add c t) = (if k = Name c then Some c else FindNode k t) \<and>
    FindNode k (snd (Composite_Remove j t)) = (if k = j then None else FindNode k t) \<and>
    (fst (Composite_Remove j t) \<longleftrightarrow> FindNode j t \<noteq> None) \<and>
    wf_node (Composite_Add c t) \<and> wf_node (snd (Composite_Remove j t))"
  using assms wf_Composite_Add wf_Composite_Remove by (simp add: FindNode_Add FindNode_Remove fst_Remove)

theorem children_are_a_map_witness:
  "FindNode ''a'' (Composite_Add (Composite ''a'' []) (Composite ''/'' [])) = Some (Composite ''a'' [])"
  using children_are_a_map [of "Composite ''/'' []" "Composite ''a'' []" "''a''"] by simp

end
