(* ===== verification/XPaths.thy ===== *)
theory XPaths
  imports Std_String Nodes "HOL-Library.Sublist"
begin

section \<open>Paths: parsing, searching, printing and evaluating\<close>

text \<open>
  \<open>src/xpath.cpp\<close> and the visitors of \<open>src/node/visitor_spec.hpp\<close>. A path is a string of names
  separated by slashes; \<open>[@key]\<close> stands for the name of an item of a container. \<open>walk\<close> of theory
  \<open>Nodes\<close> is the reference the search is compared with.
\<close>

abbreviation SEPARATOR :: char where "SEPARATOR \<equiv> CHR ''/''"
abbreviation ROOT_TOKEN :: string where "ROOT_TOKEN \<equiv> ''/''"
abbreviation ITEM_NAME_SUBSCRIPT :: string where "ITEM_NAME_SUBSCRIPT \<equiv> ''[@key]''"
abbreviation REFERENCE_TOKEN :: string where "REFERENCE_TOKEN \<equiv> ''@''"
abbreviation WILDCARD_TOKEN :: string where "WILDCARD_TOKEN \<equiv> ''*''"

subsection \<open>parse and mergeTokens\<close>

definition XPath_parse :: "string \<Rightarrow> string list" where
  "XPath_parse xpath = strtok_all SEPARATOR (c_str xpath)"

definition XPath_mergeTokens :: "string list \<Rightarrow> string" where
  "XPath_mergeTokens tokens =
     foldl (\<lambda>xpath token. (if last xpath \<noteq> SEPARATOR then xpath @ ''/'' else xpath) @ token)
       ROOT_TOKEN tokens"

text \<open>The tokens of which a path can be made: non-empty, without a slash or a NUL byte.\<close>

definition path_token :: "string \<Rightarrow> bool" where
  "path_token t \<longleftrightarrow> is_token SEPARATOR t \<and> CHR 0x00 \<notin> set t"

definition join :: "string list \<Rightarrow> string" where
  "join ts = concat (map (\<lambda>t. SEPARATOR # t) ts)"

lemma join_simps [simp]:
  "join [] = []" "join (t # ts) = SEPARATOR # t @ join ts" "join (ts @ us) = join ts @ join us"
  by (simp_all add: join_def)

lemma c_str_no_nul: "CHR 0x00 \<notin> set s \<Longrightarrow> c_str s = s"
  by (auto simp: c_str_def takeWhile_eq_all_conv)

lemma join_no_nul: "\<forall>t \<in> set ts. path_token t \<Longrightarrow> CHR 0x00 \<notin> set (join ts)"
  by (auto simp: join_def path_token_def)

lemma XPath_parse_join: "\<forall>t \<in> set ts. path_token t \<Longrightarrow> XPath_parse (join ts) = ts"
  by (simp add: XPath_parse_def c_str_no_nul join_no_nul)
     (simp add: join_def path_token_def strtok_all_concat)

lemma XPath_parse_tokens: "t \<in> set (XPath_parse xpath) \<Longrightarrow> path_token t"
proof -
  assume t: "t \<in> set (XPath_parse xpath)"
  then have "set t \<subseteq> set (c_str xpath)"
    using strtok_all_chars by (fastforce simp: XPath_parse_def)
  then have "CHR 0x00 \<notin> set t"
    by (auto simp: c_str_def dest: set_takeWhileD)
  with t show ?thesis
    using strtok_all_tokens by (auto simp: XPath_parse_def path_token_def)
qed

lemma XPath_parse_root [simp]: "XPath_parse ''/'' = []"
  by (simp add: XPath_parse_def c_str_def)

lemma path_token_last: "path_token t \<Longrightarrow> t \<noteq> [] \<and> last t \<noteq> SEPARATOR"
  by (metis is_token_def last_in_set path_token_def)

lemma mergeTokens_foldl:
  "\<forall>t \<in> set ts. path_token t \<Longrightarrow> x \<noteq> [] \<Longrightarrow> last x \<noteq> SEPARATOR \<Longrightarrow>
     foldl (\<lambda>x t. (if last x \<noteq> SEPARATOR then x @ ''/'' else x) @ t) x ts = x @ join ts"
proof (induction ts arbitrary: x)
  case Nil
  then show ?case by simp
next
  case (Cons t ts)
  then have "t \<noteq> []" "last t \<noteq> SEPARATOR"
    using path_token_last by auto
  with Cons show ?case by simp
qed

lemma XPath_mergeTokens_join:
  assumes "\<forall>t \<in> set ts. path_token t"
  shows "XPath_mergeTokens ts = (if ts = [] then ''/'' else join ts)"
proof (cases ts)
  case Nil
  then show ?thesis by (simp add: XPath_mergeTokens_def)
next
  case (Cons t us)
  with assms have "t \<noteq> []" "last t \<noteq> SEPARATOR" "\<forall>t \<in> set us. path_token t"
    using path_token_last by auto
  with Cons show ?thesis
    by (simp add: XPath_mergeTokens_def mergeTokens_foldl)
qed

lemma parse_mergeTokens: "\<forall>t \<in> set ts. path_token t \<Longrightarrow> XPath_parse (XPath_mergeTokens ts) = ts"
  by (auto simp: XPath_mergeTokens_join XPath_parse_join)

subsection \<open>Searching a node by name\<close>

text \<open>
  \<open>NodeFinder\<close> stops the level at which it meets the wanted name; \<open>init\<close> forgets the result of
  the search before. \<open>find_node\<close> is the pair of calls \<open>init\<close> and \<open>Accept\<close> of \<open>select\<close>.
\<close>

definition NodeFinder_visit :: "string \<Rightarrow> handle option visitor" where
  "NodeFinder_visit wanted found h =
     (if Name (snd h) = wanted then (False, Some h) else (True, found))"

definition find_node :: "string \<Rightarrow> handle \<Rightarrow> handle option" where
  "find_node wanted h = accept (NodeFinder_visit wanted) h None"

lemma finder_step:
  "Accept_children (NodeFinder_visit w) anc ((k, c) # cs) s =
     (if Name c = w then Some (anc, c)
      else Accept_children (NodeFinder_visit w) anc cs (Accept (NodeFinder_visit w) anc c s))"
  by (simp add: NodeFinder_visit_def)

lemma finder_result:
  "Accept (NodeFinder_visit w) anc t s = s \<and> (\<forall>h \<in> set (descendants anc t). Name (snd h) \<noteq> w) \<or>
   (\<exists>h \<in> set (descendants anc t). Name (snd h) = w \<and> Accept (NodeFinder_visit w) anc t s = Some h)"
  "Accept_children (NodeFinder_visit w) anc cs s = s \<and>
     (\<forall>h \<in> set (descendants_list anc cs). Name (snd h) \<noteq> w) \<or>
   (\<exists>h \<in> set (descendants_list anc cs).
      Name (snd h) = w \<and> Accept_children (NodeFinder_visit w) anc cs s = Some h)"
proof (induction anc t and anc cs arbitrary: s and s rule: descendants_descendants_list.induct)
  case (4 anc k c cs)
  show ?case
    using "4.IH"(1) [of s] "4.IH"(2) [of "Accept (NodeFinder_visit w) anc c s"]
    by (auto simp: finder_step simp del: Accept_children.simps)
qed simp_all

lemma find_node_Some_iff:
  fixes h :: handle
  shows "find_node w h \<noteq> None \<longleftrightarrow> (\<exists>h' \<in> set (descendants (fst h) (snd h)). Name (snd h') = w)"
  using finder_result(1) [where anc = "fst h" and t = "snd h" and w = w and s = None]
  by (auto simp: find_node_def accept_def split: if_splits)

lemma find_node_sound:
  fixes h :: handle
  shows "find_node w h = Some h' \<Longrightarrow> h' \<in> set (descendants (fst h) (snd h)) \<and> Name (snd h') = w"
  using finder_result(1) [where anc = "fst h" and t = "snd h" and w = w and s = None]
  by (auto simp: find_node_def accept_def split: if_splits)

text \<open>A child of the wanted name wins over every other node below.\<close>

lemma finder_child:
  assumes "distinct (map fst cs)" and "\<forall>(k, c) \<in> set cs. k = Name c" and "(w, c) \<in> set cs"
  shows "Accept_children (NodeFinder_visit w) anc cs s = Some (anc, c)"
  using assms
proof (induction cs arbitrary: s)
  case Nil
  then show ?case by simp
next
  case (Cons p cs)
  obtain k d where p: "p = (k, d)" by fastforce
  show ?case
  proof (cases "k = w")
    case True
    with Cons.prems p have "d = c" by force
    with True Cons.prems p show ?thesis by (simp add: finder_step del: Accept_children.simps)
  next
    case False
    with Cons.prems p have "Name d \<noteq> w" "(w, c) \<in> set cs" by auto
    with Cons p show ?thesis by (simp add: finder_step del: Accept_children.simps)
  qed
qed

lemma find_node_child:
  assumes "wf_node t" and "FindNode w t = Some c"
  shows "find_node w (anc, t) = Some (Name t # anc, c)"
proof (cases t)
  case (Leaf n v)
  with assms show ?thesis by simp
next
  case (Composite n ch)
  with assms have "distinct (map fst ch)" "\<forall>(k, c) \<in> set ch. k = Name c" "(w, c) \<in> set ch"
    by (auto simp: distinct_keys dest: sm_find_SomeD)
  then show ?thesis
    by (simp add: find_node_def accept_def Composite finder_child)
qed

subsection \<open>select\<close>

text \<open>
  A key that holds both an opening and a closing bracket is the name before the bracket followed
  by the name inside. If the closing bracket comes first, the length passed to \<open>substr\<close> wraps
  around and the second name runs to the end of the key.
\<close>

definition bracket_split :: "string \<Rightarrow> (string \<times> string) option" where
  "bracket_split key =
     (case (find_sub ''['' key, find_sub '']'' key) of
        (Some l, Some r) \<Rightarrow>
          Some (take l key,
                if l < r then take (r - l - 1) (drop (l + 1) key) else drop (l + 1) key)
      | _ \<Rightarrow> None)"

fun select_keys :: "string list \<Rightarrow> handle \<Rightarrow> handle option" where
  "select_keys [] h = Some h"
| "select_keys (key # keys) h =
     (if key = ''value'' \<and> keys = [] then Some h
      else case bracket_split key of
             Some (list_name, item_name) \<Rightarrow>
               (case find_node list_name h of
                  None \<Rightarrow> None
                | Some h1 \<Rightarrow>
                    (case find_node item_name h1 of
                       None \<Rightarrow> None
                     | Some h2 \<Rightarrow> select_keys keys h2))
           | None \<Rightarrow>
               (case find_node key h of
                  None \<Rightarrow> None
                | Some h' \<Rightarrow> select_keys keys h'))"

definition XPath_select :: "handle \<Rightarrow> string \<Rightarrow> handle option" where
  "XPath_select root xpath = (if xpath = [] then None else select_keys (XPath_parse xpath) root)"

text \<open>Names without brackets; and paths that do not end in the reserved word \<open>value\<close>.\<close>

definition plain_key :: "string \<Rightarrow> bool" where
  "plain_key k \<longleftrightarrow> bracket_split k = None"

definition plain_path :: "string list \<Rightarrow> bool" where
  "plain_path ks \<longleftrightarrow> (\<forall>k \<in> set ks. plain_key k) \<and> (ks = [] \<or> last ks \<noteq> ''value'')"

lemma plain_path_Cons:
  "plain_path (k # ks) \<Longrightarrow> plain_path ks \<and> bracket_split k = None \<and> \<not> (k = ''value'' \<and> ks = [])"
  by (auto simp: plain_path_def plain_key_def split: if_splits)

lemma plain_keyI: "CHR ''['' \<notin> set k \<or> CHR '']'' \<notin> set k \<Longrightarrow> plain_key k"
proof -
  have absent: "find_sub [c] k = None" if "c \<notin> set k" for c
    using that find_sub_iff [of "[c]" k] by force
  assume "CHR ''['' \<notin> set k \<or> CHR '']'' \<notin> set k"
  then show ?thesis
    using absent [of "CHR ''[''"] absent [of "CHR '']''"]
    by (auto simp: plain_key_def bracket_split_def split: option.splits)
qed

lemma select_keys_walk:
  "wf_node t \<Longrightarrow> plain_path ks \<Longrightarrow> walk ks (anc, t) = Some h \<Longrightarrow> select_keys ks (anc, t) = Some h"
proof (induction ks arbitrary: anc t)
  case Nil
  then show ?case by simp
next
  case (Cons k ks)
  then obtain c where c: "FindNode k t = Some c" "walk ks (Name t # anc, c) = Some h"
    by (auto split: option.splits)
  with Cons.prems wf_child have "wf_node c" by blast
  with Cons c plain_path_Cons [OF Cons.prems(2)] show ?case
    by (auto simp: find_node_child)
qed

text \<open>
  What a successful search guarantees in general: the node lies below the start, and the keys
  occur in this order on the way down to it, the last one being its name.
\<close>

lemma descendants_path:
  fixes h h' :: handle
  assumes "h' \<in> set (descendants (fst h) (snd h))"
  obtains mid where "Name (snd h') # fst h' = rev (mid @ [Name (snd h')]) @ Name (snd h) # fst h"
proof -
  obtain up where "fst h' = up @ Name (snd h) # fst h"
    using descendants_anc [OF assms] by blast
  then show ?thesis by (intro that [of "rev up"]) simp
qed

lemma select_keys_sound:
  assumes "plain_path ks" and "select_keys ks h = Some h'"
  shows "\<exists>mid. Name (snd h') # fst h' = rev mid @ Name (snd h) # fst h \<and> subseq ks mid"
  using assms
proof (induction ks arbitrary: h)
  case Nil
  then show ?case by (intro exI [of _ "[]"]) simp
next
  case (Cons k ks)
  note plain = plain_path_Cons [OF Cons.prems(1)]
  with Cons.prems obtain h1 where h1: "find_node k h = Some h1" "select_keys ks h1 = Some h'"
    by (auto split: option.splits)
  then have "h1 \<in> set (descendants (fst h) (snd h))" and n: "Name (snd h1) = k"
    using find_node_sound by blast+
  then obtain m1 where m1: "Name (snd h1) # fst h1 = rev (m1 @ [k]) @ Name (snd h) # fst h"
    using descendants_path by metis
  obtain m2 where m2: "Name (snd h') # fst h' = rev m2 @ Name (snd h1) # fst h1" "subseq ks m2"
    using Cons.IH [OF _ h1(2)] plain by blast
  have "subseq ([k] @ ks) ((m1 @ [k]) @ m2)"
    using m2(2) by (intro list_emb_append_mono) (auto intro: list_emb_append2)
  with m1 m2(1) show ?case
    by (intro exI [of _ "(m1 @ [k]) @ m2"]) simp
qed

subsection \<open>toString\<close>

text \<open>
  The names from the root down to the node; the root's own name is skipped, and a name that starts
  with a bracket is glued to the one before. \<open>name[0]\<close> of an empty name is the NUL byte.
\<close>

definition names :: "handle \<Rightarrow> string list" where
  "names h = Name (snd h) # fst h"

definition toString_names :: "string list \<Rightarrow> string" where
  "toString_names up =
     foldl (\<lambda>xpath name.
         if name \<noteq> ''/''
         then (if (case name of [] \<Rightarrow> CHR 0x00 | c # _ \<Rightarrow> c) \<noteq> CHR ''['' then xpath @ ''/'' else xpath) @ name
         else xpath)
       [] (rev up)"

definition XPath_toString :: "handle \<Rightarrow> string" where
  "XPath_toString h = toString_names (names h)"

text \<open>Names as they occur in a configuration.\<close>

definition node_token :: "string \<Rightarrow> bool" where
  "node_token t \<longleftrightarrow> path_token t \<and> CHR ''['' \<notin> set t"

lemma node_token_plain: "node_token t \<Longrightarrow> plain_key t"
  by (simp add: node_token_def plain_keyI)

lemma toString_foldl:
  "\<forall>t \<in> set ts. node_token t \<Longrightarrow>
     foldl (\<lambda>xpath name.
         if name \<noteq> ''/''
         then (if (case name of [] \<Rightarrow> CHR 0x00 | c # _ \<Rightarrow> c) \<noteq> CHR ''['' then xpath @ ''/'' else xpath) @ name
         else xpath) x ts = x @ join ts"
proof (induction ts arbitrary: x)
  case Nil
  then show ?case by simp
next
  case (Cons t ts)
  then have "t \<noteq> ''/''" "t \<noteq> []" "CHR ''['' \<notin> set t"
    by (auto simp: node_token_def path_token_def is_token_def)
  with Cons show ?case by (cases t) auto
qed

lemma toString_names_root:
  "\<forall>t \<in> set ts. node_token t \<Longrightarrow> toString_names (rev ts @ [''/'']) = join ts"
  by (simp add: toString_names_def toString_foldl)

lemma XPath_toString_walk:
  assumes "wf_node root" and "Name root = ''/''" and "walk ks ([], root) = Some h"
    and "\<forall>k \<in> set ks. node_token k"
  shows "XPath_toString h = join ks"
proof -
  obtain anc t where h: "h = (anc, t)" by fastforce
  then have "names h = rev ks @ [''/'']"
    using walk_names [of root ks "[]" anc t] assms by (simp add: names_def)
  then show ?thesis
    using assms(4) by (simp add: XPath_toString_def toString_names_root)
qed

lemma select_toString:
  assumes "wf_node root" and "Name root = ''/''" and "walk ks ([], root) = Some h" and "ks \<noteq> []"
    and "\<forall>k \<in> set ks. node_token k" and "last ks \<noteq> ''value''"
  shows "XPath_select ([], root) (XPath_toString h) = Some h"
proof -
  have "\<forall>k \<in> set ks. path_token k" and plain: "plain_path ks"
    using assms by (auto simp: node_token_def plain_path_def intro: node_token_plain)
  then have "XPath_parse (join ks) = ks" by (simp add: XPath_parse_join)
  moreover have "join ks \<noteq> []" using assms(4) by (cases ks) auto
  ultimately show ?thesis
    using XPath_toString_walk [OF assms(1-3,5)] select_keys_walk [OF assms(1) plain assms(3)]
    by (simp add: XPath_select_def)
qed

subsection \<open>evaluateXPath\<close>

text \<open>
  The climb from the start node towards the root until the wanted name is met; the list holds the
  names of the node and its ancestors, nearest first.
\<close>

fun climb :: "string \<Rightarrow> string list \<Rightarrow> string list" where
  "climb wanted (n # p # up) = (if n \<noteq> wanted then climb wanted (p # up) else n # p # up)"
| "climb wanted up = up"

text \<open>
  The name put in place of \<open>[@key]\<close>: the parent of the node with the wanted name, or, when there is
  no such node on the way up, the start node itself if it has a parent (every parent of the tree is a
  composite). A node with the wanted name but without a parent is dereferenced through a null pointer.
\<close>

definition resolve_key_name :: "string \<Rightarrow> string list \<Rightarrow> string result" where
  "resolve_key_name wanted up =
     (case climb wanted up of
        [] \<Rightarrow> Inl NullDeref
      | n # rest \<Rightarrow>
          if n \<noteq> wanted then Inr (if length up > 1 then hd up else [])
          else (case rest of [] \<Rightarrow> Inl NullDeref | p # _ \<Rightarrow> Inr p))"

definition item_positions :: "string list \<Rightarrow> nat list" where
  "item_positions keys = filter (\<lambda>i. keys ! i = ITEM_NAME_SUBSCRIPT) [0..<length keys]"

text \<open>The tokens of a path in which every \<open>[@key]\<close> is a token of its own.\<close>

definition expand_items :: "string \<Rightarrow> string list" where
  "expand_items xpath =
     strtok_all SEPARATOR
       (c_str (replace_all ITEM_NAME_SUBSCRIPT (''/'' @ ITEM_NAME_SUBSCRIPT) xpath))"

definition XPath_evaluateXPath :: "handle \<Rightarrow> string \<Rightarrow> string result" where
  "XPath_evaluateXPath start_node xpath =
     (if xpath = [] then Inl OutOfRange
      else if hd xpath \<noteq> SEPARATOR then Inr []
      else
        let keys = expand_items xpath;
            positions = item_positions keys
        in if positions = [] then Inr (join keys)
           else
             let idx = foldl max 0 positions;
                 wanted_child = (if length keys > idx + 1 then keys ! (idx + 1) else keys ! idx)
             in rbind (resolve_key_name wanted_child (names start_node)) (\<lambda>resolved.
                  Inr (join (foldl (\<lambda>ks i. ks[i := resolved]) keys positions))))"

lemma set_item_positions: "set (item_positions keys) = {i. i < length keys \<and> keys ! i = ITEM_NAME_SUBSCRIPT}"
  by (auto simp: item_positions_def)

lemma foldl_list_update:
  "foldl (\<lambda>ks i. ks[i := r]) keys is = map (\<lambda>j. if j \<in> set is then r else keys ! j) [0..<length keys]"
proof (induction "is" arbitrary: keys)
  case Nil
  then show ?case by (simp add: map_nth)
next
  case (Cons i "is")
  then show ?case by (auto simp: nth_list_update)
qed

lemma replace_items:
  "foldl (\<lambda>ks i. ks[i := r]) keys (item_positions keys) =
     map (\<lambda>k. if k = ITEM_NAME_SUBSCRIPT then r else k) keys"
  by (rule nth_equalityI) (auto simp: foldl_list_update set_item_positions)

lemma foldl_max_eq:
  fixes xs :: "nat list"
  shows "a \<le> m \<Longrightarrow> \<forall>x \<in> set xs. x \<le> m \<Longrightarrow> a = m \<or> m \<in> set xs \<Longrightarrow> foldl max a xs = m"
proof (induction xs arbitrary: a)
  case Nil
  then show ?case by simp
next
  case (Cons x xs)
  then show ?case using Cons.IH [of "max a x"] by (auto simp: max_def)
qed

lemma item_positions_last:
  assumes "ITEM_NAME_SUBSCRIPT \<notin> set ys"
  shows "item_positions (xs @ ITEM_NAME_SUBSCRIPT # ys) \<noteq> []"
    and "foldl max 0 (item_positions (xs @ ITEM_NAME_SUBSCRIPT # ys)) = length xs"
proof -
  let ?keys = "xs @ ITEM_NAME_SUBSCRIPT # ys"
  have mem: "length xs \<in> set (item_positions ?keys)"
    by (simp add: set_item_positions)
  have "i \<le> length xs" if "i \<in> set (item_positions ?keys)" for i
  proof (rule ccontr)
    assume "\<not> i \<le> length xs"
    then obtain j where "i = length xs + Suc j" by (metis less_iff_Suc_add not_le add_Suc_right)
    with that have "j < length ys" "ys ! j = ITEM_NAME_SUBSCRIPT"
      by (simp_all add: set_item_positions nth_append)
    with assms show False by (metis nth_mem)
  qed
  with mem show "foldl max 0 (item_positions ?keys) = length xs"
    by (intro foldl_max_eq) auto
  from mem show "item_positions ?keys \<noteq> []" by auto
qed

lemma item_positions_none: "ITEM_NAME_SUBSCRIPT \<notin> set keys \<Longrightarrow> item_positions keys = []"
  unfolding item_positions_def filter_empty_conv by (metis atLeastLessThan_iff nth_mem set_upt)

lemma climb_found:
  "c \<notin> set xs \<Longrightarrow> climb c (xs @ c # p # up) = c # p # up"
proof (induction xs)
  case Nil
  then show ?case by simp
next
  case (Cons x xs)
  then show ?case by (cases xs) auto
qed

lemma climb_missing: "up \<noteq> [] \<Longrightarrow> wanted \<notin> set up \<Longrightarrow> climb wanted up = [last up]"
  by (induction wanted up rule: climb.induct) auto

lemma evaluate_plain:
  assumes "xpath \<noteq> []" and "hd xpath = SEPARATOR" and "ITEM_NAME_SUBSCRIPT \<notin> set (expand_items xpath)"
  shows "XPath_evaluateXPath h xpath = Inr (join (expand_items xpath))"
  using assms by (simp add: XPath_evaluateXPath_def item_positions_none)

lemma evaluate_child_of_item:
  assumes "xpath \<noteq> []" and "hd xpath = SEPARATOR"
    and keys: "expand_items xpath = xs @ ITEM_NAME_SUBSCRIPT # c # ys" "ITEM_NAME_SUBSCRIPT \<notin> set (c # ys)"
    and "names h = below @ c # k # up" and "c \<notin> set below"
  shows "XPath_evaluateXPath h xpath =
    Inr (join (map (\<lambda>t. if t = ITEM_NAME_SUBSCRIPT then k else t) (expand_items xpath)))"
proof -
  have "resolve_key_name c (names h) = Inr k"
    using assms(5,6) by (simp add: resolve_key_name_def climb_found)
  moreover have "\<not> length (expand_items xpath) \<le> length xs + 1" and "expand_items xpath ! (length xs + 1) = c"
    by (simp_all add: keys nth_append)
  ultimately show ?thesis
    using assms(1,2) item_positions_last [of "c # ys" xs] keys(2)
    by (simp add: XPath_evaluateXPath_def keys(1) replace_items [unfolded keys(1)] Let_def)
qed

lemma evaluate_trailing_item:
  assumes "xpath \<noteq> []" and "hd xpath = SEPARATOR"
    and keys: "expand_items xpath = xs @ [ITEM_NAME_SUBSCRIPT]"
    and up: "names h = n # p # up" "ITEM_NAME_SUBSCRIPT \<notin> set (names h)"
  shows "XPath_evaluateXPath h xpath =
    Inr (join (map (\<lambda>t. if t = ITEM_NAME_SUBSCRIPT then n else t) (expand_items xpath)))"
proof -
  have "climb ITEM_NAME_SUBSCRIPT (names h) = [last (names h)]"
    by (rule climb_missing) (use up(1) in simp, rule up(2))
  moreover have "last (names h) \<noteq> ITEM_NAME_SUBSCRIPT"
    using up by (metis last_in_set list.discI)
  ultimately have "resolve_key_name ITEM_NAME_SUBSCRIPT (names h) = Inr n"
    using up(1) by (simp add: resolve_key_name_def)
  then show ?thesis
    using assms(1,2) item_positions_last [of "[]" xs]
    by (simp add: XPath_evaluateXPath_def keys replace_items [unfolded keys] Let_def nth_append)
qed

lemma join_tokens_roundtrip: "XPath_parse (join (XPath_parse xpath)) = XPath_parse xpath"
  by (simp add: XPath_parse_join XPath_parse_tokens)

subsection \<open>Collecting the children of a node\<close>

text \<open>
  The two visitors of \<open>src/node/visitor_spec.hpp\<close>. \<open>SubnodeChildsVisitor\<close> compares the name of the
  parent, \<open>NodeChildsOnlyVisitor\<close> its whole path. Both push to the front of a forward list. A visited
  node always has a parent.
\<close>

definition SubnodeChildsVisitor_visit :: "string \<Rightarrow> string list visitor" where
  "SubnodeChildsVisitor_visit parent_name subnodes h =
     (True, if fst h \<noteq> [] \<and> hd (fst h) = parent_name then Name (snd h) # subnodes else subnodes)"

definition NodeChildsOnlyVisitor_visit :: "string \<Rightarrow> string list visitor" where
  "NodeChildsOnlyVisitor_visit parent_xpath subnodes h =
     (True, if toString_names (fst h) = parent_xpath
            then (parent_xpath @ ''/'' @ Name (snd h)) # subnodes else subnodes)"

interpretation subnode_visitor: full_visitor "SubnodeChildsVisitor_visit p"
  by unfold_locales (simp add: SubnodeChildsVisitor_visit_def)

interpretation childs_only_visitor: full_visitor "NodeChildsOnlyVisitor_visit p"
  by unfold_locales (simp add: NodeChildsOnlyVisitor_visit_def)

definition subnodes_by_parent_name :: "handle \<Rightarrow> string list" where
  "subnodes_by_parent_name h = accept (SubnodeChildsVisitor_visit (Name (snd h))) h []"

definition childs_only :: "handle \<Rightarrow> string list" where
  "childs_only h = accept (NodeChildsOnlyVisitor_visit (XPath_toString h)) h []"

lemma fold_collect:
  "fold (\<lambda>h s. if P h then f h # s else s) hs s = rev (map f (filter P hs)) @ s"
  by (induction hs arbitrary: s) auto

lemma subnodes_by_parent_name_eq:
  "subnodes_by_parent_name h =
     rev (map (\<lambda>h'. Name (snd h'))
       (filter (\<lambda>h'. fst h' \<noteq> [] \<and> hd (fst h') = Name (snd h)) (descendants (fst h) (snd h))))"
  by (simp add: subnodes_by_parent_name_def subnode_visitor.accept_fold
      SubnodeChildsVisitor_visit_def fold_collect)

lemma childs_only_eq:
  "childs_only h =
     rev (map (\<lambda>h'. XPath_toString h @ ''/'' @ Name (snd h'))
       (filter (\<lambda>h'. toString_names (fst h') = XPath_toString h) (descendants (fst h) (snd h))))"
  by (simp add: childs_only_def childs_only_visitor.accept_fold
      NodeChildsOnlyVisitor_visit_def fold_collect)

text \<open>
  A configuration: a well-formed tree under the root \<open>/\<close> in which every name can be a token of a path.
  In it the comparison of whole paths finds exactly the children.
\<close>

definition wf_config :: "node \<Rightarrow> bool" where
  "wf_config root \<longleftrightarrow> wf_node root \<and> Name root = ''/'' \<and>
     (\<forall>h \<in> set (descendants [] root). node_token (Name (snd h)))"

lemma walk_in_descendants:
  "walk ks (anc, t) = Some h \<Longrightarrow> ks \<noteq> [] \<Longrightarrow> h \<in> set (descendants anc t)"
proof (induction ks arbitrary: anc t)
  case Nil
  then show ?case by simp
next
  case (Cons k ks)
  then obtain n ch c where t: "t = Composite n ch" "sm_find ch k = Some c" "walk ks (n # anc, c) = Some h"
    by (cases t) (auto split: option.splits)
  then have "(n # anc, c) \<in> set (descendants_list (n # anc) ch)"
    and "set (descendants (n # anc) c) \<subseteq> set (descendants_list (n # anc) ch)"
    using descendants_list_child [OF sm_find_SomeD] by blast+
  with Cons t show ?case by (cases "ks = []") auto
qed

lemma descendants_trans:
  "h \<in> set (descendants anc t) \<Longrightarrow> set (descendants (fst h) (snd h)) \<subseteq> set (descendants anc t)"
  "h \<in> set (descendants_list anc cs) \<Longrightarrow> set (descendants (fst h) (snd h)) \<subseteq> set (descendants_list anc cs)"
  by (induction anc t and anc cs rule: descendants_descendants_list.induct) auto

lemma walk_keys_below:
  "wf_node t \<Longrightarrow> walk ks (anc, t) = Some h \<Longrightarrow>
     \<forall>k \<in> set ks. \<exists>h' \<in> set (descendants anc t). Name (snd h') = k"
proof (induction ks arbitrary: anc t)
  case Nil
  then show ?case by simp
next
  case (Cons k ks)
  then obtain c where c: "FindNode k t = Some c" "walk ks (Name t # anc, c) = Some h"
    by (auto split: option.splits)
  then have "walk [k] (anc, t) = Some (Name t # anc, c)" by simp
  then have here: "(Name t # anc, c) \<in> set (descendants anc t)" by (rule walk_in_descendants) simp
  have "Name c = k" "wf_node c" using wf_child [OF Cons.prems(1) c(1)] by simp_all
  with here Cons.IH [OF _ c(2)] descendants_trans(1) [OF here] show ?case by force
qed

lemma wf_config_names:
  assumes "wf_config root" and "walk ks ([], root) = Some h"
  shows "names h = rev ks @ [''/'']" and "\<forall>k \<in> set ks. node_token k"
    and "\<forall>h' \<in> set (descendants (fst h) (snd h)). node_token (Name (snd h'))"
proof -
  obtain anc t where h: "h = (anc, t)" by fastforce
  with assms show n: "names h = rev ks @ [''/'']"
    using walk_names [of root ks "[]" anc t] by (simp add: wf_config_def names_def)
  show "\<forall>h' \<in> set (descendants (fst h) (snd h)). node_token (Name (snd h'))"
  proof (cases "ks = []")
    case True
    with assms show ?thesis by (auto simp: wf_config_def)
  next
    case False
    with assms(2) have "h \<in> set (descendants [] root)" by (simp add: walk_in_descendants)
    with assms(1) descendants_trans(1) show ?thesis by (fastforce simp: wf_config_def)
  qed
  show "\<forall>k \<in> set ks. node_token k"
    using assms walk_keys_below by (fastforce simp: wf_config_def)
qed

lemma join_inject:
  "\<forall>t \<in> set ts. path_token t \<Longrightarrow> \<forall>t \<in> set us. path_token t \<Longrightarrow> join ts = join us \<Longrightarrow> ts = us"
  by (metis XPath_parse_join)

lemma filter_deeper:
  assumes "\<forall>h \<in> set (descendants anc t). \<not> P h"
  shows "filter P (descendants anc t) = []"
  using assms by (simp add: filter_empty_conv)

lemma filter_children:
  assumes "\<forall>c \<in> snd ` set cs. P (anc, c)"
    and "\<forall>c \<in> snd ` set cs. \<forall>h \<in> set (descendants anc c). \<not> P h"
  shows "filter P (descendants_list anc cs) = map (\<lambda>(k, c). (anc, c)) cs"
  using assms by (induction cs) (auto simp: filter_deeper)

lemma childs_only_children:
  assumes "wf_config root" and "walk ks ([], root) = Some h"
  shows "childs_only h = rev (map (\<lambda>(k, c). XPath_toString h @ ''/'' @ k) (children (snd h)))"
proof (cases "snd h")
  case (Leaf n v)
  then show ?thesis by (simp add: childs_only_eq)
next
  case (Composite n ch)
  note nm = wf_config_names [OF assms]
  have str: "XPath_toString h = join ks"
    by (simp add: XPath_toString_def nm(1) toString_names_root nm(2))
  have up: "n # fst h = rev ks @ [''/'']"
    using nm(1) Composite by (simp add: names_def)
  have deep: "toString_names (fst g) \<noteq> join ks" if "c \<in> snd ` set ch" and "g \<in> set (descendants (n # fst h) c)" for c g
  proof -
    note g = that
    obtain xs where xs: "fst g = xs @ Name c # n # fst h"
        "\<forall>m \<in> set xs. \<exists>g \<in> set (descendants (n # fst h) c). Name (snd g) = m"
      using descendants_anc_names(1) [OF g(2)] by blast
    obtain k where "(k, c) \<in> set ch" using g(1) by auto
    from descendants_list_child [OF this, of "n # fst h"]
    have "\<forall>m \<in> set (Name c # xs). \<exists>g \<in> set (descendants (fst h) (snd h)). Name (snd g) = m"
      using xs(2) by (force simp: Composite)
    then have tok: "\<forall>m \<in> set (Name c # xs). node_token m" using nm(3) by metis
    have "fst g = rev (ks @ Name c # rev xs) @ [''/'']" by (simp add: xs(1) up)
    then have "toString_names (fst g) = join (ks @ Name c # rev xs)"
      by (simp only:) (rule toString_names_root, use tok nm(2) in auto)
    then show ?thesis
      by simp
  qed
  have wf: "wf_node (snd h)"
    using assms walk_names [of root ks "[]" "fst h" "snd h"] by (simp add: wf_config_def)
  have "filter (\<lambda>h'. toString_names (fst h') = join ks) (descendants_list (n # fst h) ch) =
      map (\<lambda>(k, c). (n # fst h, c)) ch"
    using deep by (intro filter_children) (simp_all add: up toString_names_root nm(2))
  moreover have "map (\<lambda>(k, c). f (Name c)) ch = map (\<lambda>(k, c). f k) ch" for f :: "string \<Rightarrow> string"
    using wf Composite by auto
  ultimately show ?thesis
    by (simp add: childs_only_eq Composite str comp_def case_prod_beta')
qed

subsection \<open>Properties\<close>

text \<open>A small configuration for the witnesses: a container with one list entry and one leaf below it.\<close>

definition small_config :: node where
  "small_config = Composite ''/''
     [(''ports'', Composite ''ports'' [(''p1'', Composite ''p1'' [(''speed'', Leaf ''speed'' (Value_init NUMBER))])]),
      (''vlan'', Composite ''vlan'' [])]"

lemma small_config_wf: "wf_node small_config" "Name small_config = ''/''"
  by (simp_all add: small_config_def sm_sorted_def wf_value_def Value_init_def)

lemma small_config_walk:
  "walk [''ports'', ''p1'', ''speed''] ([], small_config) =
     Some ([''p1'', ''ports'', ''/''], Leaf ''speed'' (Value_init NUMBER))"
  by (simp add: small_config_def)

text \<open>Splitting a path into its tokens undoes \<open>mergeTokens\<close>, and merging the tokens of a path gives a path
  with the same tokens.\<close>

theorem parse_undoes_mergeTokens:
  assumes "\<forall>t \<in> set ts. path_token t"
  shows "XPath_parse (XPath_mergeTokens ts) = ts \<and>
         XPath_parse (XPath_mergeTokens (XPath_parse xpath)) = XPath_parse xpath"
  using assms by (simp add: parse_mergeTokens XPath_parse_tokens)

theorem parse_undoes_mergeTokens_witness:
  "XPath_parse (XPath_mergeTokens [''ports'', ''p1'']) = [''ports'', ''p1'']"
  using parse_undoes_mergeTokens [of "[''ports'', ''p1'']"] by (simp add: path_token_def is_token_def)

text \<open>C34 Selecting the path \<open>toString\<close> gives of a node finds that node again, for every node below the root of a
  well-formed tree whose names have no slash and no opening bracket and whose own name is not the reserved word.\<close>

theorem select_finds_the_path_of_a_node:
  assumes "wf_node root" "Name root = ''/''" "walk ks ([], root) = Some h" "ks \<noteq> []"
    and "\<forall>k \<in> set ks. node_token k" "last ks \<noteq> ''value''"
  shows "XPath_toString h = join ks \<and> XPath_select ([], root) (XPath_toString h) = Some h"
  using select_toString [OF assms] XPath_toString_walk [OF assms(1-3,5)] by simp

theorem select_finds_the_path_of_a_node_witness:
  "XPath_select ([], small_config) ''/ports/p1/speed'' =
     Some ([''p1'', ''ports'', ''/''], Leaf ''speed'' (Value_init NUMBER))"
  using select_finds_the_path_of_a_node [OF small_config_wf small_config_walk]
  by (simp add: node_token_def path_token_def is_token_def join_def, elim conjE, simp)

text \<open>What \<open>select\<close> finds lies below the start node, and the tokens of the path occur in this order among the
  names on the way to it.\<close>

theorem select_result_matches_the_path:
  assumes "plain_path (XPath_parse xpath)" "XPath_select h xpath = Some h'"
  shows "\<exists>mid. names h' = rev mid @ names h \<and> subseq (XPath_parse xpath) mid"
  using select_keys_sound [OF assms(1), of h h'] assms(2)
  by (auto simp: XPath_select_def names_def split: if_splits)

text \<open>The converse fails: \<open>select\<close> looks for every token anywhere below the node found so far, so a path that
  leaves out names still selects a node, although there is no node at this path.\<close>

theorem select_accepts_a_path_that_does_not_exist:
  "wf_config small_config \<and> walk (XPath_parse ''/speed'') ([], small_config) = None \<and>
   XPath_select ([], small_config) ''/speed'' =
     Some ([''p1'', ''ports'', ''/''], Leaf ''speed'' (Value_init NUMBER))"
proof -
  have parse: "XPath_parse ''/speed'' = [''speed'']"
    using XPath_parse_join [of "[''speed'']"] by (simp add: join_def path_token_def is_token_def)
  have "bracket_split ''speed'' = None" by (simp add: bracket_split_def)
  with parse show ?thesis
    using small_config_wf
    by (simp add: wf_config_def XPath_select_def find_node_def accept_def NodeFinder_visit_def small_config_def
        node_token_def path_token_def is_token_def)
qed

theorem select_result_matches_the_path_witness:
  "\<exists>mid. [''speed'', ''p1'', ''ports'', ''/''] = rev mid @ [''/''] \<and> subseq [''ports'', ''speed''] mid"
proof -
  have parse: "XPath_parse ''/ports/speed'' = [''ports'', ''speed'']"
    using XPath_parse_join [of "[''ports'', ''speed'']"] by (simp add: join_def path_token_def is_token_def)
  have plain: "bracket_split ''speed'' = None" "bracket_split ''ports'' = None"
    by (simp_all add: bracket_split_def)
  have "XPath_select ([], small_config) ''/ports/speed'' =
      Some ([''p1'', ''ports'', ''/''], Leaf ''speed'' (Value_init NUMBER))"
    using parse plain
    by (simp add: XPath_select_def find_node_def accept_def NodeFinder_visit_def small_config_def)
  from select_result_matches_the_path [OF _ this] parse plain show ?thesis
    by (simp add: plain_path_def plain_key_def names_def small_config_def)
qed

text \<open>In a path where a name follows the last \<open>[@key]\<close>, every \<open>[@key]\<close> is replaced by the name of the parent of
  the nearest node of that name on the way from the start node to the root.\<close>

theorem key_of_a_path_is_the_parent_of_its_child:
  assumes "hd xpath = SEPARATOR" "expand_items xpath = xs @ ITEM_NAME_SUBSCRIPT # c # ys"
    and "ITEM_NAME_SUBSCRIPT \<notin> set (c # ys)" "names h = below @ c # k # up" "c \<notin> set below"
  shows "XPath_evaluateXPath h xpath =
    Inr (join (map (\<lambda>t. if t = ITEM_NAME_SUBSCRIPT then k else t) (expand_items xpath)))"
proof -
  have "xpath \<noteq> []"
    using assms(2) by (auto simp: expand_items_def c_str_def strtok_all.simps [of _ "[]"] replace_all.simps)
  then show ?thesis using assms by (intro evaluate_child_of_item)
qed

theorem key_of_a_path_is_the_parent_of_its_child_witness:
  "XPath_evaluateXPath ([''p1'', ''ports'', ''/''], Leaf ''speed'' (Value_init NUMBER)) ''/ports[@key]/speed'' =
     Inr ''/ports/p1/speed''"
proof -
  have "expand_items ''/ports[@key]/speed'' = [''ports''] @ ITEM_NAME_SUBSCRIPT # ''speed'' # []"
    by code_simp
  from key_of_a_path_is_the_parent_of_its_child [OF _ this, of "([''p1'', ''ports'', ''/''], Leaf ''speed'' (Value_init NUMBER))"
      "[]" "''p1''" "[''ports'', ''/'']"] this
  show ?thesis by (simp add: names_def join_def)
qed

text \<open>In a configuration, the node children collected by comparing whole paths are exactly the children of the
  node, each with the path of the node in front, in descending order of their names.\<close>

theorem collected_children_are_the_children:
  assumes "wf_config root" "walk ks ([], root) = Some h"
  shows "childs_only h = rev (map (\<lambda>(k, c). XPath_toString h @ ''/'' @ k) (children (snd h)))"
  by (rule childs_only_children [OF assms])

theorem collected_children_are_the_children_witness:
  "childs_only ([''ports'', ''/''], Composite ''p1'' [(''speed'', Leaf ''speed'' (Value_init NUMBER))]) =
     [''/ports/p1/speed'']"
proof -
  have c: "wf_config small_config"
    using small_config_wf
    by (simp add: wf_config_def small_config_def node_token_def path_token_def is_token_def)
  have w: "walk [''ports'', ''p1''] ([], small_config) =
      Some ([''ports'', ''/''], Composite ''p1'' [(''speed'', Leaf ''speed'' (Value_init NUMBER))])"
    by (simp add: small_config_def)
  from collected_children_are_the_children [OF c w]
  show ?thesis by (simp add: XPath_toString_def names_def toString_names_def)
qed

end
