(* ===== verification/Schema.thy ===== *)
theory Schema
  imports Json XPaths
begin

section \<open>Looking up the schema of a path\<close>

text \<open>
  \<open>getSchemaByXPath\<close> and \<open>GetJsonSchemaByXPath\<close> of \<open>src/config.cpp\<close>: the schema document is walked
  along the tokens of a path, through \<open>properties\<close> and \<open>patternProperties\<close>; a pointer to the place
  reached is composed on the way and looked up in a copy of the whole document, with the \<open>operator[]\<close>
  that creates what is missing. The first function also builds a chain of schema nodes with the
  attributes the program knows.

  Matching a regular expression is the parameter \<open>rx\<close>: it gets the text and the pattern, and raises
  when the pattern is not valid.
\<close>

type_synonym regex = "string \<Rightarrow> string \<Rightarrow> bool result"

abbreviation PROPERTIES :: string where "PROPERTIES \<equiv> ''properties''"
abbreviation PATTERN_PROPERTIES :: string where "PATTERN_PROPERTIES \<equiv> ''patternProperties''"
abbreviation SCHEMA_TYPE :: string where "SCHEMA_TYPE \<equiv> ''type''"
abbreviation ACTION_PARAM :: string where "ACTION_PARAM \<equiv> ''action-parameters''"
abbreviation ACTION_PARAM_ON_UPDATE :: string where "ACTION_PARAM_ON_UPDATE \<equiv> ''on-update''"
abbreviation ACTION_PARAM_ON_DELETE :: string where "ACTION_PARAM_ON_DELETE \<equiv> ''on-delete''"
abbreviation TYPE_NIL :: json where "TYPE_NIL \<equiv> JStr ''null''"
abbreviation TYPE_OBJECT :: json where "TYPE_OBJECT \<equiv> JStr ''object''"

abbreviation ACTION :: string where "ACTION \<equiv> ''action''"
abbreviation ACTION_ON_DELETE_PATH :: string where "ACTION_ON_DELETE_PATH \<equiv> ''action-on-delete-path''"
abbreviation ACTION_ON_UPDATE_PATH :: string where "ACTION_ON_UPDATE_PATH \<equiv> ''action-on-update-path''"
abbreviation ACTION_SERVER_ADDRESS :: string where "ACTION_SERVER_ADDRESS \<equiv> ''action-server-address''"
abbreviation DELETE_CONSTRAINTS :: string where "DELETE_CONSTRAINTS \<equiv> ''delete-constraints''"
abbreviation UPDATE_CONSTRAINTS :: string where "UPDATE_CONSTRAINTS \<equiv> ''update-constraints''"
abbreviation UPDATE_DEPENDENCIES :: string where "UPDATE_DEPENDENCIES \<equiv> ''update-dependencies''"
abbreviation REFERENCE :: string where "REFERENCE \<equiv> ''reference''"

definition SUPPORTED_ATTRIBUTES :: "string list" where
  "SUPPORTED_ATTRIBUTES =
     [ACTION, ACTION_ON_DELETE_PATH, ACTION_ON_UPDATE_PATH, ACTION_SERVER_ADDRESS, ''default'', ''description'',
      DELETE_CONSTRAINTS, REFERENCE, UPDATE_CONSTRAINTS, UPDATE_DEPENDENCIES]"

subsection \<open>The attributes of a schema node\<close>

text \<open>
  An attribute value is converted to a string, which raises on anything else. The document the
  attributes are read from, \<open>schema.patch(schema.diff({}, schema))\<close>, is the schema itself.
\<close>

fun add_attr_items :: "string \<Rightarrow> json list \<Rightarrow> attrs \<Rightarrow> attrs result" where
  "add_attr_items k [] a = Inr a"
| "add_attr_items k (v # vs) a = rbind (json_get_string v) (\<lambda>s. add_attr_items k vs (AddAttr k s a))"

fun add_action_items :: "(string \<times> json) list \<Rightarrow> attrs \<Rightarrow> attrs result" where
  "add_action_items [] a = Inr a"
| "add_action_items ((k, v) # vs) a =
     rbind (json_get_string v) (\<lambda>s. add_action_items vs (AddAttr (ACTION @ ''-'' @ k) s a))"

definition add_attribute :: "string \<Rightarrow> json \<Rightarrow> attrs \<Rightarrow> attrs result" where
  "add_attribute k v a =
     (if k \<notin> set SUPPORTED_ATTRIBUTES then Inr a
      else if k = ACTION then add_action_items (json_items v) a
      else if is_JArr v then add_attr_items k (json_elements v) a
      else add_attr_items k [v] a)"

fun load_attributes :: "(string \<times> json) list \<Rightarrow> attrs \<Rightarrow> attrs result" where
  "load_attributes [] a = Inr a"
| "load_attributes ((k, v) # vs) a = rbind (add_attribute k v a) (load_attributes vs)"

definition load_schema_attributes :: "json \<Rightarrow> attrs result" where
  "load_schema_attributes schema = load_attributes (json_items schema) []"

subsection \<open>One token\<close>

fun match_pattern :: "regex \<Rightarrow> string \<Rightarrow> (string \<times> json) list \<Rightarrow> string option result" where
  "match_pattern rx token [] = Inr None"
| "match_pattern rx token ((k, v) # ps) =
     rbind (rx token k) (\<lambda>m. if m then Inr (Some k) else match_pattern rx token ps)"

text \<open>
  The state of the walk: the copy of the whole document, the schema reached, and the text of the
  pointer to it. \<open>None\<close> is the early return with nothing found.
\<close>

type_synonym schema_state = "json \<times> json \<times> string"

definition enter :: "string \<Rightarrow> json \<Rightarrow> schema_state result" where
  "enter path jschema =
     rbind (pointer_parse path) (\<lambda>selector. rbind (json_ref selector jschema) (\<lambda>(schema, jschema').
       Inr (jschema', schema, path)))"

definition schema_step :: "regex \<Rightarrow> string \<Rightarrow> schema_state \<Rightarrow> schema_state option result" where
  "schema_step rx token = (\<lambda>(jschema, schema, path).
     let in_properties = path @ ''/'' @ PROPERTIES @ ''/'' @ token in
     if \<not> json_has schema token then
       case json_find schema PATTERN_PROPERTIES of
         None \<Rightarrow>
           rbind (enter in_properties jschema) (\<lambda>(jschema', schema', path').
             if json_no_items schema' then Inr None else Inr (Some (jschema', schema', path')))
       | Some patterns \<Rightarrow>
           rbind (match_pattern rx token (json_items patterns)) (\<lambda>m.
             case m of
               None \<Rightarrow> Inr None
             | Some k \<Rightarrow> rbind (enter (path @ ''/'' @ PATTERN_PROPERTIES @ ''/'' @ k) jschema) (\<lambda>st. Inr (Some st)))
     else rbind (enter in_properties jschema) (\<lambda>st. Inr (Some st)))"

subsection \<open>The walk\<close>

text \<open>
  A schema node is its chain of names, nearest first, with its attributes; the chain ends in the
  root, which has none.
\<close>

type_synonym schema_node = "string list \<times> attrs"

fun schema_nodes :: "regex \<Rightarrow> string list \<Rightarrow> schema_state \<Rightarrow> schema_node \<Rightarrow> schema_node option result" where
  "schema_nodes rx [] st node = Inr (Some node)"
| "schema_nodes rx (token # tokens) st node =
     rbind (schema_step rx token st) (\<lambda>r.
       case r of
         None \<Rightarrow> Inr None
       | Some st' \<Rightarrow>
           rbind (load_schema_attributes (fst (snd st'))) (\<lambda>a.
             schema_nodes rx tokens st' (token # fst node, a)))"

definition JsonSchema_get :: "json \<Rightarrow> json result" where
  "JsonSchema_get jschema =
     (if jschema = JNull then Inl (RuntimeError ''JSON schema is not initialized yet'') else Inr jschema)"

definition getSchemaByXPath :: "regex \<Rightarrow> json \<Rightarrow> string \<Rightarrow> schema_node option result" where
  "getSchemaByXPath rx jschema0 xpath =
     rbind (JsonSchema_get jschema0) (\<lambda>jschema.
       case json_find jschema PROPERTIES of
         None \<Rightarrow> Inr None
       | Some schema \<Rightarrow> schema_nodes rx (XPath_parse xpath) (jschema, schema, []) ([ROOT_TOKEN], []))"

fun schema_documents :: "regex \<Rightarrow> string list \<Rightarrow> schema_state \<Rightarrow> json result" where
  "schema_documents rx [] st = Inr (fst (snd st))"
| "schema_documents rx (token # tokens) st =
     rbind (schema_step rx token st) (\<lambda>r.
       case r of None \<Rightarrow> Inr JNull | Some st' \<Rightarrow> schema_documents rx tokens st')"

definition GetJsonSchemaByXPath :: "regex \<Rightarrow> json \<Rightarrow> string \<Rightarrow> json result" where
  "GetJsonSchemaByXPath rx jschema0 xpath =
     rbind (JsonSchema_get jschema0) (\<lambda>jschema.
       case json_find jschema PROPERTIES of
         None \<Rightarrow> Inr JNull
       | Some schema \<Rightarrow> schema_documents rx (XPath_parse xpath) (jschema, schema, []))"

text \<open>The path of a schema node is printed like the path of a configuration node.\<close>

definition schema_xpath :: "schema_node \<Rightarrow> string" where
  "schema_xpath node = toString_names (fst node)"

subsection \<open>Parameters of actions\<close>

text \<open>
  \<open>fFindAndAppendParamAction\<close>: of the members of a configuration node those the schema names for the
  action. The names in the list of the schema must be strings.
\<close>

fun append_params :: "json list \<Rightarrow> json \<Rightarrow> json \<Rightarrow> json result" where
  "append_params [] node_jconfig parameters = Inr parameters"
| "append_params (p # ps) node_jconfig parameters =
     rbind (json_get_string p) (\<lambda>param.
       case json_find node_jconfig param of
         None \<Rightarrow> append_params ps node_jconfig parameters
       | Some v \<Rightarrow> rbind (json_set param v parameters) (append_params ps node_jconfig))"

definition fFindAndAppendParamAction :: "json \<Rightarrow> json \<Rightarrow> string \<Rightarrow> json result" where
  "fFindAndAppendParamAction node_jschema node_jconfig action_jnode_name =
     (case json_find node_jschema ACTION_PARAM of
        None \<Rightarrow> Inr (JObj [])
      | Some action_params \<Rightarrow>
          (case json_find action_params action_jnode_name of
             None \<Rightarrow> Inr (JObj [])
           | Some wanted \<Rightarrow> append_params (json_elements wanted) node_jconfig (JObj [])))"


subsection \<open>The two lookups agree\<close>

lemma schema_lookups_agree:
  "schema_nodes rx ts st node = Inr (Some node') \<Longrightarrow>
     \<exists>doc. schema_documents rx ts st = Inr doc \<and> fst node' = rev ts @ fst node \<and>
       (if ts = [] then snd node' = snd node else load_schema_attributes doc = Inr (snd node'))"
proof (induction ts arbitrary: st node)
  case Nil
  then show ?case by simp
next
  case (Cons t ts)
  from Cons.prems obtain st' a where st': "schema_step rx t st = Inr (Some st')"
    and a: "load_schema_attributes (fst (snd st')) = Inr a"
    and n: "schema_nodes rx ts st' (t # fst node, a) = Inr (Some node')"
    by (auto simp: rbind_eq_Inr split: option.splits)
  from Cons.IH [OF n] st' a show ?case by (cases "ts = []") auto
qed

lemma schema_lookup_none: "schema_nodes rx ts st node = Inr None \<Longrightarrow> schema_documents rx ts st = Inr JNull"
proof (induction ts arbitrary: st node)
  case Nil
  then show ?case by simp
next
  case (Cons t ts)
  then obtain r where r: "schema_step rx t st = Inr r" by (auto simp: rbind_eq_Inr)
  show ?case
  proof (cases r)
    case None
    with r show ?thesis by simp
  next
    case (Some st')
    with Cons.prems r obtain a where "schema_nodes rx ts st' (t # fst node, a) = Inr None"
      by (auto simp: rbind_eq_Inr)
    with Cons.IH r Some show ?thesis by simp
  qed
qed

lemma schema_node_document:
  assumes "getSchemaByXPath rx jschema xpath = Inr found"
  shows "\<exists>doc. GetJsonSchemaByXPath rx jschema xpath = Inr doc \<and>
    (case found of
       None \<Rightarrow> doc = JNull
     | Some n \<Rightarrow> fst n = rev (XPath_parse xpath) @ [ROOT_TOKEN] \<and>
         (XPath_parse xpath \<noteq> [] \<longrightarrow> load_schema_attributes doc = Inr (snd n)))"
proof -
  from assms have j: "JsonSchema_get jschema = Inr jschema"
    by (auto simp: getSchemaByXPath_def rbind_eq_Inr JsonSchema_get_def split: if_splits)
  show ?thesis
  proof (cases "json_find jschema PROPERTIES")
    case None
    with assms j show ?thesis by (auto simp: getSchemaByXPath_def GetJsonSchemaByXPath_def)
  next
    case (Some props)
    with assms j have n: "schema_nodes rx (XPath_parse xpath) (jschema, props, []) ([ROOT_TOKEN], []) = Inr found"
      by (simp add: getSchemaByXPath_def)
    have docs: "GetJsonSchemaByXPath rx jschema xpath = schema_documents rx (XPath_parse xpath) (jschema, props, [])"
      using j Some by (simp add: GetJsonSchemaByXPath_def)
    show ?thesis
    proof (cases found)
      case None
      with n schema_lookup_none docs show ?thesis by simp
    next
      case (Some a)
      with n schema_lookups_agree [of rx "XPath_parse xpath" "(jschema, props, [])" "([ROOT_TOKEN], [])" a] docs
      show ?thesis by auto
    qed
  qed
qed

lemma schema_node_names:
  "getSchemaByXPath rx jschema xpath = Inr (Some n) \<Longrightarrow> fst n = rev (XPath_parse xpath) @ [ROOT_TOKEN]"
  using schema_node_document [of rx jschema xpath "Some n"] by auto

subsection \<open>Structural descent\<close>

text \<open>
  What the lookup means: from a schema node to the schema of a member, by \<open>properties\<close> or by the first
  pattern that matches. It is the meaning for tidy schemas: nodes are objects with keys of a set \<open>K\<close> of
  keywords, with \<open>properties\<close> or \<open>patternProperties\<close> but not both; members are objects, their names and the
  patterns are free of the characters a pointer escapes.
\<close>

fun schema_descend :: "regex \<Rightarrow> string list \<Rightarrow> json \<Rightarrow> json option result" where
  "schema_descend rx [] s = Inr (Some s)"
| "schema_descend rx (t # ts) s =
     (case json_find s PATTERN_PROPERTIES of
        None \<Rightarrow>
          (case json_walk [PROPERTIES, t] s of None \<Rightarrow> Inr None | Some c \<Rightarrow> schema_descend rx ts c)
      | Some patterns \<Rightarrow>
          rbind (match_pattern rx t (json_items patterns)) (\<lambda>m.
            case m of
              None \<Rightarrow> Inr None
            | Some k \<Rightarrow>
                (case json_find patterns k of None \<Rightarrow> Inr None | Some c \<Rightarrow> schema_descend rx ts c)))"

definition pointer_token :: "string \<Rightarrow> bool" where
  "pointer_token t \<longleftrightarrow> CHR ''/'' \<notin> set t \<and> CHR ''~'' \<notin> set t"

fun tidy :: "string list \<Rightarrow> json \<Rightarrow> bool"
  and tidy_members :: "string list \<Rightarrow> json \<Rightarrow> bool" where
  "tidy K (JObj m) \<longleftrightarrow> m \<noteq> [] \<and> \<not> (sm_contains m PROPERTIES \<and> sm_contains m PATTERN_PROPERTIES) \<and>
     (\<forall>(k, v) \<in> set m. k \<in> set K \<and> (k = PROPERTIES \<or> k = PATTERN_PROPERTIES \<longrightarrow> tidy_members K v))"
| "tidy K j \<longleftrightarrow> False"
| "tidy_members K (JObj m) \<longleftrightarrow> (\<forall>(k, v) \<in> set m. pointer_token k \<and> tidy K v)"
| "tidy_members K j \<longleftrightarrow> False"

lemma escape_pointer_token: "pointer_token t \<Longrightarrow> escape t = t"
  unfolding escape_chars pointer_token_def by (induction t) (auto simp: escape_char_def)

lemma pointer_append:
  "pointer_token t \<Longrightarrow> pointer_token u \<Longrightarrow> pointer_to_string p @ ''/'' @ t @ ''/'' @ u = pointer_to_string (p @ [t, u])"
  by (simp add: pointer_to_string_def escape_pointer_token)

lemma keyword_tokens: "pointer_token PROPERTIES" "pointer_token PATTERN_PROPERTIES"
  by (simp_all add: pointer_token_def)

lemma json_walk_append: "json_walk (p @ q) j = (case json_walk p j of None \<Rightarrow> None | Some v \<Rightarrow> json_walk q v)"
  by (induction p arbitrary: j) (auto split: option.splits)

lemma enter_walk:
  assumes "wf_json j" and "json_walk p j = Some s" and "json_walk [t, u] s = Some c"
    and "pointer_token t" and "pointer_token u"
  shows "enter (pointer_to_string p @ ''/'' @ t @ ''/'' @ u) j = Inr (j, c, pointer_to_string (p @ [t, u]))"
proof -
  have "json_walk (p @ [t, u]) j = Some c" using assms(2,3) by (simp add: json_walk_append)
  with assms(1) have "json_ref (p @ [t, u]) j = Inr (c, j)" by (rule json_ref_walk)
  then show ?thesis unfolding pointer_append [OF assms(4,5)] enter_def by simp
qed

lemma match_pattern_key: "match_pattern rx t ps = Inr (Some k) \<Longrightarrow> k \<in> fst ` set ps"
  by (induction rx t ps rule: match_pattern.induct) (auto simp: rbind_eq_Inr split: if_splits)

lemma tidy_find:
  assumes "tidy K s" and "json_find s k = Some v"
  shows "k \<in> set K" and "k = PROPERTIES \<or> k = PATTERN_PROPERTIES \<Longrightarrow> tidy_members K v"
  using assms by (cases s; auto dest!: sm_find_SomeD)+

lemma tidy_members_find:
  assumes "tidy_members K v" and "json_find v t = Some c"
  shows "pointer_token t" and "tidy K c"
  using assms by (cases v; auto dest!: sm_find_SomeD)+

lemma tidy_items: "tidy K c \<Longrightarrow> \<not> json_no_items c"
  by (cases c) (auto simp: json_no_items_def)

lemma walk_two: "json_walk [t, u] s = Some c \<longleftrightarrow> (\<exists>v. json_find s t = Some v \<and> json_find v u = Some c)"
  by (auto split: option.splits)


lemma schema_step_found:
  assumes wf: "wf_json j" and p: "json_walk p j = Some s" and tidy: "tidy K s" and t: "t \<notin> set K"
    and d: "schema_descend rx (t # ts) s = Inr (Some d)"
  shows "\<exists>c q. schema_step rx t (j, s, pointer_to_string p) = Inr (Some (j, c, pointer_to_string q)) \<and>
    json_walk q j = Some c \<and> tidy K c \<and> schema_descend rx ts c = Inr (Some d)"
proof -
  have no_t: "\<not> json_has s t" using tidy_find(1) [OF tidy, of t] t by (cases "json_find s t") (auto simp: json_has_def)
  have goal: ?thesis
    if u: "u = PROPERTIES \<or> u = PATTERN_PROPERTIES" and w: "json_walk [u, k] s = Some c"
      and dc: "schema_descend rx ts c = Inr (Some d)"
      and step: "\<And>st. enter (pointer_to_string p @ ''/'' @ u @ ''/'' @ k) j = Inr st \<Longrightarrow>
        \<not> json_no_items (fst (snd st)) \<Longrightarrow> schema_step rx t (j, s, pointer_to_string p) = Inr (Some st)" for u k c
  proof -
    from w obtain v where v: "json_find s u = Some v" "json_find v k = Some c" unfolding walk_two by blast
    from tidy_find(2) [OF tidy v(1) u] have m: "tidy_members K v" .
    from tidy_members_find [OF m v(2)] have k: "pointer_token k" and c: "tidy K c" .
    have "pointer_token u" using u keyword_tokens by auto
    from step [OF enter_walk [OF wf p w this k]] tidy_items [OF c]
    have "schema_step rx t (j, s, pointer_to_string p) = Inr (Some (j, c, pointer_to_string (p @ [u, k])))" by simp
    moreover have "json_walk (p @ [u, k]) j = Some c" using p w by (simp add: json_walk_append)
    ultimately show ?thesis using c dc by blast
  qed
  show ?thesis
  proof (cases "json_find s PATTERN_PROPERTIES")
    case None
    from d None obtain c where w: "json_walk [PROPERTIES, t] s = Some c" and dc: "schema_descend rx ts c = Inr (Some d)"
      by (auto split: option.splits)
    show ?thesis
      by (rule goal [OF _ w dc]) (use no_t None in \<open>auto simp: schema_step_def Let_def\<close>)
  next
    case (Some patterns)
    from d Some obtain k where k: "match_pattern rx t (json_items patterns) = Inr (Some k)"
      and rest: "(case json_find patterns k of None \<Rightarrow> Inr None | Some c \<Rightarrow> schema_descend rx ts c) = Inr (Some d)"
      by (auto simp: rbind_eq_Inr split: option.splits)
    from rest obtain c where c: "json_find patterns k = Some c" and dc: "schema_descend rx ts c = Inr (Some d)"
      by (cases "json_find patterns k") auto
    have w: "json_walk [PATTERN_PROPERTIES, k] s = Some c" using Some c by simp
    show ?thesis
      by (rule goal [OF _ w dc]) (use no_t Some k in \<open>auto simp: schema_step_def Let_def\<close>)
  qed
qed

lemma schema_documents_found:
  assumes "wf_json j" and "json_walk p j = Some s" and "tidy K s" and "\<forall>t \<in> set ts. t \<notin> set K"
    and "schema_descend rx ts s = Inr (Some d)"
  shows "schema_documents rx ts (j, s, pointer_to_string p) = Inr d"
  using assms(2-)
proof (induction ts arbitrary: p s)
  case Nil
  then show ?case by simp
next
  case (Cons t ts)
  from Cons.prems(3) have "t \<notin> set K" by simp
  from schema_step_found [OF assms(1) Cons.prems(1,2) this Cons.prems(4)] obtain c q where
    step: "schema_step rx t (j, s, pointer_to_string p) = Inr (Some (j, c, pointer_to_string q))"
    and c: "json_walk q j = Some c" "tidy K c" "schema_descend rx ts c = Inr (Some d)"
    by blast
  from Cons.IH [OF c(1,2) _ c(3)] Cons.prems(3) step show ?case by simp
qed

text \<open>The root: the lookup starts at the members of \<open>properties\<close>.\<close>

lemma GetJsonSchema_found:
  assumes wf: "wf_json j" and props: "json_find j PROPERTIES = Some props"
    and tidy: "tidy_members K props" and no: "\<not> json_has props PATTERN_PROPERTIES"
    and ts: "\<forall>t \<in> set (tl (XPath_parse xpath)). t \<notin> set K" and path: "XPath_parse xpath = t # ts"
    and d: "json_find props t = Some c" "schema_descend rx ts c = Inr (Some d)"
  shows "GetJsonSchemaByXPath rx j xpath = Inr d"
proof -
  from tidy_members_find [OF tidy d(1)] have t: "pointer_token t" and c: "tidy K c" .
  have w: "json_walk [PROPERTIES, t] j = Some c" using props d(1) by simp
  have "j \<noteq> JNull" using props by auto
  moreover have "enter (''/'' @ PROPERTIES @ ''/'' @ t) j = Inr (j, c, pointer_to_string [PROPERTIES, t])"
    using enter_walk [OF wf _ w keyword_tokens(1) t, of "[]"] by (simp add: pointer_to_string_def)
  moreover have "json_has props t" using d(1) by (simp add: json_has_def)
  ultimately have "GetJsonSchemaByXPath rx j xpath = schema_documents rx ts (j, c, pointer_to_string [PROPERTIES, t])"
    using props path by (simp add: GetJsonSchemaByXPath_def JsonSchema_get_def schema_step_def)
  with schema_documents_found [OF wf w c _ d(2)] ts path show ?thesis by simp
qed


subsection \<open>Properties\<close>

definition speed_schema :: json where
  "speed_schema = JObj [(''type'', JStr ''string'')]"

definition interface_members :: json where
  "interface_members = JObj
     [(''interface'', JObj
         [(''patternProperties'', JObj
             [(''^eth'', JObj [(''properties'', JObj [(''speed'', speed_schema)]), (''type'', JStr ''object''),
                               (''update-dependencies'', JArr [JStr ''/vlan''])])]),
          (''type'', JStr ''object'')])]"

definition interface_schema :: json where
  "interface_schema = JObj [(''properties'', interface_members)]"

definition prefix_regex :: regex where
  "prefix_regex text pattern = Inr (pattern \<noteq> [] \<and> take (length (tl pattern)) text = tl pattern)"

definition schema_keywords :: "string list" where
  "schema_keywords = [PROPERTIES, PATTERN_PROPERTIES, SCHEMA_TYPE, UPDATE_DEPENDENCIES]"



text \<open>The two lookups of a path, for its attributes and for its document, agree: the schema node found carries the
  tokens of the path up to the root and the attributes of the document found, and where there is no node the
  document is null.\<close>

theorem schema_node_belongs_to_the_document:
  assumes "getSchemaByXPath rx jschema xpath = Inr found"
  shows "\<exists>doc. GetJsonSchemaByXPath rx jschema xpath = Inr doc \<and>
    (case found of
       None \<Rightarrow> doc = JNull
     | Some n \<Rightarrow> fst n = rev (XPath_parse xpath) @ [ROOT_TOKEN] \<and>
         (XPath_parse xpath \<noteq> [] \<longrightarrow> load_schema_attributes doc = Inr (snd n)))"
  using assms by (rule schema_node_document)

theorem schema_node_belongs_to_the_document_witness:
  "\<exists>doc. GetJsonSchemaByXPath prefix_regex interface_schema ''/interface/eth-1'' = Inr doc \<and>
     load_schema_attributes doc = Inr [(''update-dependencies'', [''/vlan''])]"
proof -
  have "getSchemaByXPath prefix_regex interface_schema ''/interface/eth-1'' =
      Inr (Some ([''eth-1'', ''interface'', ''/''], [(''update-dependencies'', [''/vlan''])]))"
    by code_simp
  moreover have "XPath_parse ''/interface/eth-1'' \<noteq> []" by code_simp
  ultimately show ?thesis using schema_node_belongs_to_the_document by fastforce
qed

text \<open>A schema node with both \<open>properties\<close> and \<open>patternProperties\<close> loses its properties: a member that is no
  keyword of the node is looked for among the patterns only, and when none matches, nothing is found.\<close>

theorem properties_beside_patterns_are_not_found:
  assumes "json_find schema PATTERN_PROPERTIES = Some patterns" and "\<not> json_has schema token"
    and "match_pattern rx token (json_items patterns) = Inr None"
  shows "schema_step rx token (jschema, schema, path) = Inr None"
  using assms by (simp add: schema_step_def)

theorem properties_beside_patterns_are_not_found_witness:
  "schema_step prefix_regex ''name''
     (JNull, JObj [(''patternProperties'', JObj [(''^eth'', JObj [])]), (''properties'', JObj [(''name'', JObj [])])], []) =
     Inr None"
  by (rule properties_beside_patterns_are_not_found [of _ "JObj [(''^eth'', JObj [])]"])
     (simp_all add: json_has_def prefix_regex_def)

end
