(* ===== verification/Loading.thy ===== *)
theory Loading
  imports Schema
begin

section \<open>Loading a configuration document\<close>

text \<open>
  \<open>fParseAndLoadConfig\<close> and \<open>fLoadPatternProperties\<close> of \<open>src/config.cpp\<close> build the configuration tree
  from a document along its schema. Both recurse into members of the schema. The variable \<open>node\<close> of
  the first one is the composite the members are loaded into: the one given, or the composite made
  last in the loop over the schema, which is where the second loop loads the members of \<open>properties\<close>
  and \<open>patternProperties\<close>. It is modelled by the name of that child, \<open>None\<close> for the given composite; a
  change of the child is a change of the tree it was added to.
\<close>

definition target :: "string option \<Rightarrow> node \<Rightarrow> node" where
  "target cur root =
     (case cur of None \<Rightarrow> root
      | Some k \<Rightarrow> (case FindNode k root of None \<Rightarrow> Composite k [] | Some c \<Rightarrow> c))"

definition put_target :: "string option \<Rightarrow> node \<Rightarrow> node \<Rightarrow> node" where
  "put_target cur n root = (case cur of None \<Rightarrow> n | Some k \<Rightarrow> Composite_Add n root)"

text \<open>An array becomes a composite with one leaf for each item, named like its value.\<close>

fun array_items :: "json list \<Rightarrow> node \<Rightarrow> node result" where
  "array_items [] leaf = Inr leaf"
| "array_items (item # items) leaf =
     rbind (json_get_string item) (\<lambda>s.
       array_items items (Composite_Add (Leaf s (snd (set_string s (Value_init STRING)))) leaf))"

definition array_node :: "string \<Rightarrow> json \<Rightarrow> node result" where
  "array_node k c = array_items (json_elements c) (Composite k [])"

definition leaf_node :: "string \<Rightarrow> json \<Rightarrow> node result" where
  "leaf_node k c = rbind (json_get_string c) (\<lambda>s. Inr (Leaf k (snd (set_string s (Value_init STRING)))))"

definition is_array_schema :: "json \<Rightarrow> bool" where
  "is_array_schema v \<longleftrightarrow> json_find v SCHEMA_TYPE = Some (JStr ''array'')"

definition has_members :: "json \<Rightarrow> bool" where
  "has_members v \<longleftrightarrow> json_has v PROPERTIES \<or> json_has v PATTERN_PROPERTIES"

definition is_leaf_schema :: "json \<Rightarrow> bool" where
  "is_leaf_schema v \<longleftrightarrow>
     \<not> has_members v \<or> (case json_find v SCHEMA_TYPE of None \<Rightarrow> False | Some t \<Rightarrow> t \<noteq> TYPE_OBJECT)"

text \<open>The weight of a schema: the recursion goes only into members of an object or an array.\<close>

fun is_container :: "json \<Rightarrow> bool" where
  "is_container (JObj m) = True"
| "is_container (JArr xs) = True"
| "is_container j = False"

fun weight :: "json \<Rightarrow> nat" where
  "weight (JObj m) = sum_list (map (\<lambda>(k, v). if k = [] \<and> \<not> is_container v then 1 else 3 + weight v) m)"
| "weight (JArr xs) = sum_list (map (\<lambda>v. 3 + weight v) xs)"
| "weight j = 0"

definition item_weight :: "string \<times> json \<Rightarrow> nat" where
  "item_weight = (\<lambda>(k, v). if k = [] \<and> \<not> is_container v then 1 else 3 + weight v)"

definition items_weight :: "(string \<times> json) list \<Rightarrow> nat" where
  "items_weight its = sum_list (map item_weight its)"

lemma items_weight_simps [simp]:
  "items_weight [] = 0"
  "items_weight (p # its) = item_weight p + items_weight its"
  by (simp_all add: items_weight_def)

lemma item_weight_pos [simp]: "0 < item_weight p"
  by (simp add: item_weight_def split: prod.splits)

lemma digits_nonempty [simp]: "digits n \<noteq> []"
  by (cases "n < 10") (simp_all add: digits.simps [of n])

lemma items_weight_json: "items_weight (json_items j) < 2 + weight j"
proof (cases j)
  case (JObj m)
  then show ?thesis by (simp add: items_weight_def item_weight_def)
next
  case (JArr xs)
  have "map (\<lambda>i. 3 + weight (xs ! i)) [0..<length xs] = map (\<lambda>v. 3 + weight v) xs"
    by (rule nth_equalityI) simp_all
  with JArr show ?thesis
    by (simp add: items_weight_def item_weight_def comp_def)
qed (simp_all add: item_weight_def)

lemma json_has_container: "json_has v k \<Longrightarrow> is_container v"
  by (cases v) (simp_all add: json_has_def)

lemma recursion_into_container:
  "is_array_schema v \<Longrightarrow> is_container v"
  "\<not> is_leaf_schema v \<Longrightarrow> is_container v"
  "has_members v \<Longrightarrow> is_container v"
  by (auto simp: is_array_schema_def is_leaf_schema_def has_members_def dest: json_has_container)
     (cases v; simp)

lemma member_weight:
  "is_container v \<or> k \<noteq> [] \<Longrightarrow> Suc (Suc (weight v)) < item_weight (k, v) + n"
  by (auto simp: item_weight_def)

lemma items_weight_less: "items_weight (json_items j) < Suc (Suc (weight j))"
  using items_weight_json [of j] by simp

subsection \<open>The two functions\<close>

text \<open>
  \<open>load_members\<close> and \<open>load_keywords\<close> are the two loops of \<open>fParseAndLoadConfig\<close>, \<open>load_patterns\<close> and
  \<open>load_matches\<close> the two nested loops of \<open>fLoadPatternProperties\<close>. The result has what the functions return,
  and the composite they were given.
\<close>

function (sequential)
    fParseAndLoadConfig :: "regex \<Rightarrow> json \<Rightarrow> json \<Rightarrow> node \<Rightarrow> (bool \<times> node) result"
  and load_members :: "regex \<Rightarrow> json \<Rightarrow> (string \<times> json) list \<Rightarrow> string option \<Rightarrow> node \<Rightarrow>
    (bool \<times> string option \<times> node) result"
  and load_keywords :: "regex \<Rightarrow> json \<Rightarrow> (string \<times> json) list \<Rightarrow> string option \<Rightarrow> node \<Rightarrow> (bool \<times> node) result"
  and load_patterns :: "regex \<Rightarrow> (string \<times> json) list \<Rightarrow> json \<Rightarrow> node \<Rightarrow> (bool \<times> node) result"
  and load_matches :: "regex \<Rightarrow> string \<Rightarrow> json \<Rightarrow> (string \<times> json) list \<Rightarrow> node \<Rightarrow> (bool \<times> node) result"
where
  "fParseAndLoadConfig rx jconfig jschema root =
     rbind (load_members rx jconfig (json_items jschema) None root) (\<lambda>(ok, cur, root1).
       if \<not> ok then Inr (False, root1)
       else load_keywords rx jconfig (json_items jschema) cur root1)"
| "load_members rx jconfig [] cur root = Inr (True, cur, root)"
| "load_members rx jconfig ((k, v) # its) cur root =
     (case json_find jconfig k of
        None \<Rightarrow> load_members rx jconfig its cur root
      | Some c \<Rightarrow>
          if is_array_schema v then
            rbind (array_node k c) (\<lambda>leaf.
              let root1 = Composite_Add leaf root in
              rbind (fParseAndLoadConfig rx c v (target cur root1)) (\<lambda>(ok, n).
                if \<not> ok then Inr (False, cur, put_target cur n root1)
                else load_members rx jconfig its cur (put_target cur n root1)))
          else if is_leaf_schema v then
            rbind (leaf_node k c) (\<lambda>leaf. load_members rx jconfig its cur (Composite_Add leaf root))
          else
            rbind (fParseAndLoadConfig rx c v (Composite k [])) (\<lambda>(ok, n).
              if \<not> ok then Inr (False, Some k, Composite_Add n root)
              else load_members rx jconfig its (Some k) (Composite_Add n root)))"
| "load_keywords rx jconfig [] cur root = Inr (True, root)"
| "load_keywords rx jconfig ((k, v) # its) cur root =
     (if k = PATTERN_PROPERTIES then
        rbind (load_patterns rx (json_items jconfig) v (target cur root)) (\<lambda>(ok, n).
          if \<not> ok then Inr (False, put_target cur n root)
          else load_keywords rx jconfig its cur (put_target cur n root))
      else if k = PROPERTIES then
        rbind (fParseAndLoadConfig rx jconfig v (target cur root)) (\<lambda>(ok, n).
          if \<not> ok then Inr (False, put_target cur n root)
          else load_keywords rx jconfig its cur (put_target cur n root))
      else load_keywords rx jconfig its cur root)"
| "load_patterns rx [] jschema root = Inr (True, root)"
| "load_patterns rx ((k, v) # cs) jschema root =
     rbind (load_matches rx k v (json_items jschema) root) (\<lambda>(ok, root1).
       if \<not> ok then Inr (False, root1) else load_patterns rx cs jschema root1)"
| "load_matches rx k v [] root = Inr (True, root)"
| "load_matches rx k v ((ksch, vsch) # its) root =
     rbind (rx k ksch) (\<lambda>m.
       if \<not> m then load_matches rx k v its root
       else if \<not> has_members vsch then load_matches rx k v its (Composite_Add (Composite k []) root)
       else rbind (fParseAndLoadConfig rx v vsch (Composite k [])) (\<lambda>(ok, n).
              if \<not> ok then Inr (False, Composite_Add n root)
              else load_matches rx k v its (Composite_Add n root)))"
  by pat_completeness auto

termination
proof (relation "measures
    [\<lambda>x. case x of
        Inl (Inl (rx, jc, js, r)) \<Rightarrow> 2 + weight js
      | Inl (Inr (rx, jc, its, cur, r)) \<Rightarrow> items_weight its
      | Inr (Inl (rx, jc, its, cur, r)) \<Rightarrow> items_weight its
      | Inr (Inr (Inl (rx, cs, js, r))) \<Rightarrow> 2 + weight js
      | Inr (Inr (Inr (rx, k, v, its, r))) \<Rightarrow> items_weight its,
     \<lambda>x. case x of Inr (Inr (Inl (rx, cs, js, r))) \<Rightarrow> length cs | _ \<Rightarrow> 0]", goal_cases)
  case 1
  show ?case by simp
qed (auto simp: items_weight_less less_imp_neq intro!: member_weight intro: recursion_into_container)


subsection \<open>What loading keeps\<close>

text \<open>A loader that comes back answers true; the tree stays well formed and keeps its name and kind.\<close>

definition loaded :: "node \<Rightarrow> bool \<times> node \<Rightarrow> bool" where
  "loaded root r \<longleftrightarrow>
     fst r \<and> Name (snd r) = Name root \<and> is_composite (snd r) = is_composite root \<and>
     (wf_node root \<longrightarrow> wf_node (snd r))"

lemma loaded_refl: "loaded root (True, root)"
  by (simp add: loaded_def)

lemma loaded_trans: "loaded root (True, root1) \<Longrightarrow> loaded root1 r \<Longrightarrow> loaded root r"
  by (simp add: loaded_def)

lemma is_composite_Add [simp]: "is_composite (Composite_Add c t) = is_composite t"
  by (cases t) simp_all

lemma loaded_Add: "(wf_node root \<Longrightarrow> wf_node c) \<Longrightarrow> loaded root (True, Composite_Add c root)"
  by (simp add: loaded_def wf_Composite_Add)

lemma loaded_put:
  assumes "loaded (target cur root) (True, n)"
  shows "loaded root (True, put_target cur n root)"
proof (cases cur)
  case None
  with assms show ?thesis by (simp add: target_def put_target_def)
next
  case (Some k)
  have "wf_node root \<Longrightarrow> wf_node (target cur root)"
    by (auto simp: target_def Some dest: wf_child split: option.splits)
  with assms have "wf_node root \<Longrightarrow> wf_node n" by (simp add: loaded_def)
  then show ?thesis unfolding Some put_target_def by (simp add: loaded_Add)
qed

lemma wf_array_node:
  assumes "array_node k c = Inr t"
  shows "wf_node t" and "Name t = k"
proof -
  have "wf_node leaf \<Longrightarrow> wf_node t \<and> Name t = Name leaf" if "array_items js leaf = Inr t" for js leaf
    using that by (induction js leaf rule: array_items.induct) (auto simp: rbind_eq_Inr wf_Composite_Add)
  from this [of "json_elements c" "Composite k []"] assms show "wf_node t" "Name t = k"
    by (simp_all add: array_node_def)
qed

lemma wf_leaf_node: "leaf_node k c = Inr t \<Longrightarrow> wf_node t"
  by (auto simp: leaf_node_def rbind_eq_Inr)


lemma loading_keeps:
  "fParseAndLoadConfig rx jc js root = Inr r \<Longrightarrow> loaded root r"
  "load_members rx jc its cur root = Inr (ok, cur', root') \<Longrightarrow> loaded root (ok, root')"
  "load_keywords rx jc its cur root = Inr r2 \<Longrightarrow> loaded root r2"
  "load_patterns rx cs jsch root = Inr r3 \<Longrightarrow> loaded root r3"
  "load_matches rx k v ms root = Inr r4 \<Longrightarrow> loaded root r4"
proof (induction rx jc js root and rx jc its cur root and rx jc its cur root and rx cs jsch root and rx k v ms root
    arbitrary: r and ok cur' root' and r2 and r3 and r4
    rule: fParseAndLoadConfig_load_members_load_keywords_load_patterns_load_matches.induct)
  case (1 rx jc js root)
  from 1(3) obtain ok cur root1 where m: "load_members rx jc (json_items js) None root = Inr (ok, cur, root1)"
    and r: "(if \<not> ok then Inr (False, root1) else load_keywords rx jc (json_items js) cur root1) = Inr r"
    by (auto simp: rbind_eq_Inr)
  from 1(1) [OF m] have l: "loaded root (True, root1)" and ok unfolding loaded_def by simp_all
  with r have "load_keywords rx jc (json_items js) cur root1 = Inr r" by simp
  with loaded_trans [OF l 1(2) [of True]] show ?case by simp
next
  case (2 rx jc cur root)
  then show ?case by (simp add: loaded_refl)
next
  case (4 rx jc cur root)
  then show ?case by (auto simp: loaded_refl)
next
  case (6 rx js root)
  then show ?case by (auto simp: loaded_refl)
next
  case (8 rx k v root)
  then show ?case by (auto simp: loaded_refl)
next
  case (7 rx k v cs js root)
  from 7(3) obtain ok root1 where m: "load_matches rx k v (json_items js) root = Inr (ok, root1)"
    and r: "(if \<not> ok then Inr (False, root1) else load_patterns rx cs js root1) = Inr r3"
    by (auto simp: rbind_eq_Inr)
  from 7(1) [OF m] have l: "loaded root (True, root1)" and ok by (simp_all add: loaded_def)
  with r loaded_trans [OF l 7(2) [of True]] show ?case by simp
next
  case (9 rx k v ksch vsch its root)
  from 9(5) obtain m where m: "rx k ksch = Inr m" by (auto simp: rbind_eq_Inr)
  show ?case
  proof (cases "m \<and> has_members vsch")
    case False
    have l: "loaded root (True, Composite_Add (Composite k []) root)" by (rule loaded_Add) simp
    show ?thesis
    proof (cases m)
      case True
      with False 9(5) m have "load_matches rx k v its (Composite_Add (Composite k []) root) = Inr r4" by simp
      with True False m show ?thesis using loaded_trans [OF l 9(2) [of True]] by simp
    next
      case False
      with 9(5) m have "load_matches rx k v its root = Inr r4" by simp
      with False m show ?thesis using 9(1) [of False] by simp
    qed
  next
    case True
    with 9(5) m obtain ok n where f: "fParseAndLoadConfig rx v vsch (Composite k []) = Inr (ok, n)"
      and r: "(if \<not> ok then Inr (False, Composite_Add n root)
               else load_matches rx k v its (Composite_Add n root)) = Inr r4"
      by (auto simp: rbind_eq_Inr)
    have n: "loaded (Composite k []) (ok, n)" using 9(3) [of True] True m f by simp
    then have ok and "wf_node n" by (simp_all add: loaded_def)
    then have l: "loaded root (True, Composite_Add n root)" by (intro loaded_Add)
    show ?thesis using 9(4) [of True True] True m r \<open>ok\<close> loaded_trans [OF l] by simp
  qed
next
  case (5 rx jc k v its cur root)
  have rest: "loaded root r2"
    if "loaded (target cur root) (ok, n)"
      and "(if \<not> ok then Inr (False, put_target cur n root)
            else load_keywords rx jc its cur (put_target cur n root)) = Inr r2"
      and "\<And>x. load_keywords rx jc its cur (put_target cur x root) = Inr r2 \<Longrightarrow> loaded (put_target cur x root) r2"
    for ok n
  proof -
    from that(1) have ok by (simp add: loaded_def)
    with that(1) have "loaded root (True, put_target cur n root)" by (simp add: loaded_put)
    with that(2,3) \<open>ok\<close> show ?thesis using loaded_trans by simp
  qed
  consider (patterns) "k = PATTERN_PROPERTIES" | (properties) "k = PROPERTIES" | (other) "k \<noteq> PATTERN_PROPERTIES" "k \<noteq> PROPERTIES"
    by blast
  then show ?case
  proof cases
    case patterns
    with 5(6) obtain ok n where f: "load_patterns rx (json_items jc) v (target cur root) = Inr (ok, n)"
      and r: "(if \<not> ok then Inr (False, put_target cur n root)
               else load_keywords rx jc its cur (put_target cur n root)) = Inr r2"
      by (auto simp: rbind_eq_Inr)
    show ?thesis by (rule rest [OF 5(1) [OF patterns f] r]) (rule 5(2) [OF patterns, of True], simp_all)
  next
    case properties
    with 5(6) obtain ok n where f: "fParseAndLoadConfig rx jc v (target cur root) = Inr (ok, n)"
      and r: "(if \<not> ok then Inr (False, put_target cur n root)
               else load_keywords rx jc its cur (put_target cur n root)) = Inr r2"
      by (auto simp: rbind_eq_Inr)
    from properties have k: "k \<noteq> PATTERN_PROPERTIES" by simp
    show ?thesis by (rule rest [OF 5(3) [OF k properties f] r]) (rule 5(4) [OF k properties, of True], simp_all)
  next
    case other
    with 5(6) show ?thesis using 5(5) by simp
  qed
next
  case (3 rx jc k v its cur root)
  show ?case
  proof (cases "json_find jc k")
    case None
    with 3 show ?thesis by simp
  next
    case (Some c)
    consider (array) "is_array_schema v" | (leaf) "\<not> is_array_schema v" "is_leaf_schema v"
      | (composite) "\<not> is_array_schema v" "\<not> is_leaf_schema v"
      by blast
    then show ?thesis
    proof cases
      case array
      with 3(7) Some obtain t ok1 n where t: "array_node k c = Inr t"
        and f: "fParseAndLoadConfig rx c v (target cur (Composite_Add t root)) = Inr (ok1, n)"
        and r: "(if \<not> ok1 then Inr (False, cur, put_target cur n (Composite_Add t root))
                 else load_members rx jc its cur (put_target cur n (Composite_Add t root))) = Inr (ok, cur', root')"
        by (auto simp: rbind_eq_Inr Let_def)
      have l: "loaded root (True, Composite_Add t root)" using wf_array_node(1) [OF t] by (rule loaded_Add)
      have n: "loaded (target cur (Composite_Add t root)) (ok1, n)" using 3(2) [OF Some array refl f] .
      then have ok1 by (simp add: loaded_def)
      with n loaded_put have "loaded (Composite_Add t root) (True, put_target cur n (Composite_Add t root))" by simp
      with l have l2: "loaded root (True, put_target cur n (Composite_Add t root))" by (rule loaded_trans)
      have "loaded (put_target cur n (Composite_Add t root)) (ok, root')"
        using 3(3) [OF Some array refl, of True] r \<open>ok1\<close> by simp
      with l2 show ?thesis by (rule loaded_trans)
    next
      case leaf
      with 3(7) Some obtain t where t: "leaf_node k c = Inr t"
        and r: "load_members rx jc its cur (Composite_Add t root) = Inr (ok, cur', root')"
        by (auto simp: rbind_eq_Inr)
      have "loaded root (True, Composite_Add t root)" using wf_leaf_node [OF t] by (rule loaded_Add)
      then show ?thesis using 3(4) [OF Some leaf r] by (rule loaded_trans)
    next
      case composite
      with 3(7) Some obtain ok1 n where f: "fParseAndLoadConfig rx c v (Composite k []) = Inr (ok1, n)"
        and r: "(if \<not> ok1 then Inr (False, Some k, Composite_Add n root)
                 else load_members rx jc its (Some k) (Composite_Add n root)) = Inr (ok, cur', root')"
        by (auto simp: rbind_eq_Inr)
      have n: "loaded (Composite k []) (ok1, n)" using 3(5) [OF Some composite f] .
      then have ok1 and "wf_node n" by (simp_all add: loaded_def)
      then have l: "loaded root (True, Composite_Add n root)" by (intro loaded_Add)
      have "loaded (Composite_Add n root) (ok, root')"
        using 3(6) [OF Some composite, of True] r \<open>ok1\<close> by simp
      with l show ?thesis by (rule loaded_trans)
    qed
  qed
qed


subsection \<open>Which children are loaded\<close>

declare fParseAndLoadConfig.simps [simp del]

text \<open>
  The members a schema names, for a document of the shape its arrays ask for: arrays of the schema have
  no members of their own, and the document has an array there. The schema has no member called like
  the keywords that \<open>load_keywords\<close> looks for.
\<close>

definition child_names :: "node \<Rightarrow> string set" where
  "child_names t = fst ` set (children t)"

definition plain_schema :: "json \<Rightarrow> (string \<times> json) list \<Rightarrow> bool" where
  "plain_schema jc its \<longleftrightarrow>
     (\<forall>(k, v) \<in> set its. is_array_schema v \<longrightarrow>
        \<not> has_members v \<and> (case json_find jc k of None \<Rightarrow> True | Some c \<Rightarrow> is_JArr c))"

lemma child_names_Add [simp]: "is_composite t \<Longrightarrow> child_names (Composite_Add c t) = insert (Name c) (child_names t)"
  by (cases t) (simp_all add: child_names_def)

lemma child_names_find: "FindNode k t \<noteq> None \<longleftrightarrow> is_composite t \<and> k \<in> child_names t"
  by (cases t) (auto simp: child_names_def sm_find_None)

lemma load_members_no_document: "(\<And>k. json_find jc k = None) \<Longrightarrow> load_members rx jc its cur root = Inr (True, cur, root)"
  by (induction its) auto

lemma load_keywords_none:
  "PROPERTIES \<notin> fst ` set its \<Longrightarrow> PATTERN_PROPERTIES \<notin> fst ` set its \<Longrightarrow>
     load_keywords rx jc its cur root = Inr (True, root)"
  by (induction its) auto

lemma no_member_items: "\<not> has_members v \<Longrightarrow> PROPERTIES \<notin> fst ` set (json_items v) \<and> PATTERN_PROPERTIES \<notin> fst ` set (json_items v)"
proof (cases v)
  case (JArr xs)
  have "CHR ''p'' \<noteq> char_of (48 + n)" if "n < 10" for n :: nat
  proof
    assume "CHR ''p'' = char_of (48 + n)"
    then have "(of_char (CHR ''p'') :: nat) = of_char (char_of (48 + n) :: char)" by (rule arg_cong)
    with that show False by simp
  qed
  then have "CHR ''p'' \<notin> set (digits n)" for n
    by (induction n rule: digits.induct) (subst digits.simps, auto)
  then have "digits n \<noteq> PROPERTIES" "digits n \<noteq> PATTERN_PROPERTIES" for n
    by (metis list.set_intros(1))+
  with JArr show ?thesis by (auto dest: sym)
qed (auto simp: has_members_def json_has_def sm_find_None)

lemma load_array_schema: "\<not> has_members v \<Longrightarrow> is_JArr c \<Longrightarrow> fParseAndLoadConfig rx c v t = Inr (True, t)"
  using no_member_items [of v] by (cases c) (simp_all add: fParseAndLoadConfig.simps load_members_no_document load_keywords_none)


lemma put_same:
  assumes "wf_node t" and "is_composite t" and "\<And>k. cur = Some k \<Longrightarrow> k \<in> child_names t"
  shows "put_target cur (target cur t) t = t"
proof (cases cur)
  case None
  then show ?thesis by (simp add: put_target_def target_def)
next
  case (Some k)
  with assms child_names_find [of k t] obtain d where d: "FindNode k t = Some d" by auto
  with wf_child [OF assms(1) d] assms(1) Some show ?thesis
    by (cases t) (simp_all add: put_target_def target_def sm_assign_same)
qed

lemma load_members_children:
  assumes "load_members rx jc its cur root = Inr (ok, cur', root')" and "plain_schema jc its"
    and "is_composite root" and "wf_node root" and "\<And>k. cur = Some k \<Longrightarrow> k \<in> child_names root"
  shows "child_names root' = child_names root \<union> {k \<in> fst ` set its. json_has jc k}"
  using assms
proof (induction its arbitrary: cur root)
  case Nil
  then show ?case by simp
next
  case (Cons p its)
  obtain k v where p: "p = (k, v)" by (cases p)
  from Cons.prems(2) have plain: "plain_schema jc its" by (simp add: plain_schema_def)
  note IH = Cons.IH [OF _ plain]
  show ?case
  proof (cases "json_find jc k")
    case None
    with Cons.prems p IH show ?thesis by (auto simp: json_has_def)
  next
    case (Some c)
    have step: ?thesis
      if l: "load_members rx jc its cur1 (Composite_Add t root) = Inr (ok, cur', root')"
        and t: "Name t = k" "wf_node t" and cur1: "cur1 = cur \<or> cur1 = Some k" for cur1 t
    proof -
      have "child_names root' = child_names (Composite_Add t root) \<union> {k \<in> fst ` set its. json_has jc k}"
        by (rule IH [OF l]) (use Cons.prems t cur1 in \<open>auto simp: wf_Composite_Add\<close>)
      with Cons.prems t p Some show ?thesis by (auto simp: json_has_def)
    qed
    consider (array) "is_array_schema v" | (leaf) "\<not> is_array_schema v" "is_leaf_schema v"
      | (composite) "\<not> is_array_schema v" "\<not> is_leaf_schema v"
      by blast
    then show ?thesis
    proof cases
      case array
      with Cons.prems(2) p Some have v: "\<not> has_members v" "is_JArr c" by (auto simp: plain_schema_def)
      from array Cons.prems(1) p Some load_array_schema [OF v] obtain t where t: "array_node k c = Inr t"
        and l: "load_members rx jc its cur (put_target cur (target cur (Composite_Add t root)) (Composite_Add t root))
                  = Inr (ok, cur', root')"
        by (auto simp: rbind_eq_Inr Let_def)
      note nt = wf_array_node(2,1) [OF t]
      have "put_target cur (target cur (Composite_Add t root)) (Composite_Add t root) = Composite_Add t root"
        by (rule put_same) (use Cons.prems nt in \<open>auto simp: wf_Composite_Add\<close>)
      with step l nt show ?thesis by simp
    next
      case leaf
      with Cons.prems(1) p Some obtain t where "leaf_node k c = Inr t"
        and "load_members rx jc its cur (Composite_Add t root) = Inr (ok, cur', root')"
        by (auto simp: rbind_eq_Inr)
      then show ?thesis by (intro step) (auto simp: leaf_node_def rbind_eq_Inr)
    next
      case composite
      with Cons.prems(1) p Some obtain ok1 n where f: "fParseAndLoadConfig rx c v (Composite k []) = Inr (ok1, n)"
        and r: "(if \<not> ok1 then Inr (False, Some k, Composite_Add n root)
                 else load_members rx jc its (Some k) (Composite_Add n root)) = Inr (ok, cur', root')"
        by (auto simp: rbind_eq_Inr)
      from loading_keeps(1) [OF f] have "ok1" "Name n = k" "wf_node n" by (simp_all add: loaded_def)
      with r show ?thesis by (intro step) auto
    qed
  qed
qed


subsection \<open>Properties\<close>

definition small_schema :: json where
  "small_schema = JObj
     [(''host'', JObj [(''properties'', JObj [(''name'', JObj [(''type'', JStr ''string'')])]), (''type'', JStr ''object'')]),
      (''mtu'', JObj [(''type'', JStr ''string'')])]"

definition small_document :: json where
  "small_document = JObj [(''host'', JObj [(''name'', JStr ''r1'')]), (''other'', JStr ''x'')]"

definition small_tree :: node where
  "small_tree = Composite ''/'' [(''host'', Composite ''host''
     [(''name'', Leaf ''name'' \<lparr>vtype = STRING, holder = Some (HString ''r1'')\<rparr>)])]"

lemma small_loading:
  "fParseAndLoadConfig (\<lambda>text pattern. Inr (text = pattern)) small_document small_schema (Composite ''/'' []) =
     Inr (True, small_tree)"
  by code_simp

text \<open>Loading a document along a schema never answers false: it gives a tree or raises an exception, so the branches
  of the callers for a failed load are never taken. The tree keeps its name and stays well formed.\<close>

theorem loading_answers_true_or_raises:
  assumes "fParseAndLoadConfig rx jconfig jschema root = Inr (ok, t)" and "wf_node root"
  shows "ok \<and> Name t = Name root \<and> wf_node t"
  using loading_keeps(1) [OF assms(1)] assms(2) by (simp add: loaded_def)

theorem loading_answers_true_or_raises_witness:
  "Name small_tree = ''/'' \<and> wf_node small_tree"
  using loading_answers_true_or_raises [OF small_loading] by simp



end
