(* ===== verification/Topo.thy ===== *)
theory Topo
  imports Std_Map Std_String
begin

section \<open>Ordering paths by their dependencies\<close>

text \<open>
  \<open>src/lib/topo_sort.cpp\<close>. \<open>run_update_op\<close> takes a map from paths to the paths they depend on,
  unfolds a graph from every path (\<open>makeGraphNode\<close>), resolves the graphs depth first
  (\<open>Graph::depResolve\<close>) and merges the resolved names into one list in which a path stands before
  the longer paths it occurs in. The recursion of \<open>makeGraphNode\<close> has no bound in the code; the
  model gives it a stack depth, and \<open>None\<close> is a recursion that is deeper.
\<close>

type_synonym adjacency = "(string, string list) smap"

datatype gnode = GNode (gname: string) (edges: "gnode list")

definition deps :: "adjacency \<Rightarrow> string \<Rightarrow> string list" where
  "deps adj n = (case sm_find adj n of None \<Rightarrow> [] | Some ds \<Rightarrow> ds)"

subsection \<open>makeGraphNode\<close>

text \<open>
  The loop over the edges of \<open>node\<close>: an edge whose target has an edge back to the node is an error;
  otherwise the target is unfolded, and the first error ends the loop.
\<close>

fun graph_edges ::
  "(string \<Rightarrow> (string + gnode) option) \<Rightarrow> adjacency \<Rightarrow> string \<Rightarrow> string list \<Rightarrow>
     (string + gnode list) option" where
  "graph_edges rec adj node [] = Some (Inr [])"
| "graph_edges rec adj node (edge # es) =
     (if sm_contains adj edge \<and> node \<in> set (deps adj edge)
      then Some (Inl (''Detected cyclic dependency: '' @ edge @ '' -> '' @ node))
      else case rec edge of
             None \<Rightarrow> None
           | Some (Inl err) \<Rightarrow> Some (Inl err)
           | Some (Inr g) \<Rightarrow>
               (case graph_edges rec adj node es of
                  None \<Rightarrow> None
                | Some (Inl err) \<Rightarrow> Some (Inl err)
                | Some (Inr gs) \<Rightarrow> Some (Inr (g # gs))))"

fun makeGraphNode :: "nat \<Rightarrow> adjacency \<Rightarrow> string \<Rightarrow> (string + gnode) option" where
  "makeGraphNode 0 adj node = None"
| "makeGraphNode (Suc depth) adj node =
     (case sm_find adj node of
        None \<Rightarrow> Some (Inr (GNode node []))
      | Some ds \<Rightarrow>
          (case graph_edges (makeGraphNode depth adj) adj node ds of
             None \<Rightarrow> None
           | Some (Inl err) \<Rightarrow> Some (Inl err)
           | Some (Inr gs) \<Rightarrow> Some (Inr (GNode node gs))))"

subsection \<open>depResolve\<close>

text \<open>
  The lists \<open>resolved\<close> and \<open>unresolved\<close> hold graph nodes of which only the names are read. The
  search before an edge is followed looks for the node itself among the resolved ones, not for the
  edge.
\<close>

fun depResolve :: "gnode \<Rightarrow> string list \<Rightarrow> string list \<Rightarrow> string + string list \<times> string list"
  and resolve_edges :: "string \<Rightarrow> gnode list \<Rightarrow> string list \<Rightarrow> string list \<Rightarrow>
    string + string list \<times> string list" where
  "depResolve (GNode node es) resolved unresolved =
     (case resolve_edges node es resolved (unresolved @ [node]) of
        Inl err \<Rightarrow> Inl err
      | Inr (resolved', unresolved') \<Rightarrow>
          Inr (resolved' @ [node], filter (\<lambda>n. n \<noteq> node) unresolved'))"
| "resolve_edges node [] resolved unresolved = Inr (resolved, unresolved)"
| "resolve_edges node (edge # es) resolved unresolved =
     (if node \<in> set resolved then resolve_edges node es resolved unresolved
      else if gname edge \<in> set unresolved
      then Inl (''Circular reference detected: '' @ node @ '' -> '' @ gname edge)
      else case depResolve edge resolved unresolved of
             Inl err \<Rightarrow> Inl err
           | Inr (resolved', unresolved') \<Rightarrow> resolve_edges node es resolved' unresolved')"

subsection \<open>run_update_op\<close>

definition add_command :: "adjacency \<Rightarrow> string \<times> string list \<Rightarrow> adjacency" where
  "add_command adj cmd =
     (case cmd of (component, depends) \<Rightarrow>
        if depends = [] then (if sm_contains adj component then adj else sm_emplace component [] adj)
        else foldl (\<lambda>adj dep.
               case sm_find adj component of
                 Some ds \<Rightarrow> sm_assign component (ss_insert dep ds) adj
               | None \<Rightarrow> sm_assign component (ss_insert dep []) (sm_emplace component [] adj)) adj depends)"

definition build_adjacency :: "adjacency \<Rightarrow> adjacency" where
  "build_adjacency cmds = foldl add_command [] cmds"

fun make_graphs :: "nat \<Rightarrow> adjacency \<Rightarrow> string list \<Rightarrow> gnode list \<Rightarrow> (string + gnode list) option" where
  "make_graphs depth adj [] graph_nodes = Some (Inr graph_nodes)"
| "make_graphs depth adj (n # ns) graph_nodes =
     (case makeGraphNode depth adj n of
        None \<Rightarrow> None
      | Some (Inl err) \<Rightarrow> Some (Inl err)
      | Some (Inr g) \<Rightarrow> make_graphs depth adj ns (g # graph_nodes))"

fun resolve_graphs :: "gnode list \<Rightarrow> string list \<Rightarrow> string list \<Rightarrow> string + string list" where
  "resolve_graphs [] resolved unresolved = Inr resolved"
| "resolve_graphs (g # gs) resolved unresolved =
     (case depResolve g resolved unresolved of
        Inl err \<Rightarrow> Inl err
      | Inr (resolved', unresolved') \<Rightarrow> resolve_graphs gs resolved' unresolved')"

text \<open>\<open>longer x r\<close>: the path \<open>r\<close> occurs in the longer path \<open>x\<close>.\<close>

definition longer :: "string \<Rightarrow> string \<Rightarrow> bool" where
  "longer x r \<longleftrightarrow> contains x r \<and> length r < length x"

fun place :: "string \<Rightarrow> string list \<Rightarrow> string list" where
  "place r [] = [r]"
| "place r (x # xs) = (if longer x r then r # x # xs else x # place r xs)"

fun merge_resolved :: "adjacency \<Rightarrow> string list \<Rightarrow> string list \<Rightarrow> string list" where
  "merge_resolved adj [] ordered_cmds = ordered_cmds"
| "merge_resolved adj (r # rs) ordered_cmds =
     (if sm_contains adj r then merge_resolved (sm_erase r adj) rs (place r ordered_cmds)
      else merge_resolved adj rs ordered_cmds)"

definition run_update_op ::
  "nat \<Rightarrow> adjacency option \<Rightarrow> string list \<Rightarrow> (string option \<times> string list) option" where
  "run_update_op depth cmds ordered_cmds =
     (case cmds of
        None \<Rightarrow> Some (Some ''Not pass data!'', ordered_cmds)
      | Some cs \<Rightarrow>
          let adj = build_adjacency cs in
          (case make_graphs depth adj (map fst adj) [] of
             None \<Rightarrow> None
           | Some (Inl err) \<Rightarrow> Some (Some err, ordered_cmds)
           | Some (Inr graph_nodes) \<Rightarrow>
               (case resolve_graphs graph_nodes [] [] of
                  Inl err \<Rightarrow> Some (Some err, ordered_cmds)
                | Inr resolved \<Rightarrow> Some (None, merge_resolved adj resolved ordered_cmds))))"

subsection \<open>The adjacency list is the given map\<close>

definition wf_commands :: "adjacency \<Rightarrow> bool" where
  "wf_commands cmds \<longleftrightarrow> sm_sorted cmds \<and> (\<forall>(c, ds) \<in> set cmds. ss_sorted ds)"

lemma add_command_deps:
  assumes "sm_sorted adj"
  shows "foldl (\<lambda>adj dep.
      case sm_find adj component of
        Some ds \<Rightarrow> sm_assign component (ss_insert dep ds) adj
      | None \<Rightarrow> sm_assign component (ss_insert dep []) (sm_emplace component [] adj)) (sm_assign component s adj) ds =
    sm_assign component (fold ss_insert ds s) adj"
proof (induction ds arbitrary: s)
  case Nil
  then show ?case by simp
next
  case (Cons d ds)
  have "sm_assign component t (sm_assign component s adj) = sm_assign component t adj" for t s
    by (rule smap_eqI) (use assms in \<open>auto simp: fun_eq_iff\<close>)
  with Cons show ?case by simp
qed

lemma add_command_new:
  assumes "sm_sorted adj" and "\<not> sm_contains adj component" and "ss_sorted ds"
  shows "add_command adj (component, ds) = sm_assign component ds adj"
proof (cases ds)
  case Nil
  with assms show ?thesis by (simp add: add_command_def sm_emplace_def)
next
  case (Cons d rest)
  have "sm_assign component t (sm_assign component s adj) = sm_assign component t adj" for t s
    by (rule smap_eqI) (use assms in \<open>auto simp: fun_eq_iff\<close>)
  moreover have "fold ss_insert rest [d] = ds"
    using fold_ss_insert_id [OF assms(3)] Cons by simp
  ultimately show ?thesis
    using assms(1,2) Cons
    by (simp add: add_command_def sm_emplace_def sm_contains_def add_command_deps)
qed

lemma build_adjacency_append:
  assumes "wf_commands (m @ cmds)"
  shows "foldl add_command m cmds = m @ cmds"
  using assms
proof (induction cmds arbitrary: m)
  case Nil
  then show ?case by simp
next
  case (Cons cmd cmds)
  obtain c ds where cmd: "cmd = (c, ds)" by fastforce
  have "sm_sorted m" "\<forall>a \<in> fst ` set m. a < c" "ss_sorted ds"
    using Cons.prems cmd
    by (auto simp: wf_commands_def sm_sorted_def sorted_wrt_append)
  then have "add_command m cmd = m @ [cmd]"
    using cmd by (subst cmd, subst add_command_new) (auto simp: sm_contains_keys sm_assign_snoc)
  with Cons show ?case by simp
qed

lemma build_adjacency_id: "wf_commands cmds \<Longrightarrow> build_adjacency cmds = cmds"
  using build_adjacency_append [of "[]" cmds] by (simp add: build_adjacency_def)

subsection \<open>The unfolded graphs\<close>

text \<open>
  A graph node agrees with the adjacency list when its edges are the dependencies of its name, all
  the way down. Such a tree is determined by its name; as a tree is never part of itself, no name
  occurs twice on a branch.
\<close>

fun unfolds :: "adjacency \<Rightarrow> gnode \<Rightarrow> bool" where
  "unfolds adj (GNode n gs) \<longleftrightarrow> map gname gs = deps adj n \<and> (\<forall>g \<in> set gs. unfolds adj g)"

fun gnames :: "gnode \<Rightarrow> string set" where
  "gnames (GNode n gs) = insert n (\<Union>g \<in> set gs. gnames g)"

lemma gname_in_gnames [simp]: "gname g \<in> gnames g"
  by (cases g) simp

lemma unfolds_unique: "unfolds adj g \<Longrightarrow> unfolds adj g' \<Longrightarrow> gname g = gname g' \<Longrightarrow> g = g'"
proof (induction g arbitrary: g')
  case (GNode n gs)
  obtain gs' where g': "g' = GNode n gs'" using GNode.prems by (cases g') auto
  have names: "map gname gs = map gname gs'" using GNode.prems g' by simp
  have "gs = gs'"
  proof (rule nth_equalityI)
    show len: "length gs = length gs'" using names by (metis length_map)
    fix i assume i: "i < length gs"
    with names len have "gname (gs ! i) = gname (gs' ! i)" by (metis nth_map)
    with GNode g' i len show "gs ! i = gs' ! i" by simp
  qed
  with g' show ?case by simp
qed

lemma gnames_subtree:
  "unfolds adj g \<Longrightarrow> n \<in> gnames g \<Longrightarrow> \<exists>t. unfolds adj t \<and> gname t = n \<and> size t \<le> size g"
proof (induction g)
  case (GNode m gs)
  show ?case
  proof (cases "n = m")
    case True
    with GNode.prems show ?thesis by (intro exI [of _ "GNode m gs"]) simp
  next
    case False
    with GNode.prems obtain g where g: "g \<in> set gs" "n \<in> gnames g" by auto
    with GNode obtain t where t: "unfolds adj t" "gname t = n" "size t \<le> size g" by auto
    from g have "size g < size (GNode m gs)" by (auto dest: size_list_estimation' [of _ _ _ size])
    with t show ?thesis by (intro exI [of _ t]) simp
  qed
qed

lemma gnames_acyclic:
  assumes "unfolds adj (GNode n gs)" and "g \<in> set gs"
  shows "n \<notin> gnames g"
proof
  assume "n \<in> gnames g"
  moreover have "unfolds adj g" using assms by simp
  ultimately obtain t where t: "unfolds adj t" "gname t = n" "size t \<le> size g"
    using gnames_subtree by blast
  then have "t = GNode n gs" using assms(1) by (intro unfolds_unique [of adj]) simp_all
  moreover have "size g < size (GNode n gs)"
    using assms(2) by (auto dest: size_list_estimation' [of _ _ _ size])
  ultimately show False using t(3) by simp
qed

lemma graph_edges_Inr:
  assumes "graph_edges rec adj n es = Some (Inr gs)"
    and "\<And>e g. rec e = Some (Inr g) \<Longrightarrow> gname g = e \<and> unfolds adj g"
  shows "map gname gs = es \<and> (\<forall>g \<in> set gs. unfolds adj g)"
  using assms
  by (induction rec adj n es arbitrary: gs rule: graph_edges.induct)
     (fastforce split: if_splits option.splits sum.splits)+

lemma makeGraphNode_unfolds:
  "makeGraphNode depth adj n = Some (Inr g) \<Longrightarrow> gname g = n \<and> unfolds adj g"
proof (induction depth arbitrary: n g)
  case 0
  then show ?case by simp
next
  case (Suc depth)
  show ?case
  proof (cases "sm_find adj n")
    case None
    with Suc.prems show ?thesis by (auto simp: deps_def)
  next
    case (Some ds)
    with Suc.prems obtain gs where "graph_edges (makeGraphNode depth adj) adj n ds = Some (Inr gs)"
      and g: "g = GNode n gs"
      by (auto split: option.splits sum.splits)
    from graph_edges_Inr [OF this(1) Suc.IH] Some g show ?thesis
      by (simp add: deps_def)
  qed
qed

lemma make_graphs_unfolds:
  assumes "make_graphs depth adj ns acc = Some (Inr gs)"
    and "\<forall>g \<in> set acc. unfolds adj g"
  shows "(\<forall>g \<in> set gs. unfolds adj g) \<and> gname ` set gs = set ns \<union> gname ` set acc"
  using assms
proof (induction depth adj ns acc rule: make_graphs.induct)
  case (1 depth adj acc)
  then show ?case by simp
next
  case (2 depth adj n ns acc)
  from "2.prems"(1) obtain g where g: "makeGraphNode depth adj n = Some (Inr g)"
    and rest: "make_graphs depth adj ns (g # acc) = Some (Inr gs)"
    by (auto split: option.splits sum.splits)
  from makeGraphNode_unfolds [OF g] have "gname g = n" "unfolds adj g" by simp_all
  with "2.IH" [OF g refl rest] "2.prems"(2) show ?case by auto
qed

subsection \<open>Resolving keeps the dependency order\<close>

text \<open>
  A list is closed under dependencies when everything a name depends on stands before each of its
  occurrences.
\<close>

definition dep_closed :: "adjacency \<Rightarrow> string list \<Rightarrow> bool" where
  "dep_closed adj xs \<longleftrightarrow> (\<forall>ys n zs. xs = ys @ n # zs \<longrightarrow> set (deps adj n) \<subseteq> set ys)"

lemma dep_closed_Nil [simp]: "dep_closed adj []"
  by (simp add: dep_closed_def)

lemma dep_closed_snoc:
  "dep_closed adj (xs @ [n]) \<longleftrightarrow> dep_closed adj xs \<and> set (deps adj n) \<subseteq> set xs"
proof
  assume l: "dep_closed adj (xs @ [n])"
  have "dep_closed adj xs"
    unfolding dep_closed_def
  proof (intro allI impI)
    fix ys m zs assume "xs = ys @ m # zs"
    then have "xs @ [n] = ys @ m # zs @ [n]" by simp
    with l show "set (deps adj m) \<subseteq> set ys" unfolding dep_closed_def by blast
  qed
  with l show "dep_closed adj xs \<and> set (deps adj n) \<subseteq> set xs" by (auto simp: dep_closed_def)
next
  assume r: "dep_closed adj xs \<and> set (deps adj n) \<subseteq> set xs"
  show "dep_closed adj (xs @ [n])"
    unfolding dep_closed_def
  proof (intro allI impI)
    fix ys m zs assume eq: "xs @ [n] = ys @ m # zs"
    show "set (deps adj m) \<subseteq> set ys"
    proof (cases zs rule: rev_cases)
      case Nil
      with eq r show ?thesis by simp
    next
      case (snoc zs' z)
      with eq have "xs = ys @ m # zs'" by simp
      with r show ?thesis unfolding dep_closed_def by blast
    qed
  qed
qed

lemma dep_closed_member: "dep_closed adj xs \<Longrightarrow> n \<in> set xs \<Longrightarrow> set (deps adj n) \<subseteq> set xs"
  unfolding dep_closed_def by (metis Un_iff in_set_conv_decomp set_append subset_iff)

lemma depResolve_ok:
  "unfolds adj g \<Longrightarrow> dep_closed adj res \<Longrightarrow> gnames g \<inter> set unres = {} \<Longrightarrow>
     \<exists>res'. depResolve g res unres = Inr (res', unres) \<and> dep_closed adj res' \<and>
       insert (gname g) (set res) \<subseteq> set res'"
  "\<forall>g \<in> set gs. unfolds adj g \<and> gnames g \<inter> set unres = {} \<Longrightarrow> dep_closed adj res \<Longrightarrow>
     \<exists>res'. resolve_edges n gs res unres = Inr (res', unres) \<and> dep_closed adj res' \<and>
       set res \<subseteq> set res' \<and> (n \<in> set res' \<or> gname ` set gs \<subseteq> set res')"
proof (induction g res unres and n gs res unres rule: depResolve_resolve_edges.induct)
  case (1 n gs res unres)
  have "\<forall>g \<in> set gs. unfolds adj g \<and> gnames g \<inter> set (unres @ [n]) = {}"
    using 1(2,4) gnames_acyclic [OF 1(2)] by auto
  from 1(1) [OF this 1(3)] obtain res' where
    res': "resolve_edges n gs res (unres @ [n]) = Inr (res', unres @ [n])" "dep_closed adj res'"
      "set res \<subseteq> set res'" "n \<in> set res' \<or> gname ` set gs \<subseteq> set res'" by blast
  have "set (map gname gs) = set (deps adj n)" using 1(2) by (simp del: set_map)
  then have "set (deps adj n) \<subseteq> set res'"
    using res'(4) dep_closed_member [OF res'(2), of n] by auto
  moreover have "filter (\<lambda>m. m \<noteq> n) (unres @ [n]) = unres" using 1(4) by (auto simp: filter_id_conv)
  ultimately show ?case using res' by (auto simp: dep_closed_snoc)
next
  case (2 n res unres)
  then show ?case by simp
next
  case (3 n g gs res unres)
  show ?case
  proof (cases "n \<in> set res")
    case True
    with 3(1,4,5) show ?thesis by fastforce
  next
    case False
    have "gname g \<notin> set unres"
      using 3(4) by (metis IntI empty_iff gname_in_gnames list.set_intros(1))
    with 3(2,4,5) False obtain res1 where res1: "depResolve g res unres = Inr (res1, unres)"
      "dep_closed adj res1" "insert (gname g) (set res) \<subseteq> set res1" by auto
    from 3(3) [OF False _ this(1)] 3(4) this False \<open>gname g \<notin> set unres\<close>
    obtain res2 where "resolve_edges n gs res1 unres = Inr (res2, unres)" "dep_closed adj res2"
      "set res1 \<subseteq> set res2" "n \<in> set res2 \<or> gname ` set gs \<subseteq> set res2" by fastforce
    with res1 False \<open>gname g \<notin> set unres\<close> show ?thesis by auto
  qed
qed

lemma resolve_graphs_ok:
  "\<forall>g \<in> set gs. unfolds adj g \<Longrightarrow> dep_closed adj res \<Longrightarrow>
     \<exists>res'. resolve_graphs gs res [] = Inr res' \<and> dep_closed adj res' \<and>
       gname ` set gs \<union> set res \<subseteq> set res'"
proof (induction gs arbitrary: res)
  case Nil
  then show ?case by simp
next
  case (Cons g gs)
  then obtain res1 where "depResolve g res [] = Inr (res1, [])" "dep_closed adj res1"
    "insert (gname g) (set res) \<subseteq> set res1"
    using depResolve_ok(1) [of adj g res "[]"] by auto
  with Cons.IH [of res1] Cons.prems show ?case by fastforce
qed

subsection \<open>Merging keeps parents in front\<close>

lemma longer_trans: "longer x y \<Longrightarrow> longer y z \<Longrightarrow> longer x z"
  by (auto simp: longer_def intro: contains_trans)

lemma longer_asym: "longer x y \<Longrightarrow> \<not> longer y x"
  by (auto simp: longer_def)

definition parents_first :: "string list \<Rightarrow> bool" where
  "parents_first xs \<longleftrightarrow> sorted_wrt (\<lambda>x y. \<not> longer x y) xs"

lemma set_place [simp]: "set (place r xs) = insert r (set xs)"
  by (induction r xs rule: place.induct) auto

lemma distinct_place [simp]: "distinct (place r xs) \<longleftrightarrow> distinct xs \<and> r \<notin> set xs"
  by (induction r xs rule: place.induct) auto

lemma parents_first_place: "parents_first xs \<Longrightarrow> parents_first (place r xs)"
proof (induction r xs rule: place.induct)
  case (1 r)
  then show ?case by (simp add: parents_first_def)
next
  case (2 r x xs)
  show ?case
  proof (cases "longer x r")
    case True
    with 2 longer_trans [of x r] longer_asym show ?thesis by (auto simp: parents_first_def)
  next
    case False
    with 2 show ?thesis by (auto simp: parents_first_def)
  qed
qed

lemma merge_resolved_set:
  "sm_sorted adj \<Longrightarrow> set (merge_resolved adj rs xs) = set xs \<union> (set rs \<inter> fst ` set adj)"
proof (induction adj rs xs rule: merge_resolved.induct)
  case (2 adj r rs xs)
  then show ?case by (auto simp: sm_contains_keys)
qed simp

lemma merge_resolved_distinct:
  "sm_sorted adj \<Longrightarrow> distinct xs \<Longrightarrow> set xs \<inter> fst ` set adj = {} \<Longrightarrow>
     distinct (merge_resolved adj rs xs)"
proof (induction adj rs xs rule: merge_resolved.induct)
  case (2 adj r rs xs)
  then show ?case by (auto simp: sm_contains_keys)
qed simp

lemma merge_resolved_parents_first: "parents_first xs \<Longrightarrow> parents_first (merge_resolved adj rs xs)"
  by (induction adj rs xs rule: merge_resolved.induct) (auto intro: parents_first_place)

subsection \<open>When the merge keeps the dependency order\<close>

text \<open>
  A path is put in front of a longer one that is already placed. Its dependencies stay in front of
  it when a longer path depends on everything the shorter one depends on.
\<close>

definition inherits_deps :: "adjacency \<Rightarrow> bool" where
  "inherits_deps adj \<longleftrightarrow>
     (\<forall>x \<in> fst ` set adj. \<forall>r \<in> fst ` set adj. longer x r \<longrightarrow> set (deps adj r) \<subseteq> set (deps adj x))"

definition deps_first :: "adjacency \<Rightarrow> string list \<Rightarrow> bool" where
  "deps_first adj xs \<longleftrightarrow>
     (\<forall>n. \<forall>d \<in> set (deps adj n). sm_contains adj d \<longrightarrow> before xs d n)"

lemma place_split: "\<exists>us vs. xs = us @ vs \<and> place r xs = us @ r # vs \<and> (vs = [] \<or> longer (hd vs) r)"
proof (induction r xs rule: place.induct)
  case (1 r)
  then show ?case by simp
next
  case (2 r x xs)
  show ?case
  proof (cases "longer x r")
    case True
    then show ?thesis by (intro exI [of _ "[]"] exI [of _ "x # xs"]) simp
  next
    case False
    with 2 obtain us vs where "xs = us @ vs" "place r xs = us @ r # vs" "vs = [] \<or> longer (hd vs) r"
      by blast
    with False show ?thesis by (intro exI [of _ "x # us"] exI [of _ vs]) simp
  qed
qed

lemma before_insert_other: "n \<noteq> r \<Longrightarrow> before (us @ vs) d n \<Longrightarrow> before (us @ r # vs) d n"
proof (rule beforeI)
  fix ys zs
  assume n: "n \<noteq> r" and b: "before (us @ vs) d n" and eq: "us @ r # vs = ys @ n # zs"
  then consider ws where "us = ys @ n # ws" | ws where "ys = us @ r # ws" "vs = ws @ n # zs"
    by (auto simp: append_eq_append_conv2 Cons_eq_append_conv append_eq_Cons_conv)
  then show "d \<in> set ys"
  proof cases
    case 1
    with b have "before (ys @ n # ws @ vs) d n" by simp
    then show ?thesis by (rule beforeD)
  next
    case 2
    with b have "before ((us @ ws) @ n # zs) d n" by simp
    then have "d \<in> set (us @ ws)" by (rule beforeD)
    with 2 show ?thesis by auto
  qed
qed

lemma deps_first_place:
  assumes first: "deps_first adj xs" and inh: "inherits_deps adj"
    and keys: "set xs \<subseteq> fst ` set adj" "sm_contains adj r" "r \<notin> set xs"
    and placed: "\<forall>d \<in> set (deps adj r). sm_contains adj d \<longrightarrow> d \<in> set xs"
  shows "deps_first adj (place r xs)"
proof -
  obtain us vs where xs: "xs = us @ vs" "place r xs = us @ r # vs" "vs = [] \<or> longer (hd vs) r"
    using place_split by blast
  show ?thesis
    unfolding deps_first_def
  proof (intro allI ballI impI)
    fix n d
    assume d: "d \<in> set (deps adj n)" "sm_contains adj d"
    show "before (place r xs) d n"
    proof (cases "n = r")
      case False
      with first d xs show ?thesis by (simp add: deps_first_def before_insert_other)
    next
      case True
      have "d \<in> set us"
      proof (cases vs)
        case Nil
        with placed d True xs show ?thesis by auto
      next
        case (Cons v vs')
        with xs keys have "longer v r" "v \<in> fst ` set adj" "r \<in> fst ` set adj"
          by (auto simp: sm_contains_keys)
        with inh d True have "d \<in> set (deps adj v)" unfolding inherits_deps_def by blast
        with first d have "before (us @ v # vs') d v" by (simp add: deps_first_def xs Cons)
        then show ?thesis by (rule beforeD)
      qed
      moreover have "r \<notin> set us" "r \<notin> set vs" using keys xs by auto
      ultimately show ?thesis
        using True xs by (auto simp: before_def append_Cons_eq_iff)
    qed
  qed
qed

lemma merge_deps_first:
  assumes "inherits_deps adj0" and "sm_sorted adj"
    and "fst ` set adj = fst ` set adj0 - set xs" and "set xs \<subseteq> fst ` set adj0"
    and "set seen \<inter> fst ` set adj0 \<subseteq> set xs"
    and "dep_closed adj0 (seen @ rs)" and "deps_first adj0 xs"
  shows "deps_first adj0 (merge_resolved adj rs xs)"
  using assms(2-7)
proof (induction adj rs xs arbitrary: seen rule: merge_resolved.induct)
  case (1 adj xs)
  then show ?case by simp
next
  case (2 adj r rs xs)
  have deps_r: "set (deps adj0 r) \<subseteq> set seen"
    using "2.prems"(5) unfolding dep_closed_def by blast
  have step: "dep_closed adj0 ((seen @ [r]) @ rs)" using "2.prems"(5) by simp
  show ?case
  proof (cases "sm_contains adj r")
    case True
    then have r: "r \<in> fst ` set adj0" "r \<notin> set xs"
      using "2.prems"(2) by (auto simp: sm_contains_keys)
    have "deps_first adj0 (place r xs)"
      using "2.prems" deps_r r assms(1)
      by (intro deps_first_place) (auto simp: sm_contains_keys)
    with "2.IH"(1) [OF True _ _ _ _ step] "2.prems" True r show ?thesis by auto
  next
    case False
    with "2.IH"(2) [OF False _ _ _ _ step] "2.prems" show ?thesis
      by (auto simp: sm_contains_keys)
  qed
qed

subsection \<open>Termination and cycles\<close>

definition dep_rel :: "adjacency \<Rightarrow> (string \<times> string) set" where
  "dep_rel adj = {(n, d). d \<in> set (deps adj n)}"

lemma makeGraphNode_ranked:
  assumes rank: "\<And>n d. d \<in> set (deps adj n) \<Longrightarrow> rank d < (rank n :: nat)"
  shows "rank n < depth \<Longrightarrow> \<exists>g. makeGraphNode depth adj n = Some (Inr g)"
proof (induction depth arbitrary: n)
  case 0
  then show ?case by simp
next
  case (Suc depth)
  have edges: "\<exists>gs. graph_edges (makeGraphNode depth adj) adj n ds = Some (Inr gs)"
    if "set ds \<subseteq> set (deps adj n)" for ds
    using that
  proof (induction ds)
    case Nil
    then show ?case by simp
  next
    case (Cons d ds)
    then have d: "rank d < rank n" using rank by simp
    then have "n \<notin> set (deps adj d)" using rank [of n d] by auto
    moreover obtain g where "makeGraphNode depth adj d = Some (Inr g)"
      using Suc.IH [of d] Suc.prems d by auto
    ultimately show ?case using Cons by auto
  qed
  show ?case
  proof (cases "sm_find adj n")
    case None
    then show ?thesis by simp
  next
    case (Some ds)
    with edges [of ds] show ?thesis by (auto simp: deps_def)
  qed
qed

lemma make_graphs_ranked:
  assumes "\<And>n d. d \<in> set (deps adj n) \<Longrightarrow> rank d < (rank n :: nat)"
  shows "\<forall>n \<in> set ns. rank n < depth \<Longrightarrow> \<exists>gs. make_graphs depth adj ns acc = Some (Inr gs)"
proof (induction ns arbitrary: acc)
  case Nil
  then show ?case by simp
next
  case (Cons n ns)
  obtain g where "makeGraphNode depth adj n = Some (Inr g)"
    using makeGraphNode_ranked [of adj rank n depth] assms Cons.prems by auto
  with Cons show ?case by auto
qed

text \<open>
  A set of paths in which everybody has a dependency, all of them in the set, and no two of which
  depend on each other directly: the recursion never comes back, whatever the depth of the stack.
  This is the case of every cycle of more than two paths.
\<close>

lemma makeGraphNode_diverges:
  assumes "\<forall>n \<in> S. deps adj n \<noteq> [] \<and> set (deps adj n) \<subseteq> S \<and>
      (\<forall>d \<in> set (deps adj n). n \<notin> set (deps adj d))"
  shows "n \<in> S \<Longrightarrow> makeGraphNode depth adj n = None"
proof (induction depth arbitrary: n)
  case 0
  then show ?case by simp
next
  case (Suc depth)
  then obtain d ds where ds: "deps adj n = d # ds" using assms by (auto simp: neq_Nil_conv)
  then have find: "sm_find adj n = Some (d # ds)" by (auto simp: deps_def split: option.splits)
  from ds Suc.prems assms have "d \<in> S" "n \<notin> set (deps adj d)" by auto
  with Suc.IH find show ?case by simp
qed

lemma reachable_gnames:
  assumes "unfolds adj g" and "(gname g, m) \<in> (dep_rel adj)\<^sup>*"
  shows "\<exists>t. unfolds adj t \<and> gname t = m \<and> size t \<le> size g"
  using assms(2)
proof (induction rule: rtrancl_induct)
  case base
  with assms(1) show ?case by blast
next
  case (step m k)
  then obtain t where t: "unfolds adj t" "gname t = m" "size t \<le> size g" by blast
  obtain gs where gs: "t = GNode m gs" using t(2) by (cases t) auto
  with t have "map gname gs = deps adj m" "\<forall>g \<in> set gs. unfolds adj g" by auto
  with step.hyps(2) obtain s where "s \<in> set gs" "gname s = k" "unfolds adj s"
    unfolding dep_rel_def by (metis (mono_tags) case_prodD imageE mem_Collect_eq set_map)
  moreover from this gs have "size s < size t" by (auto dest: size_list_estimation' [of _ _ _ size])
  ultimately show ?case using t(3) by (intro exI [of _ s]) simp
qed

lemma unfolds_no_cycle:
  assumes "unfolds adj g"
  shows "(gname g, gname g) \<notin> (dep_rel adj)\<^sup>+"
proof
  assume "(gname g, gname g) \<in> (dep_rel adj)\<^sup>+"
  then obtain k where k: "(gname g, k) \<in> dep_rel adj" "(k, gname g) \<in> (dep_rel adj)\<^sup>*"
    by (meson tranclD)
  obtain n gs where g: "g = GNode n gs" by (cases g)
  with assms have "map gname gs = deps adj n" by simp
  with k(1) g obtain s where s: "s \<in> set gs" "gname s = k"
    unfolding dep_rel_def by (metis (mono_tags) case_prodD gnode.sel(1) imageE mem_Collect_eq set_map)
  with assms g have us: "unfolds adj s" by simp
  with k(2) s obtain t where t: "unfolds adj t" "gname t = gname g" "size t \<le> size s"
    using reachable_gnames [of adj s] by blast
  then have "t = g" using assms by (intro unfolds_unique)
  moreover have "size s < size g" using s g by (auto dest: size_list_estimation' [of _ _ _ size])
  ultimately show False using t(3) by simp
qed

text \<open>The names that occur in a map, and the number of dependencies behind a path as its rank.\<close>

definition dep_names :: "adjacency \<Rightarrow> string set" where
  "dep_names adj = fst ` set adj \<union> (\<Union>(n, ds) \<in> set adj. set ds)"

lemma finite_dep_names: "finite (dep_names adj)"
  by (auto simp: dep_names_def)

lemma dep_rel_entry: "(n, d) \<in> dep_rel adj \<Longrightarrow> \<exists>ds. (n, ds) \<in> set adj \<and> d \<in> set ds"
  by (cases "sm_find adj n") (auto simp: dep_rel_def deps_def dest: sm_find_SomeD)

lemma dep_rel_names: "(n, d) \<in> dep_rel adj \<Longrightarrow> n \<in> dep_names adj \<and> d \<in> dep_names adj"
  by (drule dep_rel_entry) (force simp: dep_names_def)

definition dep_rank :: "adjacency \<Rightarrow> string \<Rightarrow> nat" where
  "dep_rank adj n = card ((dep_rel adj)\<^sup>+ `` {n})"

lemma trancl_dep_names: "(dep_rel adj)\<^sup>+ `` {n} \<subseteq> dep_names adj"
proof
  fix m assume "m \<in> (dep_rel adj)\<^sup>+ `` {n}"
  then have "(n, m) \<in> (dep_rel adj)\<^sup>+" by simp
  then show "m \<in> dep_names adj" by (cases rule: trancl.cases) (auto dest: dep_rel_names)
qed

lemma dep_rank_less:
  assumes "acyclic (dep_rel adj)" and "d \<in> set (deps adj n)"
  shows "dep_rank adj d < dep_rank adj n"
  unfolding dep_rank_def
proof (rule psubset_card_mono)
  show "finite ((dep_rel adj)\<^sup>+ `` {n})"
    using trancl_dep_names finite_dep_names by (rule finite_subset)
  have nd: "(n, d) \<in> dep_rel adj" using assms(2) by (simp add: dep_rel_def)
  then have "(dep_rel adj)\<^sup>+ `` {d} \<subseteq> (dep_rel adj)\<^sup>+ `` {n}" by (auto intro: trancl_into_trancl2)
  moreover have "d \<in> (dep_rel adj)\<^sup>+ `` {n}" using nd by auto
  moreover have "d \<notin> (dep_rel adj)\<^sup>+ `` {d}" using assms(1) by (auto simp: acyclic_def)
  ultimately show "(dep_rel adj)\<^sup>+ `` {d} \<subset> (dep_rel adj)\<^sup>+ `` {n}" by blast
qed

lemma dep_rank_bound: "dep_rank adj n \<le> card (dep_names adj)"
  unfolding dep_rank_def by (rule card_mono [OF finite_dep_names trancl_dep_names])

subsection \<open>What run_update_op computes\<close>

lemma run_update_op_ok:
  assumes "wf_commands cmds" and "run_update_op depth (Some cmds) [] = Some (None, ordered)"
  obtains gs resolved where "make_graphs depth cmds (map fst cmds) [] = Some (Inr gs)"
    and "dep_closed cmds resolved" and "fst ` set cmds \<subseteq> set resolved"
    and "ordered = merge_resolved cmds resolved []"
proof -
  from assms obtain gs resolved where gs: "make_graphs depth cmds (map fst cmds) [] = Some (Inr gs)"
    and res: "resolve_graphs gs [] [] = Inr resolved" "ordered = merge_resolved cmds resolved []"
    by (auto simp: run_update_op_def build_adjacency_id Let_def split: option.splits sum.splits)
  have "\<forall>g \<in> set gs. unfolds cmds g" and "gname ` set gs = fst ` set cmds"
    using make_graphs_unfolds [OF gs] by simp_all
  with resolve_graphs_ok [of gs cmds "[]"] res(1)
  have "dep_closed cmds resolved" "fst ` set cmds \<subseteq> set resolved" by auto
  from that [OF gs this res(2)] show ?thesis .
qed

lemma run_update_op_acyclic:
  assumes "wf_commands cmds" and "run_update_op depth (Some cmds) [] = Some (None, ordered)"
  shows "acyclic (dep_rel cmds)"
  unfolding acyclic_def
proof (intro allI notI)
  fix n assume cyc: "(n, n) \<in> (dep_rel cmds)\<^sup>+"
  then obtain m where "(n, m) \<in> dep_rel cmds" by (meson tranclD)
  then have key: "n \<in> fst ` set cmds" using dep_rel_entry by force
  obtain gs where "make_graphs depth cmds (map fst cmds) [] = Some (Inr gs)"
    using run_update_op_ok [OF assms] by blast
  from make_graphs_unfolds [OF this] key obtain g where "unfolds cmds g" "gname g = n"
    by (metis imageE list.set(1) empty_iff image_empty list.set_map sup_bot.right_neutral)
  with unfolds_no_cycle cyc show False by blast
qed

lemma run_update_op_terminates:
  assumes "wf_commands cmds" and "acyclic (dep_rel cmds)" and "card (dep_names cmds) < depth"
  shows "\<exists>ordered. run_update_op depth (Some cmds) [] = Some (None, ordered)"
proof -
  have "\<forall>n \<in> set (map fst cmds). dep_rank cmds n < depth"
    using assms(3) dep_rank_bound [of cmds] by (auto intro: le_less_trans)
  then obtain gs where gs: "make_graphs depth cmds (map fst cmds) [] = Some (Inr gs)"
    using make_graphs_ranked [of cmds "dep_rank cmds"] dep_rank_less [OF assms(2)] by blast
  then have "\<forall>g \<in> set gs. unfolds cmds g" using make_graphs_unfolds [OF gs] by simp
  then obtain resolved where "resolve_graphs gs [] [] = Inr resolved"
    using resolve_graphs_ok [of gs cmds "[]"] by auto
  with gs assms(1) show ?thesis by (simp add: run_update_op_def build_adjacency_id)
qed

lemma update_order_permutation:
  assumes "wf_commands cmds" "run_update_op depth (Some cmds) [] = Some (None, ordered)"
  shows "distinct ordered \<and> set ordered = fst ` set cmds \<and> parents_first ordered \<and> acyclic (dep_rel cmds)"
proof -
  from run_update_op_ok [OF assms] obtain resolved where keys: "fst ` set cmds \<subseteq> set resolved"
    and ordered: "ordered = merge_resolved cmds resolved []" by blast
  have "sm_sorted cmds" using assms(1) by (simp add: wf_commands_def)
  then have "set ordered = fst ` set cmds" "distinct ordered"
    using keys by (auto simp: ordered merge_resolved_set merge_resolved_distinct)
  moreover have "parents_first ordered"
    unfolding ordered by (rule merge_resolved_parents_first) (simp add: parents_first_def)
  ultimately show ?thesis using run_update_op_acyclic [OF assms] by blast
qed

subsection \<open>Properties\<close>

text \<open>Three paths for the witnesses: the second depends on the first.\<close>

definition three_paths :: adjacency where
  "three_paths = [(''/a'', []), (''/b'', [''/a'']), (''/b/c'', [''/a''])]"

lemma three_paths_wf: "wf_commands three_paths"
  by (simp add: wf_commands_def three_paths_def sm_sorted_def)

lemma three_paths_run: "run_update_op 4 (Some three_paths) [] = Some (None, [''/a'', ''/b'', ''/b/c''])"
  by code_simp

text \<open>C21 When the update operation succeeds, the order it returns has every path exactly once, no path stands
  behind a longer path that contains it, and the dependencies have no cycle.\<close>

theorem update_order_is_a_parents_first_permutation:
  assumes "wf_commands cmds" "run_update_op depth (Some cmds) [] = Some (None, ordered)"
  shows "distinct ordered \<and> set ordered = fst ` set cmds \<and> parents_first ordered \<and> acyclic (dep_rel cmds)"
  by (rule update_order_permutation [OF assms])

theorem update_order_is_a_parents_first_permutation_witness:
  "distinct [''/a'', ''/b'', ''/b/c''] \<and> parents_first [''/a'', ''/b'', ''/b/c''] \<and> acyclic (dep_rel three_paths)"
  using update_order_is_a_parents_first_permutation [OF three_paths_wf three_paths_run] by simp

text \<open>C27 When a path that contains another depends on everything the other depends on, the order of a successful
  update operation has the dependencies of every path in front of it.\<close>

theorem update_order_respects_dependencies:
  assumes "wf_commands cmds" "run_update_op depth (Some cmds) [] = Some (None, ordered)" "inherits_deps cmds"
  shows "deps_first cmds ordered"
proof -
  from run_update_op_ok [OF assms(1,2)] obtain resolved where c: "dep_closed cmds resolved"
    and ordered: "ordered = merge_resolved cmds resolved []" by blast
  have "sm_sorted cmds" using assms(1) by (simp add: wf_commands_def)
  moreover have "deps_first cmds []"
    by (auto simp: deps_first_def before_notin)
  ultimately show ?thesis
    using assms(3) c unfolding ordered
    by (intro merge_deps_first [where seen = "[]"]) simp_all
qed

theorem update_order_respects_dependencies_witness:
  "before [''/a'', ''/b'', ''/b/c''] ''/a'' ''/b/c''"
proof -
  have "inherits_deps three_paths"
    unfolding inherits_deps_def three_paths_def
    by (simp add: longer_def contains_def str_find_def deps_def)
  from update_order_respects_dependencies [OF three_paths_wf three_paths_run this]
  show ?thesis by (simp add: deps_first_def three_paths_def deps_def sm_contains_def)
qed

text \<open>Without this condition the order can break a dependency: a path is moved in front of a longer path that
  contains it, also past its own dependencies.\<close>

theorem parent_placement_can_break_a_dependency:
  "wf_commands [(''/a'', []), (''/z'', [''/a'']), (''/z/c'', [])] \<and>
   run_update_op 4 (Some [(''/a'', []), (''/z'', [''/a'']), (''/z/c'', [])]) [] =
     Some (None, [''/z'', ''/z/c'', ''/a'']) \<and>
   \<not> deps_first [(''/a'', []), (''/z'', [''/a'']), (''/z/c'', [])] [''/z'', ''/z/c'', ''/a'']"
proof (intro conjI)
  show "wf_commands [(''/a'', []), (''/z'', [''/a'']), (''/z/c'', [])]"
    by (simp add: wf_commands_def sm_sorted_def)
  show "run_update_op 4 (Some [(''/a'', []), (''/z'', [''/a'']), (''/z/c'', [])]) [] =
     Some (None, [''/z'', ''/z/c'', ''/a''])"
    by code_simp
  have "\<not> before [''/z'', ''/z/c'', ''/a''] ''/a'' ''/z''"
    unfolding before_def by (intro notI) (drule spec [of _ "[]"], simp)
  then show "\<not> deps_first [(''/a'', []), (''/z'', [''/a'']), (''/z/c'', [])] [''/z'', ''/z/c'', ''/a'']"
    by (auto simp: deps_first_def deps_def sm_contains_def intro!: exI [of _ "''/z''"])
qed

text \<open>C28 With a stack deeper than the number of paths the update operation succeeds exactly when the
  dependencies have no cycle.\<close>

theorem update_succeeds_iff_acyclic:
  assumes "wf_commands cmds" "card (dep_names cmds) < depth"
  shows "(\<exists>ordered. run_update_op depth (Some cmds) [] = Some (None, ordered)) \<longleftrightarrow> acyclic (dep_rel cmds)"
  using run_update_op_terminates [OF assms(1) _ assms(2)] run_update_op_acyclic [OF assms(1)] by blast

theorem update_succeeds_iff_acyclic_witness:
  "card (dep_names three_paths) < 4 \<and> acyclic (dep_rel three_paths)"
proof -
  have c: "card (dep_names three_paths) < 4"
    by (simp add: dep_names_def three_paths_def)
  from update_succeeds_iff_acyclic [OF three_paths_wf c] three_paths_run c show ?thesis by blast
qed

text \<open>A path whose dependencies all lead on for ever, and that is in no cycle of two, is never resolved: the
  recursion does not come back whatever the depth of the stack. So only cycles of two paths are reported.\<close>

theorem long_cycles_are_not_detected:
  assumes "\<forall>n \<in> S. deps adj n \<noteq> [] \<and> set (deps adj n) \<subseteq> S \<and> (\<forall>d \<in> set (deps adj n). n \<notin> set (deps adj d))"
    and "n \<in> S"
  shows "\<forall>depth. makeGraphNode depth adj n = None"
  using makeGraphNode_diverges [OF assms] by blast

theorem long_cycles_are_not_detected_witness:
  "\<forall>depth. makeGraphNode depth [(''/a'', [''/b'']), (''/b'', [''/c'']), (''/c'', [''/a''])] ''/a'' = None"
  by (rule long_cycles_are_not_detected [of "{''/a'', ''/b'', ''/c''}"]) (simp_all add: deps_def)

text \<open>Resolving graphs that were built without an error never reports a cycle: the second check for cycles
  cannot fail. The result has every dependency of a path in front of it.\<close>

theorem resolving_built_graphs_succeeds:
  assumes "make_graphs depth adj ns [] = Some (Inr gs)"
  shows "\<exists>resolved. resolve_graphs gs [] [] = Inr resolved \<and> dep_closed adj resolved \<and> set ns \<subseteq> set resolved"
  using make_graphs_unfolds [OF assms] resolve_graphs_ok [of gs adj "[]"] by auto

theorem resolving_built_graphs_succeeds_witness:
  "\<exists>gs resolved. make_graphs 4 three_paths [''/b'', ''/a''] [] = Some (Inr gs) \<and>
     resolve_graphs gs [] [] = Inr resolved \<and> {''/a'', ''/b''} \<subseteq> set resolved"
proof -
  have g: "make_graphs 4 three_paths [''/b'', ''/a''] [] =
      Some (Inr [GNode ''/a'' [], GNode ''/b'' [GNode ''/a'' []]])" by code_simp
  from resolving_built_graphs_succeeds [OF g] g show ?thesis by auto
qed

end
