(* ===== verification/Ordering.thy ===== *)
theory Ordering
  imports Schema Topo
begin

section \<open>The order in which nodes are processed\<close>

text \<open>
  \<open>src/nodes_ordering.cpp\<close>: \<open>NodeDependencyManager::resolve\<close> collects the update dependencies of every node
  of a configuration from its schema, replaces wildcards (\<open>/*\<close>), keys (\<open>[@key]\<close>) and references (\<open>/@\<close>) in
  them by names of the configuration, and hands the result to the topological sort.

  The visitors keep the tokens still to be met on the way down; the state of a visitor is the pair of
  these and what it has collected. \<open>DependencyMapperVisitior\<close> and the list \<open>nodes_to_execute\<close> made from it
  have no effect and are left out: no node of the program ever gets a schema node, and the list is
  not used.
\<close>

abbreviation REFERENCE_XPATH_NODE :: string where "REFERENCE_XPATH_NODE \<equiv> ''/@''"
abbreviation WILDCARD_XPATH_NODE :: string where "WILDCARD_XPATH_NODE \<equiv> ''/*''"

subsection \<open>The parts before and behind a marker\<close>

text \<open>
  The constructors of the three resolvers cut the path at a marker. \<open>String::npos\<close> is the largest
  64-bit number, and the additions to it wrap around. The position cut at never exceeds the length.
\<close>

definition find_pos :: "string \<Rightarrow> string \<Rightarrow> nat" where
  "find_pos marker xpath = (case find_sub marker xpath of None \<Rightarrow> 2 ^ 64 - 1 | Some i \<Rightarrow> i)"

definition pre_wildcard :: "string \<Rightarrow> string \<Rightarrow> string" where
  "pre_wildcard marker xpath = take (find_pos marker xpath) xpath"

definition post_wildcard :: "string \<Rightarrow> nat \<Rightarrow> string \<Rightarrow> string" where
  "post_wildcard marker n xpath =
     (if (find_pos marker xpath + n) mod 2 ^ 64 < length xpath
      then drop ((find_pos marker xpath + n + 1) mod 2 ^ 64) xpath else [])"

definition glue :: "string \<Rightarrow> string \<Rightarrow> string \<Rightarrow> string" where
  "glue pre subnode post =
     (let r = pre @ ''/'' @ subnode in
      if post = [] then r
      else if length r > 1 \<and> last r \<noteq> SEPARATOR \<and> hd post \<noteq> SEPARATOR then r @ ''/'' @ post
      else r @ post)"

definition glue_wildcard :: "string \<Rightarrow> string \<Rightarrow> string \<Rightarrow> string" where
  "glue_wildcard pre subnode post =
     (let r = pre @ ''/'' @ subnode in if post = [] then r else r @ ''/'' @ post)"

subsection \<open>The resolvers\<close>

text \<open>
  A resolver follows its tokens down the tree; at the node of the last one it takes the names of the
  children (of every node with that name) and stops.
\<close>

definition descend_tokens ::
  "(string list \<Rightarrow> 'r \<Rightarrow> 'r) \<Rightarrow> (string list \<times> 'r) visitor" where
  "descend_tokens collect st h =
     (if fst st = [] \<or> Name (snd h) \<noteq> hd (fst st) then (True, st)
      else if tl (fst st) = [] then (False, ([], collect (subnodes_by_parent_name h) (snd st)))
      else (True, (tl (fst st), snd st)))"

definition NodeReferenceResolverVisitior_visit :: "string \<Rightarrow> string \<Rightarrow> (string list \<times> string option) visitor" where
  "NodeReferenceResolverVisitior_visit pre post =
     descend_tokens (\<lambda>subnodes r. case subnodes of [] \<Rightarrow> r | s # _ \<Rightarrow> Some (glue pre s post))"

definition resolve_reference :: "node \<Rightarrow> string \<Rightarrow> string option" where
  "resolve_reference config xpath =
     (let pre = pre_wildcard REFERENCE_XPATH_NODE xpath; post = post_wildcard REFERENCE_XPATH_NODE 1 xpath in
      snd (accept (NodeReferenceResolverVisitior_visit pre post) ([], config) (XPath_parse pre, None)))"

definition KeySelectorResolverVisitior_visit :: "string \<Rightarrow> string \<Rightarrow> (string list \<times> string list) visitor" where
  "KeySelectorResolverVisitior_visit pre post =
     descend_tokens (\<lambda>subnodes r. fold (\<lambda>s r. glue pre s post # r) subnodes r)"

definition resolve_key_selector :: "node \<Rightarrow> string \<Rightarrow> string list" where
  "resolve_key_selector config xpath =
     (let pre = pre_wildcard ITEM_NAME_SUBSCRIPT xpath; post = post_wildcard ITEM_NAME_SUBSCRIPT 6 xpath in
      snd (accept (KeySelectorResolverVisitior_visit pre post) ([], config) (XPath_parse pre, [])))"

definition WildcardDependencyResolverVisitior_visit :: "string \<Rightarrow> string \<Rightarrow> (string list \<times> string list) visitor" where
  "WildcardDependencyResolverVisitior_visit pre post =
     descend_tokens (\<lambda>subnodes r. fold (\<lambda>s r. glue_wildcard pre s post # r) subnodes r)"

definition resolve_wildcard :: "node \<Rightarrow> string \<Rightarrow> string list" where
  "resolve_wildcard config xpath =
     (let pre = pre_wildcard WILDCARD_XPATH_NODE xpath; post = post_wildcard WILDCARD_XPATH_NODE 2 xpath in
      snd (accept (WildcardDependencyResolverVisitior_visit pre post) ([], config) (XPath_parse pre, [])))"

subsection \<open>Collecting dependencies\<close>

text \<open>\<open>(*dependencies)[n].insert(d)\<close>.\<close>

definition add_dep :: "string \<Rightarrow> string \<Rightarrow> adjacency \<Rightarrow> adjacency" where
  "add_dep n d adj = sm_assign n (ss_insert d (deps adj n)) adj"

text \<open>An exception of the schema lookup leaves the traversal; the state of the visitor records it.\<close>

definition DependencyGetterVisitior_visit :: "regex \<Rightarrow> json \<Rightarrow> adjacency result visitor" where
  "DependencyGetterVisitior_visit rx jschema st h =
     (case st of
        Inl e \<Rightarrow> (False, Inl e)
      | Inr dependencies \<Rightarrow>
          (case getSchemaByXPath rx jschema (XPath_toString h) of
             Inl e \<Rightarrow> (False, Inl e)
           | Inr None \<Rightarrow> (True, Inr dependencies)
           | Inr (Some schema_node) \<Rightarrow>
               let update_depend_attrs = FindAttr (snd schema_node) UPDATE_DEPENDENCIES;
                   xpath_schema_node = schema_xpath schema_node
               in if update_depend_attrs = []
                  then (True, Inr (if sm_contains dependencies xpath_schema_node then dependencies
                                   else sm_assign xpath_schema_node [] dependencies))
                  else (True, Inr (fold (add_dep xpath_schema_node) update_depend_attrs dependencies))))"

definition get_dependencies :: "regex \<Rightarrow> json \<Rightarrow> node \<Rightarrow> adjacency result" where
  "get_dependencies rx jschema config = accept (DependencyGetterVisitior_visit rx jschema) ([], config) (Inr [])"

subsection \<open>Resolving one dependency\<close>

text \<open>The paths a resolved wildcard contributes.\<close>

definition wildcard_paths :: "node \<Rightarrow> string \<Rightarrow> string list" where
  "wildcard_paths config r =
     (if \<not> contains r ITEM_NAME_SUBSCRIPT \<and> \<not> contains r REFERENCE_XPATH_NODE then [r]
      else
        (if contains r ITEM_NAME_SUBSCRIPT
         then filter (\<lambda>p. \<not> contains p REFERENCE_XPATH_NODE) (resolve_key_selector config r) else []) @
        (if contains r REFERENCE_XPATH_NODE
         then (case resolve_reference config r of None \<Rightarrow> [] | Some p \<Rightarrow> [p]) else []))"

text \<open>
  The loop over the paths with resolved keys changes the path it tests: as soon as it has taken one
  with a reference in it, it takes no more. The result has the paths taken and the path left.
\<close>

fun take_keys :: "string list \<Rightarrow> string \<Rightarrow> string list \<times> string" where
  "take_keys [] xpath = ([], xpath)"
| "take_keys (r # rs) xpath =
     (if \<not> contains xpath REFERENCE_XPATH_NODE
      then (let (ps, x) = take_keys rs r in (r # ps, x))
      else take_keys rs xpath)"

definition dependency_paths :: "node \<Rightarrow> string \<Rightarrow> string list" where
  "dependency_paths config dep =
     (let from_wildcards = (if contains dep WILDCARD_XPATH_NODE
                            then concat (map (wildcard_paths config) (resolve_wildcard config dep)) else [])
      in if from_wildcards \<noteq> [] then from_wildcards
         else
           let (keys, xpath) = (if contains dep ITEM_NAME_SUBSCRIPT
                                then take_keys (resolve_key_selector config dep) dep else ([], dep));
               refs = (if contains xpath REFERENCE_XPATH_NODE
                       then (case resolve_reference config xpath of None \<Rightarrow> [] | Some p \<Rightarrow> [p]) else [])
           in if keys @ refs = [] then [dep] else keys @ refs)"

subsection \<open>resolve\<close>

definition resolve_entry :: "node \<Rightarrow> string \<times> string list \<Rightarrow> adjacency \<times> adjacency \<Rightarrow> adjacency \<times> adjacency" where
  "resolve_entry config = (\<lambda>(n, ds) (dependencies, without).
     (fold (\<lambda>d adj. fold (add_dep n) (dependency_paths config d) adj) ds dependencies,
      if ds = [] then sm_assign n [] without else without))"

definition resolve_dependencies :: "node \<Rightarrow> adjacency \<Rightarrow> adjacency" where
  "resolve_dependencies config not_resolved =
     (case fold (resolve_entry config) not_resolved ([], []) of
        (dependencies, without) \<Rightarrow> fold (\<lambda>(n, ds) adj. sm_emplace n ds adj) without dependencies)"

text \<open>
  The result of the sort is ignored: when it reports an error, the list stays empty and \<open>resolve\<close>
  returns true. \<open>depth\<close> is the depth of the stack.
\<close>

definition resolve :: "regex \<Rightarrow> nat \<Rightarrow> json \<Rightarrow> node \<Rightarrow> (bool \<times> string list) result" where
  "resolve rx depth jschema config =
     rbind (get_dependencies rx jschema config) (\<lambda>not_resolved.
       case run_update_op depth (Some (resolve_dependencies config not_resolved)) [] of
         None \<Rightarrow> Inl StackOverflow
       | Some (sort_result, ordered_cmds) \<Rightarrow> Inr (True, ordered_cmds))"


subsection \<open>The dependencies that are resolved\<close>

definition keys :: "adjacency \<Rightarrow> string set" where
  "keys adj = fst ` set adj"

lemma keys_simps [simp]:
  "keys [] = {}"
  "keys (sm_assign n ds adj) = insert n (keys adj)"
  by (simp_all add: keys_def)

lemma keys_add_dep [simp]: "keys (add_dep n d adj) = insert n (keys adj)"
  by (simp add: add_dep_def)

lemma wf_commands_assign:
  "wf_commands adj \<Longrightarrow> ss_sorted ds \<Longrightarrow> wf_commands (sm_assign n ds adj)"
  using set_sm_assign [of n ds adj] by (auto simp: wf_commands_def)

lemma wf_commands_deps: "wf_commands adj \<Longrightarrow> ss_sorted (deps adj n)"
  by (auto simp: wf_commands_def deps_def dest!: sm_find_SomeD split: option.splits)

lemma wf_add_dep: "wf_commands adj \<Longrightarrow> wf_commands (add_dep n d adj)"
  by (simp add: add_dep_def wf_commands_assign wf_commands_deps)

lemma fold_add_dep:
  "wf_commands adj \<Longrightarrow> wf_commands (fold (add_dep n) ds adj)"
  "keys (fold (add_dep n) ds adj) = keys adj \<union> (if ds = [] then {} else {n})"
  by (induction ds arbitrary: adj) (auto simp: wf_add_dep)

lemma dependency_visit_stopped:
  "\<not> fst (DependencyGetterVisitior_visit rx jschema st h) \<Longrightarrow> \<exists>e. snd (DependencyGetterVisitior_visit rx jschema st h) = Inl e"
  by (auto simp: DependencyGetterVisitior_visit_def Let_def split: sum.splits option.splits if_splits)

interpretation dependency_getter: absorbing_visitor "DependencyGetterVisitior_visit rx jschema"
proof
  fix s h h' assume "\<not> fst (DependencyGetterVisitior_visit rx jschema s h)"
  then obtain e where "snd (DependencyGetterVisitior_visit rx jschema s h) = Inl e"
    using dependency_visit_stopped by blast
  then show "snd (DependencyGetterVisitior_visit rx jschema (snd (DependencyGetterVisitior_visit rx jschema s h)) h') =
      snd (DependencyGetterVisitior_visit rx jschema s h)"
    by (simp add: DependencyGetterVisitior_visit_def)
qed

lemma fold_visit_error:
  "fold (\<lambda>h s. snd (DependencyGetterVisitior_visit rx jschema s h)) hs (Inl e) = Inl e"
  by (induction hs) (simp_all add: DependencyGetterVisitior_visit_def)

lemma dependency_visit_step:
  assumes "snd (DependencyGetterVisitior_visit rx jschema (Inr d) h) = Inr d1" and "wf_commands d"
  shows "wf_commands d1" and "keys d \<subseteq> keys d1"
    and "getSchemaByXPath rx jschema (XPath_toString h) = Inr (Some n) \<Longrightarrow> schema_xpath n \<in> keys d1"
  using assms
  by (auto simp: DependencyGetterVisitior_visit_def Let_def fold_add_dep wf_commands_assign sm_contains_keys keys_def [symmetric]
      split: sum.splits option.splits if_splits)

lemma fold_dependencies:
  assumes "fold (\<lambda>h s. snd (DependencyGetterVisitior_visit rx jschema s h)) hs (Inr d) = Inr d'" and "wf_commands d"
  shows "wf_commands d' \<and> keys d \<subseteq> keys d' \<and>
    (\<forall>h \<in> set hs. \<forall>n. getSchemaByXPath rx jschema (XPath_toString h) = Inr (Some n) \<longrightarrow> schema_xpath n \<in> keys d')"
  using assms
proof (induction hs arbitrary: d)
  case Nil
  then show ?case by simp
next
  case (Cons h hs)
  show ?case
  proof (cases "snd (DependencyGetterVisitior_visit rx jschema (Inr d) h)")
    case (Inl e)
    with Cons.prems(1) show ?thesis by (simp add: fold_visit_error)
  next
    case (Inr d1)
    with Cons.prems(1) have "fold (\<lambda>h s. snd (DependencyGetterVisitior_visit rx jschema s h)) hs (Inr d1) = Inr d'" by simp
    from Cons.IH [OF this] dependency_visit_step [OF Inr Cons.prems(2)] show ?thesis
      by (simp del: split_paired_All) blast
  qed
qed

lemma get_dependencies_keys:
  assumes "get_dependencies rx jschema config = Inr d"
  shows "wf_commands d" and "h \<in> set (descendants [] config) \<Longrightarrow>
    getSchemaByXPath rx jschema (XPath_toString h) = Inr (Some n) \<Longrightarrow> schema_xpath n \<in> keys d"
  using fold_dependencies [of rx jschema "descendants [] config" "[]" d] assms
  by (simp_all add: get_dependencies_def dependency_getter.accept_fold wf_commands_def del: split_paired_All)


lemma dependency_paths_nonempty: "dependency_paths config d \<noteq> []"
  by (auto simp: dependency_paths_def Let_def split: prod.splits)

lemma resolve_one:
  assumes "wf_commands adj"
  shows "wf_commands (fold (\<lambda>d adj. fold (add_dep n) (dependency_paths config d) adj) ds adj)"
    and "keys (fold (\<lambda>d adj. fold (add_dep n) (dependency_paths config d) adj) ds adj) =
      keys adj \<union> (if ds = [] then {} else {n})"
  using assms
  by (induction ds arbitrary: adj) (auto simp: fold_add_dep dependency_paths_nonempty)

text \<open>What the loop over the collected dependencies keeps: both maps are well formed, and between them have every name met.\<close>

definition resolved_names :: "adjacency \<times> adjacency \<Rightarrow> string set" where
  "resolved_names p = keys (fst p) \<union> keys (snd p)"

lemma resolve_entries:
  assumes "wf_commands (fst p)" and "wf_commands (snd p)"
  shows "wf_commands (fst (fold (resolve_entry config) entries p)) \<and> wf_commands (snd (fold (resolve_entry config) entries p)) \<and>
    resolved_names (fold (resolve_entry config) entries p) = resolved_names p \<union> fst ` set entries"
  using assms
proof (induction entries arbitrary: p)
  case Nil
  then show ?case by simp
next
  case (Cons e entries)
  obtain n ds a w where e: "e = (n, ds)" and p: "p = (a, w)" by (cases e, cases p)
  have "wf_commands (fst (resolve_entry config e p))" "wf_commands (snd (resolve_entry config e p))"
    and "resolved_names (resolve_entry config e p) = insert n (resolved_names p)"
    using Cons.prems by (auto simp: resolve_entry_def e p resolve_one wf_commands_assign resolved_names_def)
  with Cons.IH [of "resolve_entry config e p"] show ?case by (auto simp: e)
qed

lemma fold_emplace:
  assumes "wf_commands adj" and "\<forall>(n, ds) \<in> set entries. ss_sorted ds"
  shows "wf_commands (fold (\<lambda>(n, ds) adj. sm_emplace n ds adj) entries adj) \<and>
    keys (fold (\<lambda>(n, ds) adj. sm_emplace n ds adj) entries adj) = keys adj \<union> fst ` set entries"
  using assms
proof (induction entries arbitrary: adj)
  case Nil
  then show ?case by simp
next
  case (Cons e entries)
  obtain n ds where e: "e = (n, ds)" by (cases e)
  have "wf_commands (sm_emplace n ds adj)" "keys (sm_emplace n ds adj) = insert n (keys adj)"
    using Cons.prems by (auto simp: e sm_emplace_def wf_commands_assign sm_contains_keys keys_def [symmetric]
        split: option.splits)
  with Cons.IH [of "sm_emplace n ds adj"] Cons.prems show ?case by (auto simp: e)
qed

lemma resolve_dependencies_keys:
  "wf_commands (resolve_dependencies config nr)" "keys (resolve_dependencies config nr) = keys nr"
proof -
  obtain a w where p: "fold (resolve_entry config) nr ([], []) = (a, w)" by fastforce
  have "wf_commands a \<and> wf_commands w \<and> keys a \<union> keys w = keys nr"
    using resolve_entries [of "([], [])" config nr] by (simp add: p resolved_names_def wf_commands_def keys_def)
  moreover from this have "\<forall>(n, ds) \<in> set w. ss_sorted ds" by (simp add: wf_commands_def)
  ultimately show "wf_commands (resolve_dependencies config nr)" "keys (resolve_dependencies config nr) = keys nr"
    using fold_emplace [of a w] by (simp_all add: resolve_dependencies_def p keys_def)
qed

subsection \<open>Properties\<close>

lemma schema_xpath_of_node:
  assumes "wf_config config" and "h \<in> set (descendants [] config)"
    and "getSchemaByXPath rx jschema (XPath_toString h) = Inr (Some n)"
  shows "schema_xpath n = XPath_toString h"
proof -
  from descendants_anc_names(1) [OF assms(2)] obtain up where up: "fst h = up @ [Name config]"
    and names: "\<forall>n \<in> set up. \<exists>g \<in> set (descendants [] config). Name (snd g) = n" by blast
  define ks where "ks = rev up @ [Name (snd h)]"
  have ks: "\<forall>k \<in> set ks. node_token k" using names assms(1,2) by (auto simp: ks_def wf_config_def)
  have "names h = rev ks @ [''/'']" using assms(1) up by (simp add: names_def ks_def wf_config_def)
  with ks have x: "XPath_toString h = join ks" by (simp add: XPath_toString_def toString_names_root)
  with ks have "XPath_parse (XPath_toString h) = ks" by (simp add: XPath_parse_join node_token_def)
  with schema_node_names [OF assms(3)] show ?thesis using ks x by (simp add: schema_xpath_def toString_names_root)
qed

text \<open>
  Three schemas for the witnesses: one path depends on another, two depend on each other.
\<close>

definition depends_on :: "string \<Rightarrow> json" where
  "depends_on p = JObj [(''type'', JStr ''string''), (''update-dependencies'', JArr [JStr p])]"

definition ordered_schema :: json where
  "ordered_schema = JObj [(''properties'', JObj [(''a'', depends_on ''/b''), (''b'', JObj [(''type'', JStr ''string'')])])]"

definition cyclic_schema :: json where
  "cyclic_schema = JObj [(''properties'', JObj [(''a'', depends_on ''/b''), (''b'', depends_on ''/a'')])]"

definition two_nodes :: node where
  "two_nodes = Composite ''/'' [(''a'', Leaf ''a'' (Value_init STRING)), (''b'', Leaf ''b'' (Value_init STRING))]"

definition literal_regex :: regex where
  "literal_regex text pattern = Inr (text = pattern)"

lemma two_nodes_order: "resolve literal_regex 5 ordered_schema two_nodes = Inr (True, [''/b'', ''/a''])"
  by code_simp

lemma two_nodes_config: "wf_config two_nodes"
  by code_simp

text \<open>C26 The order in which nodes are checked and sent is empty, or it has the path of every node of the configuration
  that has a schema exactly once and no path behind a longer path that contains it. The answer is true in both
  cases.\<close>

theorem order_has_every_node_with_a_schema:
  assumes "resolve rx depth jschema config = Inr (ok, ordered)" and "wf_config config"
  shows "ok \<and> (ordered = [] \<or> distinct ordered \<and> parents_first ordered \<and>
    (\<forall>h \<in> set (descendants [] config). \<forall>n.
       getSchemaByXPath rx jschema (XPath_toString h) = Inr (Some n) \<longrightarrow> XPath_toString h \<in> set ordered))"
proof -
  from assms(1) obtain nr err where nr: "get_dependencies rx jschema config = Inr nr" and ok
    and run: "run_update_op depth (Some (resolve_dependencies config nr)) [] = Some (err, ordered)"
    by (auto simp: resolve_def rbind_eq_Inr split: option.splits)
  show ?thesis
  proof (cases err)
    case None
    with run have r: "run_update_op depth (Some (resolve_dependencies config nr)) [] = Some (None, ordered)" by simp
    note perm = update_order_permutation [OF resolve_dependencies_keys(1) r]
    have "XPath_toString h \<in> set ordered"
      if h: "h \<in> set (descendants [] config)" and n: "getSchemaByXPath rx jschema (XPath_toString h) = Inr (Some n)" for h n
      using get_dependencies_keys(2) [OF nr h n] schema_xpath_of_node [OF assms(2) h n] perm
        resolve_dependencies_keys(2) [of config nr] by (simp add: keys_def)
    with perm \<open>ok\<close> show ?thesis by blast
  next
    case (Some e)
    with run have "ordered = []"
      by (auto simp: run_update_op_def Let_def split: option.splits sum.splits)
    with \<open>ok\<close> show ?thesis by simp
  qed
qed

theorem order_has_every_node_with_a_schema_witness:
  "distinct [''/b'', ''/a''] \<and> parents_first [''/b'', ''/a'']"
  using order_has_every_node_with_a_schema [OF two_nodes_order two_nodes_config] by simp

text \<open>A cycle of dependencies is not reported: the sort fails, the order is empty and \<open>resolve\<close> answers true, so
  that no node at all is checked or sent.\<close>

theorem dependency_cycle_gives_the_empty_order:
  "run_update_op 5 (Some (resolve_dependencies two_nodes [(''/a'', [''/b'']), (''/b'', [''/a''])])) [] \<noteq> None \<and>
   resolve literal_regex 5 cyclic_schema two_nodes = Inr (True, [])"
  by code_simp

end
