(* ===== verification/Http.thy ===== *)
theory Http
  imports Std_String
begin

section \<open>HTTP vocabulary\<close>

text \<open>
  \<open>src/lib/http_common.hpp\<close>: methods, the status codes the program answers with and the test for
  success, and what the program reads and writes of the requests and responses of the HTTP
  library: the headers, looked up without regard to case, the body, the status and the content.
\<close>

datatype http_method = GET | PUT | POST | DEL

datatype http_status =
    INTERNAL_SUCCESS
  | CONTINUE
  | OK
  | CREATED
  | END_SUCCESS
  | SEE_OTHER
  | CONFLICT
  | INVALID_TOKEN
  | TOKEN_REQUIRED
  | INTERNAL_SERVER_ERROR

fun status_code :: "http_status \<Rightarrow> nat" where
  "status_code INTERNAL_SUCCESS = 0"
| "status_code CONTINUE = 100"
| "status_code OK = 200"
| "status_code CREATED = 201"
| "status_code END_SUCCESS = 299"
| "status_code SEE_OTHER = 303"
| "status_code CONFLICT = 409"
| "status_code INVALID_TOKEN = 498"
| "status_code TOKEN_REQUIRED = 499"
| "status_code INTERNAL_SERVER_ERROR = 500"

lemma status_code_inject: "status_code a = status_code b \<Longrightarrow> a = b"
  by (cases a; cases b) simp_all

text \<open>The enumeration is compared by the values of its members.\<close>

instantiation http_status :: linorder
begin

definition less_eq_http_status :: "http_status \<Rightarrow> http_status \<Rightarrow> bool" where
  "less_eq_http_status a b \<longleftrightarrow> status_code a \<le> status_code b"

definition less_http_status :: "http_status \<Rightarrow> http_status \<Rightarrow> bool" where
  "less_http_status a b \<longleftrightarrow> status_code a < status_code b"

instance
  by intro_classes
     (auto simp: less_eq_http_status_def less_http_status_def intro: status_code_inject)

end

definition IsSuccess :: "http_status \<Rightarrow> bool" where
  "IsSuccess s \<longleftrightarrow> OK \<le> s \<and> s \<le> END_SUCCESS"

lemma IsSuccess_cases: "IsSuccess s \<longleftrightarrow> s \<in> {OK, CREATED, END_SUCCESS}"
  by (cases s) (simp_all add: IsSuccess_def less_eq_http_status_def)

subsection \<open>Requests and responses\<close>

abbreviation AUTHORIZATION :: string where "AUTHORIZATION \<equiv> ''Authorization''"
abbreviation BEARER :: string where "BEARER \<equiv> ''Bearer''"

type_synonym headers = "(string \<times> string) list"

record request =
  req_headers :: headers
  req_body :: string

text \<open>A response starts without a status; the library fills in 200 when the handler set none.\<close>

record response =
  res_status :: "http_status option"
  res_content :: string

definition empty_response :: response where
  "empty_response = \<lparr>res_status = None, res_content = []\<rparr>"

definition to_lower :: "char \<Rightarrow> char" where
  "to_lower c = (let n = of_char c :: nat in if 65 \<le> n \<and> n \<le> 90 then char_of (n + 32) else c)"

definition same_header :: "string \<Rightarrow> string \<Rightarrow> bool" where
  "same_header a b \<longleftrightarrow> map to_lower a = map to_lower b"

fun find_header :: "string \<Rightarrow> headers \<Rightarrow> string option" where
  "find_header k [] = None"
| "find_header k ((n, v) # hs) = (if same_header n k then Some v else find_header k hs)"

text \<open>\<open>set_header\<close> of the library refuses names and values with a carriage return or a line feed.\<close>

definition has_crlf :: "string \<Rightarrow> bool" where
  "has_crlf s \<longleftrightarrow> CHR 0x0D \<in> set s \<or> CHR 0x0A \<in> set s"

definition set_header :: "string \<Rightarrow> string \<Rightarrow> request \<Rightarrow> request" where
  "set_header k v req =
     (if \<not> has_crlf k \<and> \<not> has_crlf v then req\<lparr>req_headers := req_headers req @ [(k, v)]\<rparr> else req)"

end
