(* ===== verification/Session.thy ===== *)
theory Session
  imports Http Std_Map
begin

section \<open>The session manager\<close>

text \<open>
  \<open>src/session_management.hpp\<close> and \<open>src/session_management.cpp\<close>. A session is a token the client
  registered; at most one session is active and may change the configuration. The state holds the
  leased tokens with their times, the active token, the callbacks to run when a session expires and
  one timer per token. Every method takes the mutexes it needs for its whole body and is one step,
  except \<open>SetActiveSessionToken\<close>, which is two: \<open>CheckSessionToken\<close> releases the mutex before the
  rest takes it again.

  A time point is the number of nanoseconds of \<open>system_clock\<close>; \<open>now\<close> is an argument. A callback is a
  value of the parameter type \<open>'cb\<close>; what it does is an argument of the sweep that runs it.
\<close>

type_synonym time_point = int

definition to_seconds :: "int \<Rightarrow> int" where
  "to_seconds d = (if d < 0 then - (- d div 10 ^ 9) else d div 10 ^ 9)"

record session_details =
  LastRequestAt :: time_point
  StartAt :: time_point

record 'cb timer_details =
  TimerCB :: 'cb
  TimerStartAt :: time_point
  Timeout :: int
  QuitFlag :: bool

record 'cb sessions =
  leased :: "(string, session_details) smap"
  active :: "string option"
  timeout_callbacks :: "(string, 'cb) smap"
  timers :: "(string, 'cb timer_details) smap"
  session_timeout_sec :: int
  quit_flag :: bool

definition SessionManager_init :: "int \<Rightarrow> 'cb sessions" where
  "SessionManager_init timeout =
     \<lparr>leased = [], active = None, timeout_callbacks = [], timers = [],
      session_timeout_sec = timeout, quit_flag = False\<rparr>"

definition SessionManager_destroy :: "'cb sessions \<Rightarrow> 'cb sessions" where
  "SessionManager_destroy s = s\<lparr>quit_flag := True\<rparr>"

type_synonym 'cb answer = "(bool \<times> response \<times> 'cb sessions) result"

subsection \<open>Tokens\<close>

text \<open>
  \<open>get_header_value\<close> of a missing header is the empty string. The result of \<open>Trim(auth)\<close> is
  discarded by the code, so the token is what follows the first seven characters of the header;
  \<open>substr\<close> throws on a shorter one.
\<close>

definition get_header_value :: "string \<Rightarrow> request \<Rightarrow> string" where
  "get_header_value k req = (case find_header k (req_headers req) of None \<Rightarrow> [] | Some v \<Rightarrow> v)"

definition bearer_token :: "request \<Rightarrow> string result" where
  "bearer_token req = substr (get_header_value AUTHORIZATION req) (length BEARER + 1) None"

definition has_authorization :: "request \<Rightarrow> bool" where
  "has_authorization req \<longleftrightarrow> find_header AUTHORIZATION (req_headers req) \<noteq> None"

subsection \<open>The methods\<close>

definition RegisterSessionToken ::
  "time_point \<Rightarrow> request \<Rightarrow> response \<Rightarrow> 'cb sessions \<Rightarrow> bool \<times> response \<times> 'cb sessions" where
  "RegisterSessionToken now req res s =
     (if sm_contains (leased s) (req_body req)
      then (False, res\<lparr>res_status := Some CONFLICT\<rparr>, s)
      else (True, res\<lparr>res_status := Some CREATED\<rparr>,
            s\<lparr>leased := sm_assign (req_body req) \<lparr>LastRequestAt = now, StartAt = now\<rparr> (leased s)\<rparr>))"

definition CheckSessionToken ::
  "time_point \<Rightarrow> request \<Rightarrow> response \<Rightarrow> 'cb sessions \<Rightarrow> 'cb answer" where
  "CheckSessionToken now req res s =
     (if \<not> has_authorization req
      then Inr (False, res\<lparr>res_status := Some TOKEN_REQUIRED\<rparr>, s)
      else rbind (bearer_token req) (\<lambda>session_token.
        case sm_find (leased s) session_token of
          None \<Rightarrow> Inr (False, res\<lparr>res_status := Some INVALID_TOKEN\<rparr>, s)
        | Some d \<Rightarrow>
            Inr (True, res\<lparr>res_status := Some OK\<rparr>,
                 s\<lparr>leased := sm_assign session_token (d\<lparr>LastRequestAt := now\<rparr>) (leased s)\<rparr>)))"

text \<open>The second critical section of \<open>SetActiveSessionToken\<close>.\<close>

definition SetActive_commit :: "request \<Rightarrow> response \<Rightarrow> 'cb sessions \<Rightarrow> 'cb answer" where
  "SetActive_commit req res s =
     rbind (bearer_token req) (\<lambda>session_token.
       case active s of
         Some a \<Rightarrow>
           if a \<noteq> session_token
           then Inr (False, res\<lparr>res_content := ''There is already active session '' @ [CHR 0x27] @ a @ [CHR 0x27],
                                res_status := Some CONFLICT\<rparr>, s)
           else Inr (True, res\<lparr>res_status := Some OK\<rparr>, s\<lparr>active := Some session_token\<rparr>)
       | None \<Rightarrow> Inr (True, res\<lparr>res_status := Some OK\<rparr>, s\<lparr>active := Some session_token\<rparr>))"

definition SetActiveSessionToken ::
  "time_point \<Rightarrow> request \<Rightarrow> response \<Rightarrow> 'cb sessions \<Rightarrow> 'cb answer" where
  "SetActiveSessionToken now req res s =
     rbind (CheckSessionToken now req res s) (\<lambda>(ok, res', s').
       if \<not> ok then Inr (False, res', s') else SetActive_commit req res' s')"

definition CheckActiveSessionToken ::
  "time_point \<Rightarrow> request \<Rightarrow> response \<Rightarrow> 'cb sessions \<Rightarrow> 'cb answer" where
  "CheckActiveSessionToken now req res s =
     (if \<not> has_authorization req
      then Inr (False, res\<lparr>res_status := Some TOKEN_REQUIRED\<rparr>, s)
      else rbind (bearer_token req) (\<lambda>session_token.
        if \<not> sm_contains (leased s) session_token
        then Inr (False, res\<lparr>res_status := Some INVALID_TOKEN\<rparr>, s)
        else if active s \<noteq> Some session_token
        then Inr (False, res\<lparr>res_status := Some INVALID_TOKEN\<rparr>, s)
        else Inr (True, res\<lparr>res_status := Some OK\<rparr>, s)))"

definition RemoveSessionToken ::
  "time_point \<Rightarrow> request \<Rightarrow> response \<Rightarrow> 'cb sessions \<Rightarrow> 'cb answer" where
  "RemoveSessionToken now req res s =
     rbind (CheckSessionToken now req res s) (\<lambda>(ok, res', s').
       if \<not> ok then Inr (False, res', s')
       else rbind (bearer_token req) (\<lambda>session_token.
         Inr (True, res'\<lparr>res_status := Some OK\<rparr>,
              s'\<lparr>leased := sm_erase session_token (leased s'),
                 active := (if active s' = Some session_token then None else active s')\<rparr>)))"

text \<open>The overload for a token builds a request with the token in its header.\<close>

definition RemoveSessionToken_str :: "time_point \<Rightarrow> string \<Rightarrow> 'cb sessions \<Rightarrow> 'cb answer" where
  "RemoveSessionToken_str now session_token s =
     RemoveSessionToken now
       (set_header AUTHORIZATION (BEARER @ '' '' @ session_token) \<lparr>req_headers = [], req_body = []\<rparr>)
       empty_response s"

definition RemoveActiveSessionToken :: "string \<Rightarrow> 'cb sessions \<Rightarrow> bool \<times> 'cb sessions" where
  "RemoveActiveSessionToken session_token s =
     (case active s of
        None \<Rightarrow> (True, s)
      | Some a \<Rightarrow> if a = session_token then (True, s\<lparr>active := None\<rparr>) else (False, s))"

definition GetSessionToken :: "request \<Rightarrow> 'cb sessions \<Rightarrow> string option result" where
  "GetSessionToken req s =
     (if \<not> has_authorization req then Inr None
      else rbind (bearer_token req) (\<lambda>session_token.
        if \<not> sm_contains (leased s) session_token then Inr None else Inr (Some session_token)))"

definition GetActiveSessionToken :: "'cb sessions \<Rightarrow> string option" where
  "GetActiveSessionToken s = active s"

definition RegisterSessionTimeoutCallback :: "string \<Rightarrow> 'cb \<Rightarrow> 'cb sessions \<Rightarrow> bool \<times> 'cb sessions" where
  "RegisterSessionTimeoutCallback receiver_id cb s =
     (True, s\<lparr>timeout_callbacks := sm_assign receiver_id cb (timeout_callbacks s)\<rparr>)"

definition RemoveSessionTimeoutCallback :: "string \<Rightarrow> 'cb sessions \<Rightarrow> 'cb sessions" where
  "RemoveSessionTimeoutCallback receiver_id s =
     s\<lparr>timeout_callbacks := sm_erase receiver_id (timeout_callbacks s)\<rparr>"

text \<open>
  \<open>SetSessionTokenTimerOnce\<close> refuses a token whose timer runs. When the timer was cancelled but is
  still in the map, the refusal does not apply, and \<open>emplace\<close> leaves the cancelled entry in place.
\<close>

definition SetSessionTokenTimerOnce ::
  "time_point \<Rightarrow> request \<Rightarrow> 'cb \<Rightarrow> int \<Rightarrow> 'cb sessions \<Rightarrow> (bool \<times> 'cb sessions) result" where
  "SetSessionTokenTimerOnce now req cb timeout_sec s =
     rbind (GetSessionToken req s) (\<lambda>found.
       let session_token = (case found of None \<Rightarrow> [] | Some t \<Rightarrow> t) in
       if session_token = [] then Inr (False, s)
       else if (case sm_find (timers s) session_token of None \<Rightarrow> False | Some t \<Rightarrow> \<not> QuitFlag t)
       then Inr (False, s)
       else Inr (True,
         s\<lparr>timers := sm_emplace session_token
             \<lparr>TimerCB = cb, TimerStartAt = now, Timeout = timeout_sec, QuitFlag = False\<rparr> (timers s)\<rparr>))"

definition CancelSessionTokenTimerOnce :: "request \<Rightarrow> 'cb sessions \<Rightarrow> (bool \<times> 'cb sessions) result" where
  "CancelSessionTokenTimerOnce req s =
     rbind (GetSessionToken req s) (\<lambda>found.
       let session_token = (case found of None \<Rightarrow> [] | Some t \<Rightarrow> t) in
       if session_token = [] then Inr (False, s)
       else case sm_find (timers s) session_token of
              None \<Rightarrow> Inr (False, s)
            | Some t \<Rightarrow> Inr (True, s\<lparr>timers := sm_assign session_token (t\<lparr>QuitFlag := True\<rparr>) (timers s)\<rparr>))"

subsection \<open>The sweep\<close>

text \<open>
  One round of the thread \<open>_checking_session_expiration_thread\<close>. \<open>run\<close> is what a callback does for a
  token to the surroundings \<open>'w\<close> of the manager and to the manager itself; an exception of a callback
  leaves the thread and ends the process. The two lists of expired keys are built with
  \<open>emplace_front\<close>, so they are in descending order of the keys. The entry of a timer is looked up
  again before its callback runs: \<open>find\<close> would return \<open>end()\<close> if it were gone.
\<close>

type_synonym ('w, 'cb) runner =
  "'cb \<Rightarrow> string \<Rightarrow> 'w \<times> 'cb sessions \<Rightarrow> ('w \<times> 'cb sessions) result"

definition session_expired :: "time_point \<Rightarrow> int \<Rightarrow> session_details \<Rightarrow> bool" where
  "session_expired now timeout d \<longleftrightarrow> timeout < to_seconds (now - LastRequestAt d)"

definition timer_expired :: "time_point \<Rightarrow> 'cb timer_details \<Rightarrow> bool" where
  "timer_expired now d \<longleftrightarrow> Timeout d < to_seconds (now - TimerStartAt d)"

definition expired_sessions :: "time_point \<Rightarrow> 'cb sessions \<Rightarrow> string list" where
  "expired_sessions now s =
     rev (map fst (filter (\<lambda>(t, d). session_expired now (session_timeout_sec s) d) (leased s)))"

definition stopped_timers :: "'cb sessions \<Rightarrow> string list" where
  "stopped_timers s = rev (map fst (filter (\<lambda>(t, d). QuitFlag d) (timers s)))"

definition expired_timers :: "time_point \<Rightarrow> 'cb sessions \<Rightarrow> string list" where
  "expired_timers now s =
     rev (map fst (filter (\<lambda>(t, d). \<not> QuitFlag d \<and> timer_expired now d) (timers s)))"

fun run_timeout_callbacks ::
  "('w, 'cb) runner \<Rightarrow> string \<Rightarrow> 'cb list \<Rightarrow> 'w \<times> 'cb sessions \<Rightarrow> ('w \<times> 'cb sessions) result" where
  "run_timeout_callbacks run t [] st = Inr st"
| "run_timeout_callbacks run t (cb # cbs) st =
     rbind (run cb t st) (run_timeout_callbacks run t cbs)"

fun expire_sessions ::
  "('w, 'cb) runner \<Rightarrow> string list \<Rightarrow> 'w \<times> 'cb sessions \<Rightarrow> ('w \<times> 'cb sessions) result" where
  "expire_sessions run [] st = Inr st"
| "expire_sessions run (t # ts) st =
     rbind (run_timeout_callbacks run t (map snd (timeout_callbacks (snd st))) st) (\<lambda>(w, s).
       expire_sessions run ts (w, s\<lparr>leased := sm_erase t (leased s)\<rparr>))"

definition erase_timers :: "string list \<Rightarrow> 'cb sessions \<Rightarrow> 'cb sessions" where
  "erase_timers ts s = s\<lparr>timers := fold sm_erase ts (timers s)\<rparr>"

fun fire_timers ::
  "('w, 'cb) runner \<Rightarrow> string list \<Rightarrow> 'w \<times> 'cb sessions \<Rightarrow> ('w \<times> 'cb sessions) result" where
  "fire_timers run [] st = Inr st"
| "fire_timers run (t # ts) st =
     (case sm_find (timers (snd st)) t of
        None \<Rightarrow> Inl NullDeref
      | Some d \<Rightarrow> rbind (run (TimerCB d) t st) (\<lambda>(w, s).
          fire_timers run ts (w, s\<lparr>timers := sm_erase t (timers s)\<rparr>)))"

definition sweep ::
  "('w, 'cb) runner \<Rightarrow> time_point \<Rightarrow> 'w \<times> 'cb sessions \<Rightarrow> ('w \<times> 'cb sessions) result" where
  "sweep run now st =
     (if quit_flag (snd st) then Inr st
      else rbind (expire_sessions run (expired_sessions now (snd st)) st) (\<lambda>(w, s).
        fire_timers run (expired_timers now s) (w, erase_timers (stopped_timers s) s)))"

subsection \<open>Facts about the methods\<close>

lemmas [session_defs] =
  CheckSessionToken_def SetActive_commit_def SetActiveSessionToken_def CheckActiveSessionToken_def
  RemoveSessionToken_def GetSessionToken_def SetSessionTokenTimerOnce_def
  CancelSessionTokenTimerOnce_def RegisterSessionToken_def RemoveActiveSessionToken_def

text \<open>What every method keeps: the maps are ordered maps.\<close>

definition wf_sessions :: "'cb sessions \<Rightarrow> bool" where
  "wf_sessions s \<longleftrightarrow> sm_sorted (leased s) \<and> sm_sorted (timers s) \<and> sm_sorted (timeout_callbacks s)"

lemma wf_SessionManager_init [simp]: "wf_sessions (SessionManager_init n)"
  by (simp add: wf_sessions_def SessionManager_init_def)

lemma bearer_token_authorized: "bearer_token req = Inr t \<Longrightarrow> has_authorization req"
  by (auto simp: bearer_token_def has_authorization_def get_header_value_def substr_def
           split: option.splits if_splits)

lemma CheckSessionToken_cases:
  assumes "CheckSessionToken now req res s = Inr (ok, res', s')"
  obtains
    (refused) c where "\<not> ok" "s' = s" "res' = res\<lparr>res_status := Some c\<rparr>" "c \<in> {TOKEN_REQUIRED, INVALID_TOKEN}"
      "\<not> has_authorization req \<or> (\<exists>t. bearer_token req = Inr t \<and> \<not> sm_contains (leased s) t)"
  | (accepted) t d where "ok" "bearer_token req = Inr t" "sm_find (leased s) t = Some d"
      "s' = s\<lparr>leased := sm_assign t (d\<lparr>LastRequestAt := now\<rparr>) (leased s)\<rparr>"
      "res' = res\<lparr>res_status := Some OK\<rparr>"
proof (cases "bearer_token req")
  case (Inl e)
  with assms have "\<not> has_authorization req" by (auto simp: CheckSessionToken_def split: if_splits)
  with assms refused [of TOKEN_REQUIRED] show ?thesis by (simp add: CheckSessionToken_def)
next
  case (Inr t)
  then have auth: "has_authorization req" by (rule bearer_token_authorized)
  show ?thesis
  proof (cases "sm_find (leased s) t")
    case None
    with assms Inr auth refused [of INVALID_TOKEN] show ?thesis
      by (simp add: CheckSessionToken_def sm_contains_def)
  next
    case (Some d)
    with assms Inr auth accepted [of t d] show ?thesis by (simp add: CheckSessionToken_def)
  qed
qed

lemma SetActiveSessionToken_cases:
  assumes "SetActiveSessionToken now req res s = Inr (ok, res', s')"
  obtains
    (refused) c where "\<not> ok" "s' = s" "res_status res' = Some c" "c \<in> {TOKEN_REQUIRED, INVALID_TOKEN}"
  | (conflict) t d a where "\<not> ok" "bearer_token req = Inr t" "active s = Some a" "a \<noteq> t"
      "sm_find (leased s) t = Some d" "res_status res' = Some CONFLICT"
      "s' = s\<lparr>leased := sm_assign t (d\<lparr>LastRequestAt := now\<rparr>) (leased s)\<rparr>"
  | (accepted) t d where "ok" "bearer_token req = Inr t" "active s = None \<or> active s = Some t"
      "sm_find (leased s) t = Some d" "res_status res' = Some OK"
      "s' = s\<lparr>leased := sm_assign t (d\<lparr>LastRequestAt := now\<rparr>) (leased s), active := Some t\<rparr>"
proof -
  note g = that
  from assms obtain b r1 s1 where c: "CheckSessionToken now req res s = Inr (b, r1, s1)"
    and k: "(if \<not> b then Inr (False, r1, s1) else SetActive_commit req r1 s1) = Inr (ok, res', s')"
    by (auto simp: SetActiveSessionToken_def rbind_eq_Inr)
  from c show ?thesis
  proof (cases rule: CheckSessionToken_cases)
    case (refused c)
    with k show ?thesis by (intro g(1) [of c]) auto
  next
    case (accepted t d)
    show ?thesis
    proof (cases "active s = None \<or> active s = Some t")
      case True
      with accepted k g(3) [of t d] show ?thesis by (auto simp: SetActive_commit_def)
    next
      case False
      then obtain a where "active s = Some a" "a \<noteq> t" by auto
      with accepted k g(2) [of t a d] show ?thesis by (auto simp: SetActive_commit_def)
    qed
  qed
qed

lemma CheckActiveSessionToken_cases:
  assumes "CheckActiveSessionToken now req res s = Inr (ok, res', s')"
  obtains
    (refused) c where "\<not> ok" "s' = s" "res_status res' = Some c" "c \<in> {TOKEN_REQUIRED, INVALID_TOKEN}"
  | (accepted) t where "ok" "s' = s" "bearer_token req = Inr t" "sm_contains (leased s) t"
      "active s = Some t" "res_status res' = Some OK"
proof (cases "bearer_token req")
  case (Inl e)
  with assms have "\<not> has_authorization req" by (auto simp: CheckActiveSessionToken_def split: if_splits)
  with assms refused [of TOKEN_REQUIRED] show ?thesis by (auto simp: CheckActiveSessionToken_def)
next
  case (Inr t)
  then have auth: "has_authorization req" by (rule bearer_token_authorized)
  show ?thesis
  proof (cases "sm_contains (leased s) t \<and> active s = Some t")
    case True
    with assms Inr auth accepted [of t] show ?thesis by (auto simp: CheckActiveSessionToken_def)
  next
    case False
    with assms Inr auth refused [of INVALID_TOKEN] show ?thesis
      by (auto simp: CheckActiveSessionToken_def split: if_splits)
  qed
qed

lemma RemoveSessionToken_cases:
  assumes "RemoveSessionToken now req res s = Inr (ok, res', s')"
  obtains
    (refused) c where "\<not> ok" "s' = s" "res_status res' = Some c" "c \<in> {TOKEN_REQUIRED, INVALID_TOKEN}"
  | (accepted) t d where "ok" "bearer_token req = Inr t" "sm_find (leased s) t = Some d"
      "res_status res' = Some OK"
      "s' = s\<lparr>leased := sm_erase t (sm_assign t (d\<lparr>LastRequestAt := now\<rparr>) (leased s)),
              active := (if active s = Some t then None else active s)\<rparr>"
proof -
  note g = that
  from assms obtain b r1 s1 where c: "CheckSessionToken now req res s = Inr (b, r1, s1)"
    and k: "(if \<not> b then Inr (False, r1, s1) else rbind (bearer_token req) (\<lambda>session_token.
         Inr (True, r1\<lparr>res_status := Some OK\<rparr>,
              s1\<lparr>leased := sm_erase session_token (leased s1),
                 active := (if active s1 = Some session_token then None else active s1)\<rparr>)))
       = Inr (ok, res', s')"
    by (auto simp: RemoveSessionToken_def rbind_eq_Inr)
  from c show ?thesis
  proof (cases rule: CheckSessionToken_cases)
    case (refused c)
    with k show ?thesis by (intro g(1) [of c]) auto
  next
    case (accepted t d)
    with k show ?thesis by (intro g(2) [of t d]) auto
  qed
qed

lemma GetSessionToken_Some:
  assumes "GetSessionToken req s = Inr (Some t)"
  shows "bearer_token req = Inr t" "sm_contains (leased s) t"
  using assms by (auto simp: GetSessionToken_def rbind_eq_Inr split: if_splits)

lemma CancelTimer_cases:
  assumes "CancelSessionTokenTimerOnce req s = Inr (ok, s')"
  obtains (none) "\<not> ok" "s' = s"
  | (cancelled) t d where "ok" "bearer_token req = Inr t" "t \<noteq> []" "sm_contains (leased s) t" "sm_find (timers s) t = Some d"
      "s' = s\<lparr>timers := sm_assign t (d\<lparr>QuitFlag := True\<rparr>) (timers s)\<rparr>"
proof (cases "GetSessionToken req s")
  case (Inl e)
  with assms show ?thesis by (simp add: CancelSessionTokenTimerOnce_def)
next
  case (Inr f)
  note found = this
  show ?thesis
  proof (cases "f = None \<or> f = Some []")
    case True
    with assms Inr none show ?thesis by (auto simp: CancelSessionTokenTimerOnce_def)
  next
    case False
    then obtain t where t: "f = Some t" "t \<noteq> []" by auto
    with Inr have b: "bearer_token req = Inr t" "sm_contains (leased s) t"
      by (rule_tac [!] GetSessionToken_Some) auto
    show ?thesis
    proof (cases "sm_find (timers s) t")
      case None
      with assms Inr t none show ?thesis by (simp add: CancelSessionTokenTimerOnce_def)
    next
      case (Some d)
      with assms Inr t b cancelled [of t d] show ?thesis by (simp add: CancelSessionTokenTimerOnce_def)
    qed
  qed
qed

lemma SetTimer_cases:
  assumes "SetSessionTokenTimerOnce now req cb n s = Inr (ok, s')"
  obtains (none) "\<not> ok" "s' = s"
  | (kept) t d where "ok" "bearer_token req = Inr t" "sm_find (timers s) t = Some d" "QuitFlag d" "s' = s"
  | (armed) t where "ok" "bearer_token req = Inr t" "t \<noteq> []" "sm_contains (leased s) t" "sm_find (timers s) t = None"
      "s' = s\<lparr>timers := sm_assign t
               \<lparr>TimerCB = cb, TimerStartAt = now, Timeout = n, QuitFlag = False\<rparr> (timers s)\<rparr>"
proof (cases "GetSessionToken req s")
  case (Inl e)
  with assms show ?thesis by (simp add: SetSessionTokenTimerOnce_def)
next
  case (Inr f)
  note found = this
  show ?thesis
  proof (cases "f = None \<or> f = Some []")
    case True
    with assms Inr none show ?thesis by (auto simp: SetSessionTokenTimerOnce_def)
  next
    case False
    then obtain t where t: "f = Some t" "t \<noteq> []" by auto
    with Inr have b: "bearer_token req = Inr t" "sm_contains (leased s) t"
      by (rule_tac [!] GetSessionToken_Some) auto
    show ?thesis
    proof (cases "sm_find (timers s) t")
      case None
      have "ok" "s' = s\<lparr>timers := sm_assign t
               \<lparr>TimerCB = cb, TimerStartAt = now, Timeout = n, QuitFlag = False\<rparr> (timers s)\<rparr>"
        using assms Inr t None
        by (simp_all add: SetSessionTokenTimerOnce_def sm_emplace_def sm_contains_def)
      from this(1) b(1) t(2) b(2) None this(2) show ?thesis by (rule armed)
    next
      case (Some d)
      show ?thesis
      proof (cases "QuitFlag d")
        case True
        have "ok" "s' = s"
          using assms Inr t True Some
          by (simp_all add: SetSessionTokenTimerOnce_def sm_emplace_def sm_contains_def)
        from this(1) b(1) Some True this(2) show ?thesis by (rule kept)
      next
        case False
        with assms Inr t b Some none show ?thesis by (simp add: SetSessionTokenTimerOnce_def)
      qed
    qed
  qed
qed

subsection \<open>The contract of a guard\<close>

text \<open>
  The route handlers of the server first ask the session manager whether the request may proceed.
  A guard accepts only a request whose token is \<open>valid\<close>; when it refuses, the answer has a status
  that is not a success and the active session and the timers are as before; it never touches the
  callbacks, and never removes a lease.
\<close>

definition same_sessions :: "'cb sessions \<Rightarrow> 'cb sessions \<Rightarrow> bool" where
  "same_sessions s s' \<longleftrightarrow>
     sm_contains (leased s') = sm_contains (leased s) \<and> timers s' = timers s \<and>
     timeout_callbacks s' = timeout_callbacks s \<and> session_timeout_sec s' = session_timeout_sec s \<and>
     quit_flag s' = quit_flag s \<and> (wf_sessions s \<longrightarrow> wf_sessions s')"

lemma same_sessions_refl [simp]: "same_sessions s s"
  by (simp add: same_sessions_def)

lemma same_sessions_touch:
  "sm_find (leased s) t = Some d \<Longrightarrow>
   same_sessions s (s\<lparr>leased := sm_assign t d' (leased s), active := a\<rparr>)"
  "sm_find (leased s) t = Some d \<Longrightarrow> same_sessions s (s\<lparr>leased := sm_assign t d' (leased s)\<rparr>)"
  by (auto simp: same_sessions_def wf_sessions_def fun_eq_iff sm_contains_def)

text \<open>
  A handler that runs its body when the check accepts the request and answers with what the check
  wrote otherwise.
\<close>

definition guarded ::
  "(request \<Rightarrow> response \<Rightarrow> 'cb sessions \<Rightarrow> 'cb answer) \<Rightarrow>
   ('m \<Rightarrow> 'cb sessions \<Rightarrow> response \<Rightarrow> (response, 'm \<times> 'cb sessions) outcome) \<Rightarrow>
   request \<Rightarrow> response \<Rightarrow> 'm \<times> 'cb sessions \<Rightarrow> (response, 'm \<times> 'cb sessions) outcome" where
  "guarded check body req res ms = (case check req res (snd ms) of
       Inl e \<Rightarrow> (Inl e, ms)
     | Inr (ok, res', s') \<Rightarrow> if ok then body (fst ms) s' res' else (Inr res', (fst ms, s')))"

locale session_guard =
  fixes check :: "request \<Rightarrow> response \<Rightarrow> 'cb sessions \<Rightarrow> 'cb answer"
    and valid :: "string \<Rightarrow> 'cb sessions \<Rightarrow> bool"
  assumes accepts: "check req res s = Inr (True, res', s') \<Longrightarrow>
            \<exists>t. bearer_token req = Inr t \<and> sm_contains (leased s) t \<and> valid t s'"
    and refuses: "check req res s = Inr (False, res', s') \<Longrightarrow>
            active s' = active s \<and> (\<exists>c. res_status res' = Some c \<and> \<not> IsSuccess c)"
    and keeps: "check req res s = Inr (ok, res', s') \<Longrightarrow> same_sessions s s'"
begin

text \<open>What a handler guarded by \<open>check\<close> relies on: if its body ran, the token was valid.\<close>

lemma guarded_cases:
  assumes "guarded check body req res (m, s) = (r, (m', s'))"
  obtains (raised) e where "r = Inl e" "m' = m" "s' = s"
  | (refused) res' c where "r = Inr res'" "m' = m" "active s' = active s" "same_sessions s s'"
      "res_status res' = Some c" "\<not> IsSuccess c"
  | (passed) t res1 s1 where "bearer_token req = Inr t" "sm_contains (leased s) t" "valid t s1"
      "same_sessions s s1" "check req res s = Inr (True, res1, s1)" "body m s1 res1 = (r, (m', s'))"
proof (cases "check req res s")
  case (Inl e)
  with assms raised show ?thesis by (auto simp: guarded_def)
next
  case (Inr x)
  then obtain ok res1 s1 where c: "check req res s = Inr (ok, res1, s1)" by (cases x) auto
  show ?thesis
  proof (cases ok)
    case True
    with c accepts [of req res s res1 s1] obtain t
      where "bearer_token req = Inr t" "sm_contains (leased s) t" "valid t s1" by auto
    with True c keeps [OF c] assms passed show ?thesis by (simp add: guarded_def)
  next
    case False
    with c refuses [of req res s res1 s1] obtain k
      where "active s1 = active s" "res_status res1 = Some k" "\<not> IsSuccess k" by auto
    with False c keeps [OF c] assms refused [of res1 k] show ?thesis by (simp add: guarded_def)
  qed
qed

end

interpretation check_session: session_guard "CheckSessionToken now" "\<lambda>t s. sm_contains (leased s) t" for now
proof
  show "\<exists>t. bearer_token req = Inr t \<and> sm_contains (leased s) t \<and> sm_contains (leased s') t"
    if "CheckSessionToken now req res s = Inr (True, res', s')"
    for req res s res' and s' :: "'a sessions"
    using that by (cases rule: CheckSessionToken_cases) (auto simp: sm_contains_def)
  show "active s' = active s \<and> (\<exists>c. res_status res' = Some c \<and> \<not> IsSuccess c)"
    if "CheckSessionToken now req res s = Inr (False, res', s')"
    for req res s res' and s' :: "'a sessions"
    using that by (cases rule: CheckSessionToken_cases) (auto simp: IsSuccess_cases)
  show "same_sessions s s'"
    if "CheckSessionToken now req res s = Inr (ok, res', s')"
    for req res s ok res' and s' :: "'a sessions"
    using that by (cases rule: CheckSessionToken_cases) (auto simp: same_sessions_touch)
qed

interpretation set_active: session_guard "SetActiveSessionToken now"
  "\<lambda>t s. sm_contains (leased s) t \<and> active s = Some t" for now
proof
  show "\<exists>t. bearer_token req = Inr t \<and> sm_contains (leased s) t \<and>
            sm_contains (leased s') t \<and> active s' = Some t"
    if "SetActiveSessionToken now req res s = Inr (True, res', s')"
    for req res s res' and s' :: "'a sessions"
    using that by (cases rule: SetActiveSessionToken_cases) (auto simp: sm_contains_def)
  show "active s' = active s \<and> (\<exists>c. res_status res' = Some c \<and> \<not> IsSuccess c)"
    if "SetActiveSessionToken now req res s = Inr (False, res', s')"
    for req res s res' and s' :: "'a sessions"
    using that by (cases rule: SetActiveSessionToken_cases) (auto simp: IsSuccess_cases)
  show "same_sessions s s'"
    if "SetActiveSessionToken now req res s = Inr (ok, res', s')"
    for req res s ok res' and s' :: "'a sessions"
    using that by (cases rule: SetActiveSessionToken_cases) (auto simp: same_sessions_touch)
qed

interpretation check_active: session_guard "CheckActiveSessionToken now"
  "\<lambda>t s. sm_contains (leased s) t \<and> active s = Some t" for now
proof
  show "\<exists>t. bearer_token req = Inr t \<and> sm_contains (leased s) t \<and>
            sm_contains (leased s') t \<and> active s' = Some t"
    if "CheckActiveSessionToken now req res s = Inr (True, res', s')"
    for req res s res' and s' :: "'a sessions"
    using that by (cases rule: CheckActiveSessionToken_cases) auto
  show "active s' = active s \<and> (\<exists>c. res_status res' = Some c \<and> \<not> IsSuccess c)"
    if "CheckActiveSessionToken now req res s = Inr (False, res', s')"
    for req res s res' and s' :: "'a sessions"
    using that by (cases rule: CheckActiveSessionToken_cases) (auto simp: IsSuccess_cases)
  show "same_sessions s s'"
    if "CheckActiveSessionToken now req res s = Inr (ok, res', s')"
    for req res s ok res' and s' :: "'a sessions"
    using that by (cases rule: CheckActiveSessionToken_cases) auto
qed

subsection \<open>Properties of the session manager\<close>

lemma CancelTimer_eq:
  assumes "bearer_token req = Inr t" "t \<noteq> []" "sm_contains (leased s) t" "sm_find (timers s) t = Some d"
  shows "CancelSessionTokenTimerOnce req s =
         Inr (True, s\<lparr>timers := sm_assign t (d\<lparr>QuitFlag := True\<rparr>) (timers s)\<rparr>)"
  using assms bearer_token_authorized [OF assms(1)]
  by (simp add: CancelSessionTokenTimerOnce_def GetSessionToken_def)

lemma SetTimer_eq:
  assumes "bearer_token req = Inr t" "t \<noteq> []" "sm_contains (leased s) t" "sm_find (timers s) t = Some d" "QuitFlag d"
  shows "SetSessionTokenTimerOnce now req cb n s = Inr (True, s)"
  using assms bearer_token_authorized [OF assms(1)]
  by (simp add: SetSessionTokenTimerOnce_def GetSessionToken_def sm_emplace_def sm_contains_def)

lemma SetTimer_new:
  assumes "bearer_token req = Inr t" "t \<noteq> []" "sm_contains (leased s) t" "sm_find (timers s) t = None"
  shows "SetSessionTokenTimerOnce now req cb n s =
         Inr (True, s\<lparr>timers := sm_assign t \<lparr>TimerCB = cb, TimerStartAt = now, Timeout = n, QuitFlag = False\<rparr> (timers s)\<rparr>)"
  using assms bearer_token_authorized [OF assms(1)]
  by (simp add: SetSessionTokenTimerOnce_def GetSessionToken_def sm_emplace_def sm_contains_def)

lemma stopped_timer_iff:
  "sm_sorted (timers s) \<Longrightarrow> sm_find (timers s) t = Some d \<Longrightarrow> t \<in> set (stopped_timers s) \<longleftrightarrow> QuitFlag d"
  by (auto simp: stopped_timers_def sm_find_entry [symmetric] intro!: rev_image_eqI)
     (metis option.inject sm_find_entry)

lemma expired_timer_iff:
  "sm_sorted (timers s) \<Longrightarrow> sm_find (timers s) t = Some d \<Longrightarrow>
   t \<in> set (expired_timers now s) \<longleftrightarrow> \<not> QuitFlag d \<and> timer_expired now d"
  by (auto simp: expired_timers_def sm_find_entry [symmetric] intro!: rev_image_eqI)
     (metis option.inject sm_find_entry)+

lemma expired_session_iff:
  "sm_sorted (leased s) \<Longrightarrow> t \<in> set (expired_sessions now s) \<longleftrightarrow>
     (\<exists>d. sm_find (leased s) t = Some d \<and> session_expired now (session_timeout_sec s) d)"
  by (auto simp: expired_sessions_def sm_find_entry [symmetric] image_iff)

text \<open>A concrete manager for the witnesses: the session \<open>a\<close> is leased and active and has a timer.\<close>

definition bearer_request :: "string \<Rightarrow> string \<Rightarrow> request" where
  "bearer_request t body = \<lparr>req_headers = [(AUTHORIZATION, BEARER @ '' '' @ t)], req_body = body\<rparr>"

definition sessions_a :: "string option \<Rightarrow> unit sessions" where
  "sessions_a a = \<lparr>leased = [(''a'', \<lparr>LastRequestAt = 0, StartAt = 0\<rparr>)], active = a, timeout_callbacks = [],
     timers = [(''a'', \<lparr>TimerCB = (), TimerStartAt = 0, Timeout = 180, QuitFlag = False\<rparr>)],
     session_timeout_sec = 360, quit_flag = False\<rparr>"

lemma bearer_request_token [simp]: "bearer_token (bearer_request t body) = Inr t"
  by (simp add: bearer_request_def bearer_token_def get_header_value_def same_header_def substr_def)

lemma sessions_a_simps [simp]:
  "wf_sessions (sessions_a a)" "active (sessions_a a) = a"
  "leased (sessions_a a) = [(''a'', \<lparr>LastRequestAt = 0, StartAt = 0\<rparr>)]"
  "timers (sessions_a a) = [(''a'', \<lparr>TimerCB = (), TimerStartAt = 0, Timeout = 180, QuitFlag = False\<rparr>)]"
  by (simp_all add: sessions_a_def wf_sessions_def)

text \<open>A timer that was cancelled and is set again before the sweep stays cancelled: \<open>SetSessionTokenTimerOnce\<close>
  reports success, but the entry keeps its \<open>QuitFlag\<close>, so every later sweep erases it and none runs its callback.\<close>

theorem rearm_after_cancel_is_lost:
  assumes "wf_sessions s" "bearer_token req = Inr t" "t \<noteq> []" "sm_contains (leased s) t"
    and "sm_find (timers s) t = Some d"
  shows "\<exists>s1 s2. CancelSessionTokenTimerOnce req s = Inr (True, s1) \<and>
           SetSessionTokenTimerOnce now req cb n s1 = Inr (True, s2) \<and>
           sm_find (timers s2) t = Some (d\<lparr>QuitFlag := True\<rparr>) \<and>
           (\<forall>later. t \<in> set (stopped_timers s2) \<and> t \<notin> set (expired_timers later s2))"
proof -
  let ?s = "s\<lparr>timers := sm_assign t (d\<lparr>QuitFlag := True\<rparr>) (timers s)\<rparr>"
  have find: "sm_find (timers ?s) t = Some (d\<lparr>QuitFlag := True\<rparr>)" by simp
  have sorted: "sm_sorted (timers ?s)" using assms(1) by (simp add: wf_sessions_def)
  have "SetSessionTokenTimerOnce now req cb n ?s = Inr (True, ?s)"
    by (rule SetTimer_eq [of req t _ "d\<lparr>QuitFlag := True\<rparr>"]) (use assms in simp_all)
  with CancelTimer_eq [OF assms(2-5)] find stopped_timer_iff [OF sorted find]
    expired_timer_iff [OF sorted find] show ?thesis by auto
qed

theorem rearm_after_cancel_is_lost_witness:
  "\<exists>s1 s2. CancelSessionTokenTimerOnce (bearer_request ''a'' []) (sessions_a (Some ''a'')) = Inr (True, s1) \<and>
     SetSessionTokenTimerOnce 5 (bearer_request ''a'' []) () 180 s1 = Inr (True, s2) \<and>
     sm_find (timers s2) ''a'' = Some \<lparr>TimerCB = (), TimerStartAt = 0, Timeout = 180, QuitFlag = True\<rparr> \<and>
     (\<forall>later. ''a'' \<in> set (stopped_timers s2) \<and> ''a'' \<notin> set (expired_timers later s2))"
  using rearm_after_cancel_is_lost [of "sessions_a (Some ''a'')" "bearer_request ''a'' []" "''a''"
    "\<lparr>TimerCB = (), TimerStartAt = 0, Timeout = 180, QuitFlag = False\<rparr>" 5 "()" 180]
  by (simp add: sm_contains_def)

text \<open>C39 The two critical sections of \<open>SetActiveSessionToken\<close> do not make an atomic step. When the token is
  removed between them, the session becomes active without a lease, and from then on every request to
  become active and every check for the active session is refused, whatever its token.\<close>

theorem set_active_race_locks_out:
  assumes "wf_sessions s" "active s = None"
    and "CheckSessionToken now req res s = Inr (True, res1, s1)"
    and "RemoveSessionToken now' req' res' s1 = Inr (True, res2, s2)" "bearer_token req' = bearer_token req"
  shows "\<exists>t res3 s3. SetActive_commit req res1 s2 = Inr (True, res3, s3) \<and> active s3 = Some t \<and>
           \<not> sm_contains (leased s3) t \<and>
           (\<forall>now q r r' s4. SetActiveSessionToken now q r s3 \<noteq> Inr (True, r', s4)) \<and>
           (\<forall>now q r r' s4. CheckActiveSessionToken now q r s3 \<noteq> Inr (True, r', s4))"
proof -
  from assms(3) obtain t d where t: "bearer_token req = Inr t"
    and s1: "s1 = s\<lparr>leased := sm_assign t (d\<lparr>LastRequestAt := now\<rparr>) (leased s)\<rparr>"
    by (cases rule: CheckSessionToken_cases) auto
  from assms(1) s1 have sorted: "sm_sorted (leased s1)" by (simp add: wf_sessions_def)
  from assms(4) have s2: "active s2 = None \<and> \<not> sm_contains (leased s2) t"
  proof (cases rule: RemoveSessionToken_cases)
    case (accepted u e)
    with t assms(5) have "u = t" by simp
    with accepted(5) sorted s1 assms(2) show ?thesis by (simp add: sm_contains_erase)
  qed simp
  let ?s3 = "s2\<lparr>active := Some t\<rparr>"
  have "SetActive_commit req res1 s2 = Inr (True, res1\<lparr>res_status := Some OK\<rparr>, ?s3)"
    using t s2 by (simp add: SetActive_commit_def)
  moreover have "SetActiveSessionToken now q r ?s3 \<noteq> Inr (True, r', s4)" for now q r r' s4
  proof
    assume "SetActiveSessionToken now q r ?s3 = Inr (True, r', s4)"
    then show False
      by (cases rule: SetActiveSessionToken_cases) (use s2 in \<open>auto simp: sm_contains_def\<close>)
  qed
  moreover have "CheckActiveSessionToken now q r ?s3 \<noteq> Inr (True, r', s4)" for now q r r' s4
  proof
    assume "CheckActiveSessionToken now q r ?s3 = Inr (True, r', s4)"
    then show False by (cases rule: CheckActiveSessionToken_cases) (use s2 in auto)
  qed
  ultimately show ?thesis using s2 by auto
qed

theorem set_active_race_locks_out_witness:
  "\<exists>res1 s1 res2 s2 res3 s3.
     CheckSessionToken 5 (bearer_request ''a'' []) empty_response (sessions_a None) = Inr (True, res1, s1) \<and>
     RemoveSessionToken 6 (bearer_request ''a'' []) empty_response s1 = Inr (True, res2, s2) \<and>
     SetActive_commit (bearer_request ''a'' []) res1 s2 = Inr (True, res3, s3) \<and>
     active s3 = Some ''a'' \<and> leased s3 = [] \<and>
     (\<forall>now q r r' s4. SetActiveSessionToken now q r s3 \<noteq> Inr (True, r', s4))"
proof -
  let ?s1 = "(sessions_a None)\<lparr>leased := [(''a'', \<lparr>LastRequestAt = 5, StartAt = 0\<rparr>)]\<rparr>"
  let ?s2 = "?s1\<lparr>leased := []\<rparr>"
  let ?r = "empty_response\<lparr>res_status := Some OK\<rparr>"
  have auth: "has_authorization (bearer_request ''a'' [])"
    by (rule bearer_token_authorized [OF bearer_request_token])
  have c: "CheckSessionToken 5 (bearer_request ''a'' []) empty_response (sessions_a None) = Inr (True, ?r, ?s1)"
    using auth by (simp add: CheckSessionToken_def)
  have r: "RemoveSessionToken 6 (bearer_request ''a'' []) empty_response ?s1 = Inr (True, ?r, ?s2)"
    using auth by (simp add: RemoveSessionToken_def CheckSessionToken_def)
  have k: "SetActive_commit (bearer_request ''a'' []) ?r ?s2 = Inr (True, ?r, ?s2\<lparr>active := Some ''a''\<rparr>)"
    by (simp add: SetActive_commit_def)
  from set_active_race_locks_out [OF _ _ c r refl] k
  have "\<forall>now q r r' s4. SetActiveSessionToken now q r (?s2\<lparr>active := Some ''a''\<rparr>) \<noteq> Inr (True, r', s4)"
    by auto
  with c r k show ?thesis by fastforce
qed

end
