(* ===== verification/Connection.thy ===== *)
theory Connection
  imports Session
begin

section \<open>The connection manager\<close>

text \<open>
  \<open>src/connection_management.hpp\<close> and \<open>src/connection_management.cpp\<close>: the HTTP server of the
  daemon. The handlers the rest of the program registers are functions on the state \<open>'m\<close> they capture
  by reference (the configuration manager); they are kept per method in maps from identifiers. The
  server is the pair of that routing state and its session manager, so that the callbacks it gives
  to the session manager run on the same pair in the sweep.

  The HTTP library parses requests, picks the route, runs its handler in a thread of a pool, turns
  an exception of the handler into the status 500 and answers 404 where no route matches. A request
  reads the clock once in the model.
\<close>

abbreviation CANDIDATE :: string where "CANDIDATE \<equiv> ''/config/candidate''"
abbreviation RUNNING :: string where "RUNNING \<equiv> ''/config/running''"
abbreviation RUNNING_UPDATE :: string where "RUNNING_UPDATE \<equiv> ''/config/running/update''"
abbreviation RUNNING_DIFF :: string where "RUNNING_DIFF \<equiv> ''/config/running/diff''"
abbreviation TOKEN :: string where "TOKEN \<equiv> ''/session/token''"

text \<open>
  \<open>Client::post\<close> sends a body to a host; the transport is the parameter \<open>send\<close>, which gives the
  response or none. Any response counts as success, whatever its status.
\<close>

definition Client_post :: "(string \<Rightarrow> string \<Rightarrow> string \<Rightarrow> string \<Rightarrow> response option) \<Rightarrow>
    string \<Rightarrow> string \<Rightarrow> string \<Rightarrow> bool" where
  "Client_post send host_addr path body =
     (case send host_addr path body ''application/json'' of None \<Rightarrow> False | Some r \<Rightarrow> True)"

subsection \<open>The state\<close>

text \<open>
  A \<open>RequestCallback\<close> gets the path, the body and the data to return so far; it answers with a status
  and the data, or raises. What it changed stays changed when it raises.
\<close>

type_synonym 'm handler = "string \<Rightarrow> string \<Rightarrow> string \<Rightarrow> 'm \<Rightarrow> (http_status \<times> string, 'm) outcome"

record 'm routing =
  on_delete :: "(string, 'm handler) smap"
  on_get :: "(string, 'm handler) smap"
  on_post :: "(string, 'm handler) smap"
  on_put :: "(string, 'm handler) smap"
  manager :: 'm

datatype callback = RemoveSessionCB | CancelCandidateCB

type_synonym 'm server = "'m routing \<times> callback sessions"

definition Server_init :: "'m \<Rightarrow> 'm server" where
  "Server_init m =
     (\<lparr>on_delete = [], on_get = [], on_post = [], on_put = [], manager = m\<rparr>,
      snd (RegisterSessionTimeoutCallback ''HttpServer'' RemoveSessionCB (SessionManager_init 360)))"

definition addConnectionHandler ::
  "(string, 'm handler) smap \<Rightarrow> string \<Rightarrow> 'm handler \<Rightarrow> bool \<times> (string, 'm handler) smap" where
  "addConnectionHandler callbacks rid h = (True, sm_assign rid h callbacks)"

definition removeConnectionHandler ::
  "(string, 'm handler) smap \<Rightarrow> string \<Rightarrow> bool \<times> (string, 'm handler) smap" where
  "removeConnectionHandler callbacks rid = (True, sm_erase rid callbacks)"

definition addOnDeleteConnectionHandler :: "string \<Rightarrow> 'm handler \<Rightarrow> 'm routing \<Rightarrow> 'm routing" where
  "addOnDeleteConnectionHandler rid h w = w\<lparr>on_delete := snd (addConnectionHandler (on_delete w) rid h)\<rparr>"

definition removeOnDeleteConnectionHandler :: "string \<Rightarrow> 'm routing \<Rightarrow> 'm routing" where
  "removeOnDeleteConnectionHandler rid w = w\<lparr>on_delete := snd (removeConnectionHandler (on_delete w) rid)\<rparr>"

definition addOnGetConnectionHandler :: "string \<Rightarrow> 'm handler \<Rightarrow> 'm routing \<Rightarrow> 'm routing" where
  "addOnGetConnectionHandler rid h w = w\<lparr>on_get := snd (addConnectionHandler (on_get w) rid h)\<rparr>"

definition removeOnGetConnectionHandler :: "string \<Rightarrow> 'm routing \<Rightarrow> 'm routing" where
  "removeOnGetConnectionHandler rid w = w\<lparr>on_get := snd (removeConnectionHandler (on_get w) rid)\<rparr>"

definition addOnPostConnectionHandler :: "string \<Rightarrow> 'm handler \<Rightarrow> 'm routing \<Rightarrow> 'm routing" where
  "addOnPostConnectionHandler rid h w = w\<lparr>on_post := snd (addConnectionHandler (on_post w) rid h)\<rparr>"

definition removeOnPostConnectionHandler :: "string \<Rightarrow> 'm routing \<Rightarrow> 'm routing" where
  "removeOnPostConnectionHandler rid w = w\<lparr>on_post := snd (removeConnectionHandler (on_post w) rid)\<rparr>"

definition addOnPutConnectionHandler :: "string \<Rightarrow> 'm handler \<Rightarrow> 'm routing \<Rightarrow> 'm routing" where
  "addOnPutConnectionHandler rid h w = w\<lparr>on_put := snd (addConnectionHandler (on_put w) rid h)\<rparr>"

definition removeOnPutConnectionHandler :: "string \<Rightarrow> 'm routing \<Rightarrow> 'm routing" where
  "removeOnPutConnectionHandler rid w = w\<lparr>on_put := snd (removeConnectionHandler (on_put w) rid)\<rparr>"

subsection \<open>Requests to the registered handlers\<close>

text \<open>
  \<open>processRequest\<close> asks the handlers of the method in the order of their identifiers until one
  answers with another status than \<open>INTERNAL_SUCCESS\<close>.
\<close>

fun run_handlers ::
  "string \<Rightarrow> string \<Rightarrow> 'm handler list \<Rightarrow> http_status \<Rightarrow> string \<Rightarrow> 'm \<Rightarrow> (http_status \<times> string, 'm) outcome" where
  "run_handlers path data [] status ret m = (Inr (status, ret), m)"
| "run_handlers path data (h # hs) status ret m =
     sbind (h path data ret m) (\<lambda>(status', ret') m'.
       if status' = INTERNAL_SUCCESS then run_handlers path data hs status' ret' m'
       else (Inr (status', ret'), m'))"

definition handlers_of :: "http_method \<Rightarrow> 'm routing \<Rightarrow> (string, 'm handler) smap" where
  "handlers_of meth w =
     (case meth of GET \<Rightarrow> on_get w | POST \<Rightarrow> on_post w | PUT \<Rightarrow> on_put w | DEL \<Rightarrow> on_delete w)"

definition processRequest ::
  "http_method \<Rightarrow> string \<Rightarrow> string \<Rightarrow> string \<Rightarrow> 'm routing \<Rightarrow> (http_status \<times> string, 'm routing) outcome" where
  "processRequest meth path data ret w =
     (case run_handlers path data (map snd (handlers_of meth w)) INTERNAL_SERVER_ERROR ret (manager w) of
        (r, m) \<Rightarrow> (r, w\<lparr>manager := m\<rparr>))"

definition answer :: "http_status \<times> string \<Rightarrow> response \<Rightarrow> response" where
  "answer = (\<lambda>(status, data) res.
     res\<lparr>res_status := Some status,
         res_content := (if IsSuccess status then data else ''Failed'')\<rparr>)"

subsection \<open>The routes\<close>

definition with_sessions :: "callback answer \<Rightarrow> 'm server \<Rightarrow> (response, 'm server) outcome" where
  "with_sessions r sv = (case r of
       Inl e \<Rightarrow> (Inl e, sv)
     | Inr (ok, res, s) \<Rightarrow> (Inr res, (fst sv, s)))"

definition post_token :: "time_point \<Rightarrow> request \<Rightarrow> 'm server \<Rightarrow> (response, 'm server) outcome" where
  "post_token now req sv =
     with_sessions (Inr (RegisterSessionToken now req empty_response (snd sv))) sv"

definition delete_token :: "time_point \<Rightarrow> request \<Rightarrow> 'm server \<Rightarrow> (response, 'm server) outcome" where
  "delete_token now req sv =
     with_sessions (RemoveSessionToken now req empty_response (snd sv)) sv"

definition get_running :: "request \<Rightarrow> 'm server \<Rightarrow> (response, 'm server) outcome" where
  "get_running req = (\<lambda>(w, s).
     (case processRequest GET RUNNING (req_body req) [] w of
        (Inl e, w') \<Rightarrow> (Inl e, (w', s))
      | (Inr (status, data), w') \<Rightarrow>
          (Inr (if status \<noteq> INTERNAL_SUCCESS
                then \<lparr>res_status = Some OK, res_content = data\<rparr>
                else \<lparr>res_status = Some INTERNAL_SERVER_ERROR, res_content = ''Failed''\<rparr>), (w', s))))"

text \<open>The body of a handler that forwards the request to the registered handlers.\<close>

definition forward ::
  "http_method \<Rightarrow> string \<Rightarrow> request \<Rightarrow> 'm routing \<Rightarrow> callback sessions \<Rightarrow> response \<Rightarrow>
   (response, 'm server) outcome" where
  "forward meth path req w s res =
     (case processRequest meth path (req_body req) [] w of
        (Inl e, w') \<Rightarrow> (Inl e, (w', s))
      | (Inr x, w') \<Rightarrow> (Inr (answer x res), (w', s)))"

definition cancel_timer_then ::
  "('m routing \<Rightarrow> callback sessions \<Rightarrow> response \<Rightarrow> (response, 'm server) outcome) \<Rightarrow>
   request \<Rightarrow> 'm routing \<Rightarrow> callback sessions \<Rightarrow> response \<Rightarrow> (response, 'm server) outcome" where
  "cancel_timer_then body req w s res =
     (case CancelSessionTokenTimerOnce req s of
        Inl e \<Rightarrow> (Inl e, (w, s))
      | Inr (ok, s') \<Rightarrow> body w s' res)"

definition update_body ::
  "time_point \<Rightarrow> request \<Rightarrow> 'm routing \<Rightarrow> callback sessions \<Rightarrow> response \<Rightarrow> (response, 'm server) outcome" where
  "update_body now req w s res =
     sbind (forward POST RUNNING_UPDATE req w s res) (\<lambda>res' (w', s').
       case SetSessionTokenTimerOnce now req CancelCandidateCB 180 s' of
         Inl e \<Rightarrow> (Inl e, (w', s'))
       | Inr (ok, s'') \<Rightarrow> (Inr res', (w', s'')))"

definition post_running_update :: "time_point \<Rightarrow> request \<Rightarrow> 'm server \<Rightarrow> (response, 'm server) outcome" where
  "post_running_update now req =
     guarded (SetActiveSessionToken now) (cancel_timer_then (update_body now req) req) req empty_response"

definition post_running_diff :: "request \<Rightarrow> 'm server \<Rightarrow> (response, 'm server) outcome" where
  "post_running_diff req = (\<lambda>(w, s). forward POST RUNNING_DIFF req w s empty_response)"

definition get_candidate :: "time_point \<Rightarrow> request \<Rightarrow> 'm server \<Rightarrow> (response, 'm server) outcome" where
  "get_candidate now req =
     guarded (CheckActiveSessionToken now) (forward GET CANDIDATE req) req empty_response"

definition put_candidate :: "time_point \<Rightarrow> request \<Rightarrow> 'm server \<Rightarrow> (response, 'm server) outcome" where
  "put_candidate now req =
     guarded (CheckActiveSessionToken now) (cancel_timer_then (forward PUT CANDIDATE req) req) req empty_response"

definition delete_candidate :: "time_point \<Rightarrow> request \<Rightarrow> 'm server \<Rightarrow> (response, 'm server) outcome" where
  "delete_candidate now req =
     guarded (CheckActiveSessionToken now) (cancel_timer_then (forward DEL CANDIDATE req) req) req empty_response"

text \<open>The table of routes of \<open>Server::Run\<close>.\<close>

definition route ::
  "time_point \<Rightarrow> http_method \<Rightarrow> string \<Rightarrow> request \<Rightarrow> 'm server \<Rightarrow> (response, 'm server) outcome option" where
  "route now meth path req sv =
     (if path = TOKEN \<and> meth = POST then Some (post_token now req sv)
      else if path = TOKEN \<and> meth = DEL then Some (delete_token now req sv)
      else if path = RUNNING \<and> meth = GET then Some (get_running req sv)
      else if path = RUNNING_UPDATE \<and> meth = POST then Some (post_running_update now req sv)
      else if path = RUNNING_DIFF \<and> meth = POST then Some (post_running_diff req sv)
      else if path = CANDIDATE \<and> meth = GET then Some (get_candidate now req sv)
      else if path = CANDIDATE \<and> meth = PUT then Some (put_candidate now req sv)
      else if path = CANDIDATE \<and> meth = DEL then Some (delete_candidate now req sv)
      else None)"

definition serve ::
  "time_point \<Rightarrow> http_method \<Rightarrow> string \<Rightarrow> request \<Rightarrow> 'm server \<Rightarrow> (response \<times> 'm server) option" where
  "serve now meth path req sv =
     (case route now meth path req sv of
        None \<Rightarrow> None
      | Some (Inl e, sv') \<Rightarrow> Some (\<lparr>res_status = Some INTERNAL_SERVER_ERROR, res_content = []\<rparr>, sv')
      | Some (Inr res, sv') \<Rightarrow> Some (res, sv'))"

subsection \<open>The callbacks given to the session manager\<close>

definition run_callback :: "time_point \<Rightarrow> ('m routing, callback) runner" where
  "run_callback now cb t = (\<lambda>(w, s). case cb of
       RemoveSessionCB \<Rightarrow> rbind (RemoveSessionToken_str now t s) (\<lambda>(ok, res, s'). Inr (w, s'))
     | CancelCandidateCB \<Rightarrow>
         (case processRequest DEL CANDIDATE [] [] w of
            (Inl e, w') \<Rightarrow> Inl e
          | (Inr x, w') \<Rightarrow> Inr (w', snd (RemoveActiveSessionToken t s))))"

definition server_sweep :: "time_point \<Rightarrow> 'm server \<Rightarrow> 'm server result" where
  "server_sweep now = sweep (run_callback now) now"

subsection \<open>What the session timeout callback does\<close>

lemma bearer_token_built:
  "bearer_token \<lparr>req_headers = [(AUTHORIZATION, BEARER @ '' '' @ t)], req_body = b\<rparr> = Inr t"
  by (simp add: bearer_token_def get_header_value_def same_header_def substr_def)

lemma sm_erase_assign: "sm_sorted m \<Longrightarrow> sm_erase t (sm_assign t d m) = sm_erase t m"
  by (rule smap_eqI) (auto simp: fun_eq_iff)

lemma RemoveSessionToken_str_eq:
  assumes "wf_sessions s"
  shows "RemoveSessionToken_str now t s =
    (if has_crlf t then Inr (False, empty_response\<lparr>res_status := Some TOKEN_REQUIRED\<rparr>, s)
     else if \<not> sm_contains (leased s) t
     then Inr (False, empty_response\<lparr>res_status := Some INVALID_TOKEN\<rparr>, s)
     else Inr (True, empty_response\<lparr>res_status := Some OK\<rparr>,
               s\<lparr>leased := sm_erase t (leased s),
                 active := (if active s = Some t then None else active s)\<rparr>))"
proof (cases "has_crlf t")
  case True
  then show ?thesis
    by (simp add: RemoveSessionToken_str_def set_header_def has_crlf_def RemoveSessionToken_def
        CheckSessionToken_def has_authorization_def)
next
  case False
  then have "\<not> has_crlf (BEARER @ '' '' @ t)" "\<not> has_crlf AUTHORIZATION"
    by (auto simp: has_crlf_def)
  then have req: "set_header AUTHORIZATION (BEARER @ '' '' @ t) \<lparr>req_headers = [], req_body = []\<rparr>
                = \<lparr>req_headers = [(AUTHORIZATION, BEARER @ '' '' @ t)], req_body = []\<rparr>"
    unfolding set_header_def by simp
  note b = bearer_token_built [of t "[]"]
  show ?thesis
    unfolding RemoveSessionToken_str_def req RemoveSessionToken_def CheckSessionToken_def b
    using False assms bearer_token_authorized [OF b]
    by (cases "sm_find (leased s) t")
       (auto simp: sm_contains_def sm_erase_assign wf_sessions_def)
qed

lemma run_RemoveSessionCB:
  assumes "wf_sessions s" "active s = Some t \<Longrightarrow> sm_contains (leased s) t \<and> \<not> has_crlf t"
  shows "\<exists>s'. run_callback now RemoveSessionCB t (w, s) = Inr (w, s') \<and>
              s'\<lparr>leased := sm_erase t (leased s')\<rparr> =
              s\<lparr>leased := sm_erase t (leased s), active := (if active s = Some t then None else active s)\<rparr>"
proof -
  have "sm_erase t (sm_erase t (leased s)) = sm_erase t (leased s)"
    using assms(1) by (intro smap_eqI) (auto simp: fun_eq_iff wf_sessions_def)
  then show ?thesis
    using assms by (auto simp: run_callback_def RemoveSessionToken_str_eq)
qed

subsection \<open>The invariant of the server\<close>

text \<open>
  The maps are ordered maps, the only session timeout callback is the one the server registered, every
  timer cancels the candidate, and the active token is leased and can be written into a header. The last part is what the timeout
  callback needs: it removes a token by way of a request with the token in its header.
\<close>

definition timers_cancel :: "callback sessions \<Rightarrow> bool" where
  "timers_cancel s \<longleftrightarrow> (\<forall>t d. sm_find (timers s) t = Some d \<longrightarrow> TimerCB d = CancelCandidateCB)"

lemma timers_cancel_cong: "timers s' = timers s \<Longrightarrow> timers_cancel s' = timers_cancel s"
  by (simp add: timers_cancel_def)

lemma timers_cancel_update [simp]:
  "timers_cancel (s\<lparr>leased := l\<rparr>) = timers_cancel s"
  "timers_cancel (s\<lparr>active := a\<rparr>) = timers_cancel s"
  by (simp_all add: timers_cancel_def)

lemma timers_cancel_erase [simp]:
  "sm_sorted (timers s) \<Longrightarrow> timers_cancel s \<Longrightarrow> timers_cancel (s\<lparr>timers := sm_erase t (timers s)\<rparr>)"
  "sm_sorted (timers s) \<Longrightarrow> timers_cancel s \<Longrightarrow> timers_cancel (s\<lparr>timers := fold sm_erase ts (timers s)\<rparr>)"
  by (simp_all add: timers_cancel_def sm_find_fold_erase)

definition server_inv :: "'m server \<Rightarrow> bool" where
  "server_inv sv \<longleftrightarrow> wf_sessions (snd sv) \<and>
     timeout_callbacks (snd sv) = [(''HttpServer'', RemoveSessionCB)] \<and>
     (\<forall>t. active (snd sv) = Some t \<longrightarrow> sm_contains (leased (snd sv)) t \<and> \<not> has_crlf t) \<and>
     timers_cancel (snd sv)"

lemma wf_sessions_erase:
  "wf_sessions s \<Longrightarrow> wf_sessions (s\<lparr>leased := sm_erase t (leased s), active := a\<rparr>)"
  "wf_sessions s \<Longrightarrow> wf_sessions (s\<lparr>timers := sm_erase t (timers s)\<rparr>)"
  by (simp_all add: wf_sessions_def)

lemma server_inv_expire:
  assumes "server_inv (w, s)"
  shows "server_inv (w, s\<lparr>leased := sm_erase t (leased s),
                          active := (if active s = Some t then None else active s)\<rparr>)"
  using assms by (auto simp: server_inv_def wf_sessions_def sm_contains_erase)

text \<open>The first loop of the sweep removes exactly the given sessions.\<close>

lemma expire_sessions_server:
  assumes "server_inv (w, s)"
  shows "expire_sessions (run_callback now) ts (w, s) =
    Inr (w, s\<lparr>leased := fold sm_erase ts (leased s),
              active := (if \<exists>t \<in> set ts. active s = Some t then None else active s)\<rparr>)"
  using assms
proof (induction ts arbitrary: s)
  case Nil
  then show ?case by simp
next
  case (Cons t ts)
  let ?s = "s\<lparr>leased := sm_erase t (leased s), active := (if active s = Some t then None else active s)\<rparr>"
  from Cons.prems have cb: "timeout_callbacks s = [(''HttpServer'', RemoveSessionCB)]"
    and wf: "wf_sessions s" and a: "active s = Some t \<Longrightarrow> sm_contains (leased s) t \<and> \<not> has_crlf t"
    by (auto simp: server_inv_def)
  from run_RemoveSessionCB [OF wf a] obtain s'
    where "run_callback now RemoveSessionCB t (w, s) = Inr (w, s')"
      and eq: "s'\<lparr>leased := sm_erase t (leased s')\<rparr> = ?s" by blast
  then have "expire_sessions (run_callback now) (t # ts) (w, s) = expire_sessions (run_callback now) ts (w, ?s)"
    using cb by simp
  also have "\<dots> = Inr (w, ?s\<lparr>leased := fold sm_erase ts (leased ?s),
       active := (if \<exists>u \<in> set ts. active ?s = Some u then None else active ?s)\<rparr>)"
    by (rule Cons.IH [OF server_inv_expire [OF Cons.prems]])
  also have "(if \<exists>u \<in> set ts. active ?s = Some u then None else active ?s) =
             (if \<exists>u \<in> set (t # ts). active s = Some u then None else active s)"
    by auto
  finally show ?case by simp
qed

lemma server_inv_expire_all:
  assumes "server_inv (w, s)"
  shows "server_inv (w, s\<lparr>leased := fold sm_erase ts (leased s),
     active := (if \<exists>t \<in> set ts. active s = Some t then None else active s)\<rparr>)"
  using assms by (auto simp: server_inv_def wf_sessions_def sm_sorted_fold_erase sm_contains_fold_erase)

lemma server_inv_erase_timers: "server_inv (w, s) \<Longrightarrow> server_inv (w, erase_timers ts s)"
  by (auto simp: server_inv_def wf_sessions_def erase_timers_def sm_sorted_fold_erase)

text \<open>A callback that runs from a timer keeps the leases and the callbacks, and at most ends the active session.\<close>

lemma run_timer_callback:
  assumes "run_callback now cb t (w, s) = Inr (w', s')" "server_inv (w, s)"
  shows "server_inv (w', s')"
proof (cases cb)
  case RemoveSessionCB
  from assms(2) have wf: "wf_sessions s" by (simp add: server_inv_def)
  show ?thesis
    using assms RemoveSessionCB server_inv_expire [OF assms(2), of t]
    by (auto simp: run_callback_def RemoveSessionToken_str_eq [OF wf] server_inv_def split: if_splits)
next
  case CancelCandidateCB
  with assms show ?thesis
    by (auto simp: run_callback_def server_inv_def RemoveActiveSessionToken_def wf_sessions_def
             split: prod.splits sum.splits option.splits if_splits)
qed

lemma server_inv_erase_timer:
  "server_inv (w, s) \<Longrightarrow> server_inv (w', s\<lparr>timers := sm_erase t (timers s)\<rparr>)"
  by (auto simp: server_inv_def wf_sessions_def)

lemma fire_timers_inv:
  "fire_timers (run_callback now) ts st = Inr st' \<Longrightarrow> server_inv st \<Longrightarrow> server_inv st'"
proof (induction ts arbitrary: st)
  case Nil
  then show ?case by simp
next
  case (Cons t ts)
  obtain d where d: "sm_find (timers (snd st)) t = Some d"
    using Cons.prems(1) by (cases "sm_find (timers (snd st)) t") auto
  with Cons.prems(1) obtain p where p: "run_callback now (TimerCB d) t st = Inr p"
    and "(\<lambda>(w, s). fire_timers (run_callback now) ts (w, s\<lparr>timers := sm_erase t (timers s)\<rparr>)) p = Inr st'"
    by (auto simp: rbind_eq_Inr)
  moreover obtain w s where ws: "p = (w, s)" by (cases p)
  ultimately have k: "fire_timers (run_callback now) ts (w, s\<lparr>timers := sm_erase t (timers s)\<rparr>) = Inr st'"
    by simp
  from p ws have "server_inv (w, s)"
    using run_timer_callback [of now "TimerCB d" t "fst st" "snd st" w s] Cons.prems(2) by simp
  with Cons.IH [OF k] server_inv_erase_timer [of w s w t] show ?case by simp
qed

lemma run_timer_leased:
  assumes "run_callback now cb t (w, s) = Inr (w', s')" "cb = CancelCandidateCB"
  shows "leased s' = leased s" "timers s' = timers s"
    "active s' = (if active s = Some t then None else active s)"
    "processRequest DEL CANDIDATE [] [] w = (r, w'') \<Longrightarrow> w' = w''"
  using assms
  by (auto simp: run_callback_def RemoveActiveSessionToken_def split: prod.splits sum.splits option.splits if_splits)

lemma fire_timers_step:
  assumes "fire_timers (run_callback now) (t # ts) (w, s) = Inr st'" "server_inv (w, s)"
  obtains d w1 s1 where "sm_find (timers s) t = Some d"
    "run_callback now CancelCandidateCB t (w, s) = Inr (w1, s1)"
    "fire_timers (run_callback now) ts (w1, s1\<lparr>timers := sm_erase t (timers s1)\<rparr>) = Inr st'"
    "server_inv (w1, s1\<lparr>timers := sm_erase t (timers s1)\<rparr>)"
proof -
  note g = that
  obtain d where d: "sm_find (timers s) t = Some d"
    using assms(1) by (cases "sm_find (timers s) t") auto
  with assms(2) have cb: "TimerCB d = CancelCandidateCB"
    by (simp add: server_inv_def timers_cancel_def)
  from d cb assms(1) obtain p where p: "run_callback now CancelCandidateCB t (w, s) = Inr p"
    and k: "(\<lambda>(w, s). fire_timers (run_callback now) ts (w, s\<lparr>timers := sm_erase t (timers s)\<rparr>)) p = Inr st'"
    by (auto simp: rbind_eq_Inr)
  obtain w1 s1 where ws: "p = (w1, s1)" by (cases p)
  with p have "server_inv (w1, s1)" using run_timer_callback assms(2) by blast
  then have "server_inv (w1, s1\<lparr>timers := sm_erase t (timers s1)\<rparr>)" by (rule server_inv_erase_timer)
  with d p k ws show ?thesis by (intro g [of d w1 s1]) simp_all
qed

lemma fire_timers_leased:
  "fire_timers (run_callback now) ts (w, s) = Inr (w', s') \<Longrightarrow> server_inv (w, s) \<Longrightarrow>
   leased s' = leased s \<and> active s' = (if \<exists>t \<in> set ts. active s = Some t then None else active s)"
proof (induction ts arbitrary: w s)
  case Nil
  then show ?case by simp
next
  case (Cons t ts)
  from Cons.prems obtain d w1 s1 where
    r: "run_callback now CancelCandidateCB t (w, s) = Inr (w1, s1)"
    and f: "fire_timers (run_callback now) ts (w1, s1\<lparr>timers := sm_erase t (timers s1)\<rparr>) = Inr (w', s')"
      "server_inv (w1, s1\<lparr>timers := sm_erase t (timers s1)\<rparr>)"
    by (rule fire_timers_step)
  from Cons.IH [OF f] run_timer_leased(1,3) [OF r refl] show ?case by auto
qed

lemma server_sweep_cases:
  assumes "server_sweep now (w, s) = Inr (w', s')" "server_inv (w, s)"
  obtains (quit) "quit_flag s" "w' = w" "s' = s"
  | (swept) s1 where "\<not> quit_flag s"
      "s1 = s\<lparr>leased := fold sm_erase (expired_sessions now s) (leased s),
              active := (if \<exists>t \<in> set (expired_sessions now s). active s = Some t then None else active s)\<rparr>"
      "server_inv (w, erase_timers (stopped_timers s1) s1)"
      "fire_timers (run_callback now) (expired_timers now s1) (w, erase_timers (stopped_timers s1) s1)
       = Inr (w', s')"
proof (cases "quit_flag s")
  case True
  with assms(1) have "w' = w" "s' = s" by (simp_all add: server_sweep_def sweep_def)
  with True show ?thesis by (rule quit)
next
  case False
  let ?s = "s\<lparr>leased := fold sm_erase (expired_sessions now s) (leased s),
     active := (if \<exists>t \<in> set (expired_sessions now s). active s = Some t then None else active s)\<rparr>"
  from assms(1) have f: "fire_timers (run_callback now) (expired_timers now ?s)
      (w, erase_timers (stopped_timers ?s) ?s) = Inr (w', s')"
    by (simp only: server_sweep_def sweep_def snd_conv False if_False
        expire_sessions_server [OF assms(2)] rbind_simps prod.case)
  have "server_inv (w, erase_timers (stopped_timers ?s) ?s)"
    by (rule server_inv_erase_timers [OF server_inv_expire_all [OF assms(2)]])
  from swept [OF False refl this f] show ?thesis .
qed

lemma server_sweep_inv:
  assumes "server_sweep now st = Inr st'" "server_inv st"
  shows "server_inv st'"
proof -
  obtain w s w' s' where eq: "st = (w, s)" "st' = (w', s')" by (cases st; cases st')
  with assms have a: "server_sweep now (w, s) = Inr (w', s')" and b: "server_inv (w, s)" by simp_all
  from a b show ?thesis
    unfolding eq by (cases rule: server_sweep_cases) (use b in \<open>auto intro: fire_timers_inv\<close>)
qed

subsection \<open>What the bodies of the handlers keep\<close>

definition timers_only :: "callback sessions \<Rightarrow> callback sessions \<Rightarrow> bool" where
  "timers_only s s' \<longleftrightarrow>
     (\<exists>ts. s' = s\<lparr>timers := ts\<rparr> \<and> (sm_sorted (timers s) \<longrightarrow> sm_sorted ts)) \<and>
     (timers_cancel s \<longrightarrow> timers_cancel s')"

lemma timers_only_refl [simp]: "timers_only s s"
  unfolding timers_only_def by (intro conjI exI [of _ "timers s"]) simp_all

lemma timers_only_trans: "timers_only s s' \<Longrightarrow> timers_only s' s'' \<Longrightarrow> timers_only s s''"
  by (auto simp: timers_only_def)

lemma timers_only_fields:
  assumes "timers_only s s'"
  shows "active s' = active s" "leased s' = leased s" "timeout_callbacks s' = timeout_callbacks s"
    "quit_flag s' = quit_flag s" "wf_sessions s \<Longrightarrow> wf_sessions s'" "timers_cancel s \<Longrightarrow> timers_cancel s'"
  using assms by (auto simp: timers_only_def wf_sessions_def)

lemma forward_result:
  assumes "forward meth path req w s res = (r, (w', s'))"
  shows "s' = s"
  using assms by (auto simp: forward_def split: prod.splits sum.splits)

lemma cancel_timer_timers_only:
  "CancelSessionTokenTimerOnce req s = Inr (ok, s') \<Longrightarrow> timers_only s s'"
  by (erule CancelTimer_cases) (auto simp: timers_only_def timers_cancel_def)

lemma set_timer_timers_only:
  "SetSessionTokenTimerOnce now req CancelCandidateCB n s = Inr (ok, s') \<Longrightarrow> timers_only s s'"
  by (erule SetTimer_cases) (auto simp: timers_only_def timers_cancel_def intro: exI [of _ "timers s"])

lemma cancel_timer_then_cases:
  assumes "cancel_timer_then body req w s res = (r, (w', s'))"
  obtains (raised) e where "r = Inl e" "w' = w" "s' = s"
  | (ran) s1 where "timers_only s s1" "body w s1 res = (r, (w', s'))"
  using assms
  by (auto simp: cancel_timer_then_def split: sum.splits prod.splits intro: cancel_timer_timers_only)

lemma update_body_timers_only:
  assumes "update_body now req w s res = (r, (w', s'))"
  shows "timers_only s s'"
proof -
  obtain r1 w1 s1 where f: "forward POST RUNNING_UPDATE req w s res = (r1, (w1, s1))"
    by (metis prod.exhaust)
  then have "s1 = s" by (rule forward_result)
  with f assms show ?thesis
    by (cases r1)
       (auto simp: update_body_def split: sum.splits prod.splits intro: set_timer_timers_only)
qed

lemma cancel_forward_timers_only:
  assumes "cancel_timer_then (forward meth path req) req w s res = (r, (w', s'))"
  shows "timers_only s s'"
  using assms by (cases rule: cancel_timer_then_cases) (auto dest: forward_result)

lemma cancel_update_timers_only:
  assumes "cancel_timer_then (update_body now req) req w s res = (r, (w', s'))"
  shows "timers_only s s'"
  using assms
  by (cases rule: cancel_timer_then_cases) (auto dest: update_body_timers_only intro: timers_only_trans)

text \<open>
  The routes that change the candidate or the running configuration. Each is a guarded handler whose
  body leaves the sessions alone but for the timers.
\<close>

definition config_route :: "http_method \<Rightarrow> string \<Rightarrow> bool" where
  "config_route meth path \<longleftrightarrow>
     path = RUNNING_UPDATE \<and> meth = POST \<or> path = CANDIDATE \<and> meth \<in> {GET, PUT, DEL}"

text \<open>What a request on such a route did: nothing but an answer, or its token is leased and active.\<close>

definition config_effect ::
  "request \<Rightarrow> 'm server \<Rightarrow> response result \<Rightarrow> 'm server \<Rightarrow> bool" where
  "config_effect req = (\<lambda>(w, s) r (w', s').
     w' = w \<and> active s' = active s \<and> same_sessions s s' \<and>
       (\<forall>res. r = Inr res \<longrightarrow> (\<exists>c. res_status res = Some c \<and> \<not> IsSuccess c))
     \<or> (\<exists>t s1. bearer_token req = Inr t \<and> sm_contains (leased s) t \<and>
          (active s = None \<or> active s = Some t) \<and> active s1 = Some t \<and> same_sessions s s1 \<and>
          timers_only s1 s'))"

lemma set_active_handler:
  assumes "guarded (SetActiveSessionToken now) body req res0 (w, s) = (r, (w', s'))"
    and "\<And>s1 res1. body w s1 res1 = (r, (w', s')) \<Longrightarrow> timers_only s1 s'"
  shows "config_effect req (w, s) r (w', s')"
  using assms(1)
proof (cases rule: set_active.guarded_cases)
  case (passed t res1 s1)
  from passed(5) passed(1) have "active s = None \<or> active s = Some t"
    by (cases rule: SetActiveSessionToken_cases) auto
  with passed assms(2) show ?thesis by (auto simp: config_effect_def)
qed (auto simp: config_effect_def)

lemma check_active_handler:
  assumes "guarded (CheckActiveSessionToken now) body req res0 (w, s) = (r, (w', s'))"
    and "\<And>s1 res1. body w s1 res1 = (r, (w', s')) \<Longrightarrow> timers_only s1 s'"
  shows "config_effect req (w, s) r (w', s')"
  using assms(1)
proof (cases rule: check_active.guarded_cases)
  case (passed t res1 s1)
  from passed(5) passed(1) have "active s = Some t"
    by (cases rule: CheckActiveSessionToken_cases) auto
  with passed assms(2) show ?thesis by (auto simp: config_effect_def)
qed (auto simp: config_effect_def)

lemma config_route_effect:
  assumes "route now meth path req (w, s) = Some (r, (w', s'))" "config_route meth path"
  shows "config_effect req (w, s) r (w', s')"
proof -
  from assms(2) consider "path = RUNNING_UPDATE" "meth = POST" | "path = CANDIDATE" "meth = GET"
    | "path = CANDIDATE" "meth = PUT" | "path = CANDIDATE" "meth = DEL"
    by (auto simp: config_route_def)
  then show ?thesis
  proof cases
    case 1
    with assms(1) show ?thesis
      by (simp add: route_def post_running_update_def)
         (erule set_active_handler, erule cancel_update_timers_only)
  next
    case 2
    with assms(1) show ?thesis
      by (simp add: route_def get_candidate_def)
         (erule check_active_handler, drule forward_result, simp)
  next
    case 3
    with assms(1) show ?thesis
      by (simp add: route_def put_candidate_def)
         (erule check_active_handler, erule cancel_forward_timers_only)
  next
    case 4
    with assms(1) show ?thesis
      by (simp add: route_def delete_candidate_def)
         (erule check_active_handler, erule cancel_forward_timers_only)
  qed
qed

subsection \<open>The server as a state machine\<close>

text \<open>
  A request whose authorization header has no line break: the library reads header values up to the
  line break, but it also decodes percent-escapes in them, so this is a condition on the client.
\<close>

definition plain_request :: "request \<Rightarrow> bool" where
  "plain_request req \<longleftrightarrow> \<not> has_crlf (get_header_value AUTHORIZATION req)"

lemma plain_request_token: "plain_request req \<Longrightarrow> bearer_token req = Inr t \<Longrightarrow> \<not> has_crlf t"
  by (auto simp: plain_request_def bearer_token_def has_crlf_def substr_def
           dest: in_set_dropD in_set_takeD split: if_splits)

inductive server_step :: "'m server \<Rightarrow> 'm server \<Rightarrow> bool" where
  request: "plain_request req \<Longrightarrow> serve now meth path req sv = Some (res, sv') \<Longrightarrow> server_step sv sv'"
| sweep: "server_sweep now sv = Inr sv' \<Longrightarrow> server_step sv sv'"

lemma serve_route:
  assumes "serve now meth path req sv = Some (res, sv')"
  obtains r where "route now meth path req sv = Some (r, sv')"
    "\<forall>res'. r = Inr res' \<longrightarrow> res = res'" "\<forall>e. r = Inl e \<longrightarrow> res_status res = Some INTERNAL_SERVER_ERROR"
proof (cases "route now meth path req sv")
  case None
  with assms show ?thesis by (simp add: serve_def)
next
  case (Some p)
  then show ?thesis using assms that by (cases p; cases "fst p") (auto simp: serve_def)
qed

lemma same_sessions_inv:
  assumes "same_sessions s s1" "timers_only s1 s'" "server_inv (w, s)"
    "\<And>t. active s' = Some t \<Longrightarrow> sm_contains (leased s) t \<and> \<not> has_crlf t"
  shows "server_inv (w', s')"
  using assms timers_only_fields [OF assms(2)] timers_cancel_cong [of s1 s]
  by (auto simp: server_inv_def same_sessions_def)

lemma config_effect_inv:
  assumes eff: "config_effect req (w, s) r (w', s')" and inv: "server_inv (w, s)" and p: "plain_request req"
  shows "server_inv (w', s')"
proof -
  from eff consider (refused) "active s' = active s" "same_sessions s s'"
    | (passed) t s1 where "bearer_token req = Inr t" "sm_contains (leased s) t" "active s1 = Some t"
        "same_sessions s s1" "timers_only s1 s'"
    by (auto simp: config_effect_def)
  then show ?thesis
  proof cases
    case refused
    from refused(2) timers_only_refl inv show ?thesis
      by (rule same_sessions_inv) (use refused inv in \<open>auto simp: server_inv_def\<close>)
  next
    case (passed t s1)
    from passed(4,5) inv show ?thesis
      by (rule same_sessions_inv)
         (use passed plain_request_token [OF p] timers_only_fields(1) [OF passed(5)] in auto)
  qed
qed

lemma register_inv:
  assumes "RegisterSessionToken now req res s = (ok, res', s')" "server_inv (w, s)"
  shows "server_inv (w', s')"
  using assms by (auto simp: RegisterSessionToken_def server_inv_def wf_sessions_def split: if_splits)

lemma remove_inv:
  assumes r: "RemoveSessionToken now req res s = Inr (ok, res', s')" and inv: "server_inv (w, s)"
  shows "server_inv (w', s')"
  using r
proof (cases rule: RemoveSessionToken_cases)
  case (refused c)
  with inv show ?thesis by (simp add: server_inv_def)
next
  case (accepted t d)
  with inv show ?thesis by (auto simp: server_inv_def wf_sessions_def sm_contains_erase)
qed

text \<open>The other routes: the two on sessions, and the two that only read.\<close>

lemma route_inv:
  assumes r: "route now meth path req (w, s) = Some (r, (w', s'))" and inv: "server_inv (w, s)"
    and p: "plain_request req"
  shows "server_inv (w', s')"
proof (cases "config_route meth path")
  case True
  with config_route_effect [OF r] inv p show ?thesis by (blast intro: config_effect_inv)
next
  case False
  with r consider "post_token now req (w, s) = (r, (w', s'))"
    | "delete_token now req (w, s) = (r, (w', s'))"
    | "get_running req (w, s) = (r, (w', s'))"
    | "post_running_diff req (w, s) = (r, (w', s'))"
    by (cases meth) (auto simp: route_def config_route_def split: if_splits)
  then show ?thesis
  proof cases
    case 1
    obtain ok res1 s1 where "RegisterSessionToken now req empty_response s = (ok, res1, s1)"
      by (cases "RegisterSessionToken now req empty_response s")
    with 1 register_inv inv show ?thesis by (auto simp: post_token_def with_sessions_def)
  next
    case 2
    then show ?thesis
      using inv by (auto simp: delete_token_def with_sessions_def split: sum.splits prod.splits
                         intro: remove_inv [OF _ inv])
  next
    case 3
    then have "s' = s" by (auto simp: get_running_def split: prod.splits sum.splits)
    with inv show ?thesis by (simp add: server_inv_def)
  next
    case 4
    then have "s' = s" by (auto simp: post_running_diff_def dest: forward_result)
    with inv show ?thesis by (simp add: server_inv_def)
  qed
qed

lemma server_inv_init: "server_inv (Server_init m)"
  by (simp add: server_inv_def Server_init_def RegisterSessionTimeoutCallback_def
      SessionManager_init_def wf_sessions_def timers_cancel_def)

text \<open>Registering handlers does not concern the sessions: a server starts with any handlers.\<close>

definition initial_server :: "'m server \<Rightarrow> bool" where
  "initial_server sv \<longleftrightarrow> (\<exists>m. snd sv = snd (Server_init m :: 'm server))"

lemma server_inv_sessions: "server_inv (w, s) \<Longrightarrow> server_inv (w', s)"
  by (simp add: server_inv_def)

interpretation server: inductive_invariant initial_server server_step server_inv
proof
  show "server_inv sv" if "initial_server sv" for sv :: "'a server"
  proof -
    from that obtain m :: 'a where m: "snd sv = snd (Server_init m)"
      by (auto simp: initial_server_def)
    from server_inv_init [of m] show ?thesis unfolding server_inv_def m .
  qed
  show "server_inv sv'" if "server_inv sv" "server_step sv sv'" for sv sv' :: "'a server"
    using that(2,1)
  proof (cases rule: server_step.cases)
    case (request req now meth path res)
    from request(2) obtain r where "route now meth path req sv = Some (r, sv')"
      by (rule serve_route)
    with request(1) that(1) show ?thesis by (cases sv; cases sv') (auto intro: route_inv)
  next
    case (sweep now)
    then show ?thesis using that(1) by (rule server_sweep_inv)
  qed
qed

subsection \<open>Properties of the server\<close>

lemma route_other_active:
  assumes r: "route now meth path req (w, s) = Some (r, (w', s'))" and "\<not> config_route meth path"
    and a: "active s = Some a" and t: "bearer_token req \<noteq> Inr a"
  shows "active s' = Some a"
proof -
  from assms(1,2) consider "post_token now req (w, s) = (r, (w', s'))"
    | "delete_token now req (w, s) = (r, (w', s'))"
    | "get_running req (w, s) = (r, (w', s'))"
    | "post_running_diff req (w, s) = (r, (w', s'))"
    by (cases meth) (auto simp: route_def config_route_def split: if_splits)
  then show ?thesis
  proof cases
    case 1
    with a show ?thesis by (auto simp: post_token_def with_sessions_def RegisterSessionToken_def split: if_splits)
  next
    case 2
    show ?thesis
    proof (cases "RemoveSessionToken now req empty_response s")
      case (Inl e)
      with 2 a show ?thesis by (simp add: delete_token_def with_sessions_def)
    next
      case (Inr p)
      then obtain ok res1 s1 where rm: "RemoveSessionToken now req empty_response s = Inr (ok, res1, s1)"
        by (cases p) auto
      then have "active s1 = Some a"
        by (cases rule: RemoveSessionToken_cases) (use a t in auto)
      with rm 2 show ?thesis by (simp add: delete_token_def with_sessions_def)
    qed
  next
    case 3
    with a show ?thesis by (auto simp: get_running_def split: prod.splits sum.splits)
  next
    case 4
    with a show ?thesis by (auto simp: post_running_diff_def dest: forward_result)
  qed
qed

text \<open>A small server for the witnesses: no handlers, and the manager is a number.\<close>

definition session_of :: "string \<Rightarrow> time_point \<Rightarrow> (string, session_details) smap" where
  "session_of t now = [(t, \<lparr>LastRequestAt = now, StartAt = now\<rparr>)]"

definition small_handler :: "nat handler" where
  "small_handler path data ret m = (Inr (OK, ret), Suc m)"

definition small_routing :: "nat \<Rightarrow> nat routing" where
  "small_routing m = \<lparr>on_delete = [([], small_handler)], on_get = [], on_post = [([], small_handler)], on_put = [],
                       manager = m\<rparr>"

definition small_sessions ::
  "string list \<Rightarrow> string option \<Rightarrow> (string, callback timer_details) smap \<Rightarrow> callback sessions" where
  "small_sessions ts a tm = \<lparr>leased = map (\<lambda>t. (t, \<lparr>LastRequestAt = 0, StartAt = 0\<rparr>)) ts, active = a,
     timeout_callbacks = [(''HttpServer'', RemoveSessionCB)], timers = tm,
     session_timeout_sec = 360, quit_flag = False\<rparr>"

definition cancel_timer :: "callback timer_details" where
  "cancel_timer = \<lparr>TimerCB = CancelCandidateCB, TimerStartAt = 0, Timeout = 180, QuitFlag = False\<rparr>"

lemma small_processRequest:
  "processRequest POST RUNNING_UPDATE d ret (small_routing m) = (Inr (OK, ret), small_routing (Suc m))"
  "processRequest DEL CANDIDATE d ret (small_routing m) = (Inr (OK, ret), small_routing (Suc m))"
  by (simp_all add: processRequest_def handlers_of_def small_routing_def small_handler_def)

lemma small_sessions_simps [simp]:
  "active (small_sessions ts a tm) = a" "timers (small_sessions ts a tm) = tm"
  "leased (small_sessions ts a tm) = map (\<lambda>t. (t, \<lparr>LastRequestAt = 0, StartAt = 0\<rparr>)) ts"
  "timeout_callbacks (small_sessions ts a tm) = [(''HttpServer'', RemoveSessionCB)]"
  "session_timeout_sec (small_sessions ts a tm) = 360" "quit_flag (small_sessions ts a tm) = False"
  by (simp_all add: small_sessions_def)

lemma small_update:
  "serve 0 POST RUNNING_UPDATE (bearer_request ''a'' []) (small_routing m, small_sessions [''a''] None []) =
     Some (\<lparr>res_status = Some OK, res_content = []\<rparr>,
           (small_routing (Suc m), small_sessions [''a''] (Some ''a'') [(''a'', cancel_timer)]))"
proof -
  have auth: "has_authorization (bearer_request ''a'' [])"
    by (rule bearer_token_authorized [OF bearer_request_token])
  then show ?thesis
    by (simp add: serve_def route_def post_running_update_def guarded_def SetActiveSessionToken_def
        CheckSessionToken_def SetActive_commit_def cancel_timer_then_def CancelSessionTokenTimerOnce_def
        GetSessionToken_def sm_contains_def update_body_def forward_def small_processRequest answer_def
        SetSessionTokenTimerOnce_def sm_emplace_def small_sessions_def cancel_timer_def
        IsSuccess_cases empty_response_def Let_def)
qed

lemma small_register:
  "serve 0 POST TOKEN (bearer_request ''x'' ''a'') (small_routing m, small_sessions [] None []) =
     Some (\<lparr>res_status = Some CREATED, res_content = []\<rparr>, (small_routing m, small_sessions [''a''] None []))"
  by (simp add: serve_def route_def post_token_def with_sessions_def RegisterSessionToken_def
      small_sessions_def empty_response_def bearer_request_def)

lemma small_initial: "initial_server (small_routing m, small_sessions [] None [])"
  by (simp add: initial_server_def Server_init_def small_sessions_def SessionManager_init_def
      RegisterSessionTimeoutCallback_def)

lemma small_plain: "plain_request (bearer_request ''x'' d)" "plain_request (bearer_request ''a'' d)"
  by (simp_all add: plain_request_def bearer_request_def get_header_value_def same_header_def has_crlf_def)

text \<open>After a registration and an update the session \<open>a\<close> is active.\<close>

lemma small_reachable:
  "reachable initial_server server_step
     (small_routing (Suc m), small_sessions [''a''] (Some ''a'') [(''a'', cancel_timer)])"
proof -
  have "reachable initial_server server_step (small_routing m, small_sessions [] None [])"
    by (rule reachable_init) (rule small_initial)
  then have "reachable initial_server server_step (small_routing m, small_sessions [''a''] None [])"
    by (rule reachable_step) (rule server_step.request [OF small_plain(1) small_register])
  then show ?thesis
    by (rule reachable_step) (rule server_step.request [OF small_plain(2) small_update])
qed

lemma small_sweep:
  "server_sweep (400 * 10 ^ 9) (small_routing m, small_sessions [''a''] (Some ''a'') [(''a'', cancel_timer)]) =
     Inr (small_routing (Suc m), small_sessions [] None [])"
  by (simp add: server_sweep_def sweep_def expired_sessions_def expired_timers_def stopped_timers_def
      session_expired_def timer_expired_def to_seconds_def run_callback_def RemoveSessionToken_str_eq
      wf_sessions_def has_crlf_def sm_contains_def erase_timers_def cancel_timer_def small_processRequest
      RemoveActiveSessionToken_def small_sessions_def)



text \<open>C7 A request changes the manager through a configuration route only when its token is leased and no
  other session is active; the session of that token is active afterwards.\<close>

theorem config_change_needs_active_session:
  assumes "serve now meth path req (w, s) = Some (res, (w', s'))" "config_route meth path"
    and "manager w' \<noteq> manager w"
  shows "\<exists>t. bearer_token req = Inr t \<and> sm_contains (leased s) t \<and>
             (active s = None \<or> active s = Some t) \<and> active s' = Some t"
proof -
  from assms(1) obtain r where "route now meth path req (w, s) = Some (r, (w', s'))"
    by (rule serve_route)
  from config_route_effect [OF this assms(2)] assms(3) show ?thesis
    by (auto simp: config_effect_def dest: timers_only_fields)
qed

theorem config_change_needs_active_session_witness:
  "\<exists>t. bearer_token (bearer_request ''a'' []) = Inr t \<and>
       sm_contains (leased (small_sessions [''a''] None [])) t \<and>
       active (small_sessions [''a''] (Some ''a'') [(''a'', cancel_timer)]) = Some t"
  using config_change_needs_active_session [OF small_update [of 0]]
  by (simp add: config_route_def small_routing_def)

text \<open>C25 While a session is active, a request with another token leaves it active, and on the configuration
  routes it changes nothing and is answered with a status that is not a success.\<close>

theorem active_session_is_exclusive:
  assumes "serve now meth path req (w, s) = Some (res, (w', s'))"
    and "active s = Some a" "bearer_token req \<noteq> Inr a"
  shows "active s' = Some a \<and>
    (config_route meth path \<longrightarrow> w' = w \<and> (\<exists>c. res_status res = Some c \<and> \<not> IsSuccess c))"
proof -
  from assms(1) obtain r where r: "route now meth path req (w, s) = Some (r, (w', s'))"
    and res: "\<forall>res'. r = Inr res' \<longrightarrow> res = res'"
      "\<forall>e. r = Inl e \<longrightarrow> res_status res = Some INTERNAL_SERVER_ERROR"
    by (rule serve_route)
  show ?thesis
  proof (cases "config_route meth path")
    case False
    with route_other_active [OF r] assms(2,3) show ?thesis by simp
  next
    case True
    with config_route_effect [OF r] assms(2,3) have eff: "w' = w" "active s' = active s"
      "\<And>x. r = Inr x \<Longrightarrow> \<exists>c. res_status x = Some c \<and> \<not> IsSuccess c"
      by (auto simp: config_effect_def)
    have "\<exists>c. res_status res = Some c \<and> \<not> IsSuccess c"
      using res eff(3) by (cases r) (auto simp: IsSuccess_cases)
    with eff assms(2) show ?thesis by simp
  qed
qed

theorem active_session_is_exclusive_witness:
  "\<exists>res w' s'. serve 0 POST RUNNING_UPDATE (bearer_request ''b'' [])
       (small_routing 0, small_sessions [''a'', ''b''] (Some ''a'') []) = Some (res, (w', s')) \<and>
     active s' = Some ''a'' \<and> w' = small_routing 0 \<and> res_status res = Some CONFLICT"
proof -
  have auth: "has_authorization (bearer_request ''b'' [])"
    by (rule bearer_token_authorized [OF bearer_request_token])
  then obtain res s' where e: "serve 0 POST RUNNING_UPDATE (bearer_request ''b'' [])
       (small_routing 0, small_sessions [''a'', ''b''] (Some ''a'') []) = Some (res, (small_routing 0, s'))"
    and r: "res_status res = Some CONFLICT"
    by (simp add: serve_def route_def post_running_update_def guarded_def SetActiveSessionToken_def
        CheckSessionToken_def SetActive_commit_def)
  have "active s' = Some ''a''"
    using active_session_is_exclusive [OF e, of "''a''"] by simp
  with e r show ?thesis by blast
qed

text \<open>C33 The sweep ends exactly the sessions without a request for longer than the timeout: their leases are
  gone, every other lease is unchanged, and the active session ends if it expired or its timer fired.\<close>

theorem sweep_ends_exactly_the_expired:
  assumes "reachable initial_server server_step (w, s)" "server_sweep now (w, s) = Inr (w', s')"
    and "\<not> quit_flag s"
  shows "sm_find (leased s') t =
      (case sm_find (leased s) t of
         None \<Rightarrow> None
       | Some d \<Rightarrow> if session_expired now (session_timeout_sec s) d then None else Some d) \<and>
    (active s' = active s \<or>
     active s' = None \<and> (\<exists>a. active s = Some a \<and> (a \<in> set (expired_sessions now s) \<or> a \<in> set (expired_timers now s))))"
proof -
  from server.reachable_inv [OF assms(1)] have inv: "server_inv (w, s)" .
  then have sorted: "sm_sorted (leased s)" by (simp add: server_inv_def wf_sessions_def)
  note expired = expired_session_iff [OF sorted]
  from assms(2) inv show ?thesis
  proof (cases rule: server_sweep_cases)
    case quit
    with assms(3) show ?thesis by simp
  next
    case (swept s1)
    have "leased s' = leased s1"
      and act: "active s' = (if \<exists>t \<in> set (expired_timers now s1). active s1 = Some t then None else active s1)"
      using fire_timers_leased [OF swept(4,3)] by (simp_all add: erase_timers_def)
    with swept(2) have "leased s' = fold sm_erase (expired_sessions now s) (leased s)" by simp
    moreover have "expired_timers now s1 = expired_timers now s"
      using swept(2) by (simp add: expired_timers_def)
    ultimately show ?thesis
      using swept(2) act sorted expired by (auto simp: sm_find_fold_erase split: option.splits)
  qed
qed

theorem sweep_ends_exactly_the_expired_witness:
  "server_sweep (400 * 10 ^ 9) (small_routing 1, small_sessions [''a''] (Some ''a'') [(''a'', cancel_timer)]) =
     Inr (small_routing 2, small_sessions [] None []) \<and>
   sm_find (leased (small_sessions [] None [])) ''a'' = None"
proof -
  have sw: "server_sweep (400 * 10 ^ 9)
      (small_routing (Suc 0), small_sessions [''a''] (Some ''a'') [(''a'', cancel_timer)]) =
     Inr (small_routing (Suc (Suc 0)), small_sessions [] None [])" by (rule small_sweep)
  have "session_expired (400 * 10 ^ 9) 360 \<lparr>LastRequestAt = 0, StartAt = 0\<rparr>"
    by (simp add: session_expired_def to_seconds_def)
  with sweep_ends_exactly_the_expired [OF small_reachable sw, of "''a''"]
  have "sm_find (leased (small_sessions [] None [])) ''a'' = None" by simp
  with sw show ?thesis by (simp add: numeral_2_eq_2)
qed

text \<open>The timer of a session whose lease is gone still cancels the candidate, also when the candidate
  belongs by now to another session, which stays active.\<close>

theorem stale_timer_cancels_the_candidate_of_another:
  assumes "server_inv (w, s)" "\<not> quit_flag s" "expired_sessions now s = []"
    and "timers s = [(t, d)]" "\<not> QuitFlag d" "timer_expired now d"
    and "active s = Some b" "b \<noteq> t"
    and "processRequest DEL CANDIDATE [] [] w = (Inr x, w')"
  shows "server_sweep now (w, s) = Inr (w', s\<lparr>timers := []\<rparr>)"
proof -
  from assms(1,4) have cb: "TimerCB d = CancelCandidateCB" by (simp add: server_inv_def timers_cancel_def)
  have "stopped_timers s = []" "expired_timers now s = [t]"
    using assms(4-6) by (simp_all add: stopped_timers_def expired_timers_def)
  with assms cb show ?thesis
    by (simp add: server_sweep_def sweep_def erase_timers_def run_callback_def RemoveActiveSessionToken_def)
qed

theorem stale_timer_cancels_the_candidate_of_another_witness:
  "server_sweep (200 * 10 ^ 9) (small_routing 0, small_sessions [''b''] (Some ''b'') [(''a'', cancel_timer)]) =
     Inr (small_routing 1, (small_sessions [''b''] (Some ''b'') [(''a'', cancel_timer)])\<lparr>timers := []\<rparr>)"
proof (rule stale_timer_cancels_the_candidate_of_another)
  show "server_inv (small_routing 0, small_sessions [''b''] (Some ''b'') [(''a'', cancel_timer)])"
    by (simp add: server_inv_def wf_sessions_def timers_cancel_def cancel_timer_def sm_contains_def has_crlf_def)
  show "expired_sessions (200 * 10 ^ 9) (small_sessions [''b''] (Some ''b'') [(''a'', cancel_timer)]) = []"
    by (simp add: expired_sessions_def session_expired_def to_seconds_def)
  show "timers (small_sessions [''b''] (Some ''b'') [(''a'', cancel_timer)]) = [(''a'', cancel_timer)]"
    by simp
  show "timer_expired (200 * 10 ^ 9) cancel_timer"
    by (simp add: timer_expired_def to_seconds_def cancel_timer_def)
  show "processRequest DEL CANDIDATE [] [] (small_routing 0) = (Inr (OK, []), small_routing 1)"
    by (simp add: small_processRequest)
  show "''b'' \<noteq> ''a''" by simp
qed (simp_all add: cancel_timer_def)

lemma expire_crlf:
  assumes "wf_sessions s" "timeout_callbacks s = [(''HttpServer'', RemoveSessionCB)]"
    "active s = Some t" "has_crlf t"
  shows "\<exists>s'. expire_sessions (run_callback now) ts (w, s) = Inr (w, s') \<and> active s' = Some t \<and>
           timers s' = timers s \<and> wf_sessions s' \<and>
           (\<forall>u. sm_contains (leased s') u \<longrightarrow> u \<notin> set ts \<and> sm_contains (leased s) u)"
  using assms
proof (induction ts arbitrary: s)
  case Nil
  then show ?case by auto
next
  case (Cons u ts)
  let ?l = "if has_crlf u \<or> \<not> sm_contains (leased s) u then leased s else sm_erase u (leased s)"
  let ?s = "s\<lparr>leased := sm_erase u ?l\<rparr>"
  have run: "run_callback now RemoveSessionCB u (w, s) = Inr (w, s\<lparr>leased := ?l\<rparr>)"
    using Cons.prems by (auto simp: run_callback_def RemoveSessionToken_str_eq)
  have wf: "wf_sessions ?s" and contains: "\<And>v. sm_contains (leased ?s) v \<longleftrightarrow> v \<noteq> u \<and> sm_contains (leased s) v"
    using Cons.prems(1) by (auto simp: wf_sessions_def sm_contains_erase)
  from Cons.IH [of ?s] wf Cons.prems obtain s' where
    "expire_sessions (run_callback now) ts (w, ?s) = Inr (w, s')" "active s' = Some t" "timers s' = timers s"
    "wf_sessions s'" "\<forall>v. sm_contains (leased s') v \<longrightarrow> v \<notin> set ts \<and> sm_contains (leased ?s) v"
    by auto
  with run Cons.prems(2) contains show ?case by auto
qed

text \<open>A session whose token has a line break outlives its lease: the timeout callback puts the token into a
  request header, which the library refuses, so the sweep removes the lease and leaves the session active.
  From then on no other session can become active.\<close>

theorem token_with_line_break_stays_active:
  assumes "wf_sessions s" "timeout_callbacks s = [(''HttpServer'', RemoveSessionCB)]"
    and "active s = Some t" "has_crlf t" "timers s = []" "\<not> quit_flag s" "t \<in> set (expired_sessions now s)"
  shows "\<exists>s'. server_sweep now (w, s) = Inr (w, s') \<and> active s' = Some t \<and> \<not> sm_contains (leased s') t \<and>
           (\<forall>later req res res' s''. SetActiveSessionToken later req res s' \<noteq> Inr (True, res', s''))"
proof -
  from expire_crlf [OF assms(1-4), of now "expired_sessions now s" w] obtain s' where
    e: "expire_sessions (run_callback now) (expired_sessions now s) (w, s) = Inr (w, s')"
    and s': "active s' = Some t" "timers s' = []" "\<not> sm_contains (leased s') t"
    using assms(5,7) by auto
  have "server_sweep now (w, s) = Inr (w, s')"
    using e s'(2) assms(6)
    by (simp add: server_sweep_def sweep_def expired_timers_def stopped_timers_def erase_timers_def)
  moreover have "SetActiveSessionToken later req res s' \<noteq> Inr (True, res', s'')" for later req res res' s''
  proof
    assume "SetActiveSessionToken later req res s' = Inr (True, res', s'')"
    then show False
      by (cases rule: SetActiveSessionToken_cases) (use s' in \<open>auto simp: sm_contains_def\<close>)
  qed
  ultimately show ?thesis using s' by blast
qed

theorem token_with_line_break_stays_active_witness:
  "\<exists>s'. server_sweep (400 * 10 ^ 9) (small_routing 0, small_sessions [[CHR 0x0A]] (Some [CHR 0x0A]) []) =
          Inr (small_routing 0, s') \<and> active s' = Some [CHR 0x0A]"
  using token_with_line_break_stays_active
    [of "small_sessions [[CHR 0x0A]] (Some [CHR 0x0A]) []" "[CHR 0x0A]" "400 * 10 ^ 9" "small_routing 0"]
  by (simp add: wf_sessions_def has_crlf_def expired_sessions_def session_expired_def to_seconds_def)
     blast

end
