(* ===== verification/Documents.thy ===== *)
theory Documents
  imports Json
begin

section \<open>The text of a document, and duplicated keys\<close>

text \<open>
  The JSON text of a file before its objects become maps: an object is the list of its members as they
  are written. The parser keeps the last of several members with one key. The callback of
  \<open>CheckIfThereIsDuplicatedKey\<close> in \<open>src/config.cpp\<close> watches the events of the parser, with a stack of sets of keys;
  the function itself, which parses a text, is in the theory Texts.
\<close>

datatype raw =
    RNull
  | RBool bool
  | RNum int
  | RStr string
  | RArr "raw list"
  | RObj "(string \<times> raw) list"

fun parsed :: "raw \<Rightarrow> json" where
  "parsed RNull = JNull"
| "parsed (RBool b) = JBool b"
| "parsed (RNum n) = JNum n"
| "parsed (RStr s) = JStr s"
| "parsed (RArr rs) = JArr (map parsed rs)"
| "parsed (RObj ms) = JObj (fold (\<lambda>(k, j) m. sm_assign k j m) (map (\<lambda>(k, r). (k, parsed r)) ms) [])"

fun written :: "json \<Rightarrow> raw" where
  "written JNull = RNull"
| "written (JBool b) = RBool b"
| "written (JNum n) = RNum n"
| "written (JStr s) = RStr s"
| "written (JArr js) = RArr (map written js)"
| "written (JObj m) = RObj (map (\<lambda>(k, j). (k, written j)) m)"

subsection \<open>The events of the parser\<close>

datatype event = object_start | object_end | key string | other_event

fun events :: "raw \<Rightarrow> event list"
  and member_events :: "(string \<times> raw) list \<Rightarrow> event list"
  and item_events :: "raw list \<Rightarrow> event list" where
  "events (RObj ms) = object_start # member_events ms @ [object_end]"
| "events (RArr rs) = other_event # item_events rs @ [other_event]"
| "events r = [other_event]"
| "member_events [] = []"
| "member_events ((k, r) # ms) = key k # events r @ member_events ms"
| "item_events [] = []"
| "item_events (r # rs) = events r @ item_events rs"

text \<open>The state of the callback: the flag and the stack. An empty stack is undefined behaviour.\<close>

type_synonym key_state = "bool \<times> string list list"

fun check_duplicate_keys :: "event \<Rightarrow> key_state \<Rightarrow> key_state result" where
  "check_duplicate_keys e (True, stack) = Inr (True, stack)"
| "check_duplicate_keys object_start (False, stack) = Inr (False, [] # stack)"
| "check_duplicate_keys object_end (False, []) = Inl NullDeref"
| "check_duplicate_keys object_end (False, s # stack) = Inr (False, stack)"
| "check_duplicate_keys (key k) (False, []) = Inl NullDeref"
| "check_duplicate_keys (key k) (False, s # stack) =
     Inr (if k \<in> set s then (True, s # stack) else (False, ss_insert k s # stack))"
| "check_duplicate_keys other_event (False, stack) = Inr (False, stack)"

fun watch :: "event list \<Rightarrow> key_state \<Rightarrow> key_state result" where
  "watch [] st = Inr st"
| "watch (e # es) st = rbind (check_duplicate_keys e st) (watch es)"

subsection \<open>What the watch finds\<close>

fun unique_keys :: "raw \<Rightarrow> bool" where
  "unique_keys (RObj ms) \<longleftrightarrow> distinct (map fst ms) \<and> (\<forall>(k, r) \<in> set ms. unique_keys r)"
| "unique_keys (RArr rs) \<longleftrightarrow> (\<forall>r \<in> set rs. unique_keys r)"
| "unique_keys r \<longleftrightarrow> True"

lemma watch_append [simp]: "watch (xs @ ys) st = rbind (watch xs st) (watch ys)"
  by (induction xs arbitrary: st) (auto simp: rbind_def split: sum.splits)

lemma watch_found [simp]: "watch es (True, stack) = Inr (True, stack)"
  by (induction es) simp_all

definition fresh_members :: "(string \<times> raw) list \<Rightarrow> string list \<Rightarrow> bool" where
  "fresh_members ms s \<longleftrightarrow>
     distinct (map fst ms) \<and> set (map fst ms) \<inter> set s = {} \<and> (\<forall>(k, r) \<in> set ms. unique_keys r)"

lemma fresh_members_simps [simp]:
  "fresh_members [] s"
  "fresh_members ((k, r) # ms) s \<longleftrightarrow> k \<notin> set s \<and> unique_keys r \<and> fresh_members ms (ss_insert k s)"
  by (auto simp: fresh_members_def)

text \<open>What a run over a part of the text gives: the flag, and when it is not set, the stack as it was.\<close>

definition watched :: "event list \<Rightarrow> string list list \<Rightarrow> bool \<Rightarrow> bool" where
  "watched es stack ok \<longleftrightarrow>
     (if ok then watch es (False, stack) = Inr (False, stack) else \<exists>st. watch es (False, stack) = Inr (True, st))"

lemma watched_append:
  "watched es stack ok \<Longrightarrow> (ok \<Longrightarrow> watched es' stack ok') \<Longrightarrow> watched (es @ es') stack (ok \<and> ok')"
  by (auto simp: watched_def split: if_splits)

lemma watch_events:
  "watched (events r) stack (unique_keys r)"
  "(fresh_members ms s \<longrightarrow> (\<exists>s'. watch (member_events ms) (False, s # stack) = Inr (False, s' # stack))) \<and>
     (\<not> fresh_members ms s \<longrightarrow> (\<exists>st. watch (member_events ms) (False, s # stack) = Inr (True, st)))"
  "watched (item_events rs) stack (\<forall>r \<in> set rs. unique_keys r)"
proof (induction r and ms and rs arbitrary: stack and s stack and stack
    rule: events_member_events_item_events.induct)
  case (1 ms)
  have "fresh_members ms [] \<longleftrightarrow> unique_keys (RObj ms)"
    by (simp add: fresh_members_def)
  with 1 [of "[]" stack] show ?case by (cases "unique_keys (RObj ms)") (auto simp: watched_def)
next
  case (2 rs)
  have "watched [other_event] stack True" for stack by (simp add: watched_def)
  then have "watched ([other_event] @ item_events rs @ [other_event]) stack (True \<and> (\<forall>r \<in> set rs. unique_keys r) \<and> True)"
    by (intro watched_append 2)
  then show ?case by simp
next
  case (5 k r ms)
  show ?case
  proof (cases "k \<in> set s")
    case False
    with 5(1) [of "ss_insert k s # stack"] 5(2) [of "ss_insert k s" stack] show ?thesis
      by (cases "unique_keys r") (auto simp: watched_def)
  qed simp
next
  case (7 r rs)
  show ?case using watched_append [OF 7(1) 7(2), of stack] by simp
qed (simp_all add: watched_def)

lemma watch_tree: "\<exists>stack. watch (events r) (False, []) = Inr (\<not> unique_keys r, stack)"
proof -
  have "\<exists>stack. watch (events r) (False, []) = Inr (True, stack)" if "\<not> unique_keys r"
    using watch_events(1) [of r "[]"] that by (auto simp: watched_def)
  then show ?thesis using watch_events(1) [of r "[]"] by (cases "unique_keys r") (auto simp: watched_def)
qed

subsection \<open>Writing and reading\<close>

lemma parsed_members:
  assumes "sm_sorted m"
  shows "fold (\<lambda>(k, j) m. sm_assign k j m) m [] = m"
proof -
  have "fold (\<lambda>(k, j) m. sm_assign k j m) xs acc = acc @ xs" if "sm_sorted (acc @ xs)" for acc xs
    using that
  proof (induction xs arbitrary: acc)
    case (Cons p xs)
    obtain k j where p: "p = (k, j)" by (cases p)
    from Cons.prems p have "\<forall>a \<in> fst ` set acc. a < k"
      by (auto simp: sm_sorted_def sorted_wrt_append)
    with Cons p show ?case by (simp add: sm_assign_snoc)
  qed simp
  from this [of "[]" m] assms show ?thesis by simp
qed

lemma parsed_written: "wf_json j \<Longrightarrow> parsed (written j) = j"
proof (induction j)
  case (JArr xs)
  then show ?case by (simp add: map_idI)
next
  case (JObj m)
  have "map (\<lambda>(k, r). (k, parsed r)) (map (\<lambda>(k, j). (k, written j)) m) = m"
    using JObj by (auto intro!: map_idI)
  with JObj.prems show ?case by (simp add: parsed_members del: map_map)
qed simp_all

lemma unique_keys_written: "wf_json j \<Longrightarrow> unique_keys (written j)"
proof (induction j)
  case (JObj m)
  have "map fst (map (\<lambda>(k, j). (k, written j)) m) = map fst m" by (simp add: comp_def split_def)
  with JObj distinct_keys [of m] show ?case by (auto simp del: map_map)
qed simp_all

lemma wf_fold_assign:
  "\<forall>(k, v) \<in> set ms. wf_json v \<Longrightarrow> wf_json (JObj m) \<Longrightarrow> wf_json (JObj (fold (\<lambda>(k, j) m. sm_assign k j m) ms m))"
proof (induction ms arbitrary: m)
  case (Cons p ms)
  obtain k v where p: "p = (k, v)" by (cases p)
  have "wf_json (JObj (sm_assign k v m))"
    using Cons.prems p wf_assign [of m v k] by simp
  then have "wf_json (JObj (fold (\<lambda>(k, j) m. sm_assign k j m) ms (sm_assign k v m)))"
    by (intro Cons.IH) (use Cons.prems in simp_all)
  then show ?case unfolding p by simp
qed simp

end
