(* ===== verification/Json_Lexer.thy ===== *)
theory Json_Lexer
  imports Documents
begin

unbundle bit_operations_syntax

section \<open>The text of documents: the lexer\<close>

text \<open>
  \<open>detail/input/lexer.hpp\<close> of the JSON library. The state of the lexer is the text that is left:
  \<open>get\<close> takes a byte from it, \<open>unget\<close> leaves the byte there. A token has its value with it, the buffer of a string or
  the number. Positions, the texts of errors and comments, which the program does not allow, are left out; a locale
  other than \<open>C\<close> is not set by the program, so the decimal point is a point.
\<close>

datatype token_type =
    literal_true
  | literal_false
  | literal_null
  | value_string string
  | value_unsigned nat
  | value_integer int
  | value_float string
  | begin_array
  | begin_object
  | end_array
  | end_object
  | name_separator
  | value_separator
  | parse_error
  | end_of_input

abbreviation byte :: "char \<Rightarrow> int" where
  "byte c \<equiv> of_char c"

abbreviation quote_mark :: char where "quote_mark \<equiv> CHR 0x22"
abbreviation backslash :: char where "backslash \<equiv> CHR 0x5C"

subsection \<open>Strings\<close>

definition hex_digit :: "char \<Rightarrow> int option" where
  "hex_digit c =
     (if CHR ''0'' \<le> c \<and> c \<le> CHR ''9'' then Some (byte c - 0x30)
      else if CHR ''A'' \<le> c \<and> c \<le> CHR ''F'' then Some (byte c - 0x37)
      else if CHR ''a'' \<le> c \<and> c \<le> CHR ''f'' then Some (byte c - 0x57)
      else None)"

fun get_codepoint :: "string \<Rightarrow> (int \<times> string) option" where
  "get_codepoint (c1 # c2 # c3 # c4 # s) =
     (case (hex_digit c1, hex_digit c2, hex_digit c3, hex_digit c4) of
        (Some d1, Some d2, Some d3, Some d4) \<Rightarrow> Some (push_bit 12 d1 + push_bit 8 d2 + push_bit 4 d3 + d4, s)
      | _ \<Rightarrow> None)"
| "get_codepoint s = None"

text \<open>The bytes of a code point.\<close>

definition codepoint_bytes :: "int \<Rightarrow> string" where
  "codepoint_bytes codepoint =
     (if codepoint < 0x80 then [char_of codepoint]
      else if codepoint \<le> 0x7FF
        then [char_of (0xC0 OR drop_bit 6 codepoint), char_of (0x80 OR (codepoint AND 0x3F))]
      else if codepoint \<le> 0xFFFF
        then [char_of (0xE0 OR drop_bit 12 codepoint), char_of (0x80 OR (drop_bit 6 codepoint AND 0x3F)),
              char_of (0x80 OR (codepoint AND 0x3F))]
      else [char_of (0xF0 OR drop_bit 18 codepoint), char_of (0x80 OR (drop_bit 12 codepoint AND 0x3F)),
            char_of (0x80 OR (drop_bit 6 codepoint AND 0x3F)), char_of (0x80 OR (codepoint AND 0x3F))])"

text \<open>What follows \<open>\u\<close>: a code point, or a high surrogate with the escape of a low one.\<close>

definition scan_unicode :: "string \<Rightarrow> (string \<times> string) option" where
  "scan_unicode s =
     (case get_codepoint s of
        None \<Rightarrow> None
      | Some (codepoint1, s1) \<Rightarrow>
          if 0xD800 \<le> codepoint1 \<and> codepoint1 \<le> 0xDBFF
          then
            (case s1 of
               c1 # c2 # s2 \<Rightarrow>
                 if c1 = backslash \<and> c2 = CHR ''u''
                 then
                   (case get_codepoint s2 of
                      None \<Rightarrow> None
                    | Some (codepoint2, s3) \<Rightarrow>
                        if 0xDC00 \<le> codepoint2 \<and> codepoint2 \<le> 0xDFFF
                        then Some (codepoint_bytes (push_bit 10 codepoint1 + codepoint2 - 0x35FDC00), s3)
                        else None)
                 else None
             | _ \<Rightarrow> None)
          else if 0xDC00 \<le> codepoint1 \<and> codepoint1 \<le> 0xDFFF then None
          else Some (codepoint_bytes codepoint1, s1))"

fun scan_escape :: "string \<Rightarrow> (string \<times> string) option" where
  "scan_escape [] = None"
| "scan_escape (c # s) =
     (if c = quote_mark \<or> c = backslash \<or> c = CHR ''/'' then Some ([c], s)
      else if c = CHR ''b'' then Some ([CHR 0x08], s)
      else if c = CHR ''f'' then Some ([CHR 0x0C], s)
      else if c = CHR ''n'' then Some ([CHR 0x0A], s)
      else if c = CHR ''r'' then Some ([CHR 0x0D], s)
      else if c = CHR ''t'' then Some ([CHR 0x09], s)
      else if c = CHR ''u'' then scan_unicode s
      else None)"

text \<open>The bytes that may follow a byte in a string, \<open>None\<close> for a byte that may not be there.\<close>

definition following_ranges :: "int \<Rightarrow> (int \<times> int) list option" where
  "following_ranges b =
     (if b < 0x20 then None
      else if b \<le> 0x7F then Some []
      else if 0xC2 \<le> b \<and> b \<le> 0xDF then Some [(0x80, 0xBF)]
      else if b = 0xE0 then Some [(0xA0, 0xBF), (0x80, 0xBF)]
      else if b = 0xED then Some [(0x80, 0x9F), (0x80, 0xBF)]
      else if 0xE1 \<le> b \<and> b \<le> 0xEF then Some [(0x80, 0xBF), (0x80, 0xBF)]
      else if b = 0xF0 then Some [(0x90, 0xBF), (0x80, 0xBF), (0x80, 0xBF)]
      else if 0xF1 \<le> b \<and> b \<le> 0xF3 then Some [(0x80, 0xBF), (0x80, 0xBF), (0x80, 0xBF)]
      else if b = 0xF4 then Some [(0x80, 0x8F), (0x80, 0xBF), (0x80, 0xBF)]
      else None)"

fun next_byte_in_range :: "(int \<times> int) list \<Rightarrow> string \<Rightarrow> (string \<times> string) option" where
  "next_byte_in_range [] s = Some ([], s)"
| "next_byte_in_range ((lo, hi) # ranges) [] = None"
| "next_byte_in_range ((lo, hi) # ranges) (c # s) =
     (if lo \<le> byte c \<and> byte c \<le> hi
      then map_option (\<lambda>(bs, rest). (c # bs, rest)) (next_byte_in_range ranges s) else None)"

text \<open>One character of a string that is not the closing quote: the bytes it adds to the buffer.\<close>

fun scan_char :: "string \<Rightarrow> (string \<times> string) option" where
  "scan_char [] = None"
| "scan_char (c # s) =
     (if c = backslash then scan_escape s
      else case following_ranges (byte c) of
             None \<Rightarrow> None
           | Some ranges \<Rightarrow> map_option (\<lambda>(bs, rest). (c # bs, rest)) (next_byte_in_range ranges s))"

lemma get_codepoint_shorter: "get_codepoint s = Some (cp, rest) \<Longrightarrow> length rest < length s"
  by (cases s rule: get_codepoint.cases) (auto split: option.splits)

lemma scan_unicode_shorter: "scan_unicode s = Some (bs, rest) \<Longrightarrow> length rest < length s"
  by (auto simp: scan_unicode_def split: option.splits if_splits list.splits dest!: get_codepoint_shorter)

lemma next_byte_in_range_shorter: "next_byte_in_range ranges s = Some (bs, rest) \<Longrightarrow> length rest \<le> length s"
  by (induction ranges s arbitrary: bs rule: next_byte_in_range.induct) (fastforce split: if_splits)+

lemma scan_char_shorter: "scan_char s = Some (bs, rest) \<Longrightarrow> length rest < length s"
proof (cases s)
  case (Cons c s')
  moreover have "scan_escape s' = Some (bs, rest) \<Longrightarrow> length rest < length s'"
    by (cases s') (auto split: if_splits dest: scan_unicode_shorter)
  moreover assume "scan_char s = Some (bs, rest)"
  ultimately show ?thesis
    by (auto split: if_splits option.splits dest!: next_byte_in_range_shorter)
qed simp

function scan_string :: "string \<Rightarrow> (string \<times> string) option" where
  "scan_string s =
     (case s of
        [] \<Rightarrow> None
      | c # s' \<Rightarrow>
          if c = quote_mark then Some ([], s')
          else (case scan_char s of
                  None \<Rightarrow> None
                | Some (bs, rest) \<Rightarrow> map_option (\<lambda>(buffer, rest'). (bs @ buffer, rest')) (scan_string rest)))"
  by pat_completeness auto
termination
  by (relation "measure length") (auto dest: scan_char_shorter simp del: scan_char.simps)

declare scan_string.simps [simp del]

lemma scan_string_unfold:
  "scan_string [] = None"
  "scan_string (quote_mark # s) = Some ([], s)"
  "c \<noteq> quote_mark \<Longrightarrow> scan_string (c # s) =
     (case scan_char (c # s) of
        None \<Rightarrow> None
      | Some (bs, rest) \<Rightarrow> map_option (\<lambda>(buffer, rest'). (bs @ buffer, rest')) (scan_string rest))"
  by (subst scan_string.simps, simp del: scan_char.simps)+

lemma scan_string_shorter: "scan_string s = Some (buffer, rest) \<Longrightarrow> length rest < length s"
proof (induction "length s" arbitrary: s buffer rule: less_induct)
  case less
  show ?case
  proof (cases s)
    case (Cons c s')
    show ?thesis
    proof (cases "c = quote_mark")
      case True
      with less.prems Cons show ?thesis by (simp add: scan_string_unfold)
    next
      case False
      with less.prems Cons obtain bs rest1 buffer1
        where "scan_char s = Some (bs, rest1)" "scan_string rest1 = Some (buffer1, rest)"
        by (auto simp: scan_string_unfold simp del: scan_char.simps split: option.splits)
      with less.hyps [of rest1 buffer1] scan_char_shorter [of s bs rest1] show ?thesis by linarith
    qed
  qed (use less.prems in \<open>simp add: scan_string_unfold\<close>)
qed

subsection \<open>Numbers\<close>

text \<open>The labels of \<open>scan_number\<close>, each with the buffer and the text that is left.\<close>

datatype number_type = unsigned_number | integer_number | float_number

definition scan_number_done :: "number_type \<Rightarrow> string \<Rightarrow> string \<Rightarrow> token_type \<times> string" where
  "scan_number_done number_type token_buffer s =
     (case number_type of
        unsigned_number \<Rightarrow>
          (let x = digits_value token_buffer in if x < 2 ^ 64 then value_unsigned x else value_float token_buffer)
      | integer_number \<Rightarrow>
          (let x = - int (digits_value (tl token_buffer)) in
           if - (2 ^ 63) \<le> x then value_integer x else value_float token_buffer)
      | float_number \<Rightarrow> value_float token_buffer, s)"

fun scan_number_any2 :: "string \<Rightarrow> string \<Rightarrow> token_type \<times> string" where
  "scan_number_any2 buffer [] = scan_number_done float_number buffer []"
| "scan_number_any2 buffer (c # s) =
     (if is_digit c then scan_number_any2 (buffer @ [c]) s else scan_number_done float_number buffer (c # s))"

definition scan_number_sign :: "string \<Rightarrow> string \<Rightarrow> token_type \<times> string" where
  "scan_number_sign buffer s =
     (case s of
        [] \<Rightarrow> (parse_error, [])
      | c # s' \<Rightarrow> if is_digit c then scan_number_any2 (buffer @ [c]) s' else (parse_error, s'))"

definition scan_number_exponent :: "string \<Rightarrow> string \<Rightarrow> token_type \<times> string" where
  "scan_number_exponent buffer s =
     (case s of
        [] \<Rightarrow> (parse_error, [])
      | c # s' \<Rightarrow>
          if c = CHR ''+'' \<or> c = CHR ''-'' then scan_number_sign (buffer @ [c]) s'
          else if is_digit c then scan_number_any2 (buffer @ [c]) s'
          else (parse_error, s'))"

abbreviation exponent_mark :: "char \<Rightarrow> bool" where
  "exponent_mark c \<equiv> c = CHR ''e'' \<or> c = CHR ''E''"

fun scan_number_decimal2 :: "string \<Rightarrow> string \<Rightarrow> token_type \<times> string" where
  "scan_number_decimal2 buffer [] = scan_number_done float_number buffer []"
| "scan_number_decimal2 buffer (c # s) =
     (if is_digit c then scan_number_decimal2 (buffer @ [c]) s
      else if exponent_mark c then scan_number_exponent (buffer @ [c]) s
      else scan_number_done float_number buffer (c # s))"

definition scan_number_decimal1 :: "string \<Rightarrow> string \<Rightarrow> token_type \<times> string" where
  "scan_number_decimal1 buffer s =
     (case s of
        [] \<Rightarrow> (parse_error, [])
      | c # s' \<Rightarrow> if is_digit c then scan_number_decimal2 (buffer @ [c]) s' else (parse_error, s'))"

fun scan_number_any1 :: "number_type \<Rightarrow> string \<Rightarrow> string \<Rightarrow> token_type \<times> string" where
  "scan_number_any1 number_type buffer [] = scan_number_done number_type buffer []"
| "scan_number_any1 number_type buffer (c # s) =
     (if is_digit c then scan_number_any1 number_type (buffer @ [c]) s
      else if c = CHR ''.'' then scan_number_decimal1 (buffer @ [c]) s
      else if exponent_mark c then scan_number_exponent (buffer @ [c]) s
      else scan_number_done number_type buffer (c # s))"

definition scan_number_zero :: "number_type \<Rightarrow> string \<Rightarrow> string \<Rightarrow> token_type \<times> string" where
  "scan_number_zero number_type buffer s =
     (case s of
        [] \<Rightarrow> scan_number_done number_type buffer []
      | c # s' \<Rightarrow>
          if c = CHR ''.'' then scan_number_decimal1 (buffer @ [c]) s'
          else if exponent_mark c then scan_number_exponent (buffer @ [c]) s'
          else scan_number_done number_type buffer (c # s'))"

definition scan_number_minus :: "string \<Rightarrow> string \<Rightarrow> token_type \<times> string" where
  "scan_number_minus buffer s =
     (case s of
        [] \<Rightarrow> (parse_error, [])
      | c # s' \<Rightarrow>
          if c = CHR ''0'' then scan_number_zero integer_number (buffer @ [c]) s'
          else if is_digit c then scan_number_any1 integer_number (buffer @ [c]) s'
          else (parse_error, s'))"

text \<open>The first character is known to be a minus sign or a digit.\<close>

definition scan_number :: "char \<Rightarrow> string \<Rightarrow> token_type \<times> string" where
  "scan_number c s =
     (if c = CHR ''-'' then scan_number_minus [c] s
      else if c = CHR ''0'' then scan_number_zero unsigned_number [c] s
      else scan_number_any1 unsigned_number [c] s)"

subsection \<open>Tokens\<close>

fun scan_literal :: "string \<Rightarrow> token_type \<Rightarrow> string \<Rightarrow> token_type \<times> string" where
  "scan_literal [] return_type s = (return_type, s)"
| "scan_literal (l # ls) return_type [] = (parse_error, [])"
| "scan_literal (l # ls) return_type (c # s) = (if c = l then scan_literal ls return_type s else (parse_error, s))"

definition whitespace_char :: "char \<Rightarrow> bool" where
  "whitespace_char c \<longleftrightarrow> c = CHR 0x20 \<or> c = CHR 0x09 \<or> c = CHR 0x0A \<or> c = CHR 0x0D"

definition json_skip_whitespace :: "string \<Rightarrow> string" where
  "json_skip_whitespace s = dropWhile whitespace_char s"

text \<open>The byte order mark is skipped before the first token.\<close>

definition skip_bom :: "string \<Rightarrow> string option" where
  "skip_bom s =
     (case s of
        c # s' \<Rightarrow>
          if byte c = 0xEF
          then (case s' of c2 # c3 # s'' \<Rightarrow> if byte c2 = 0xBB \<and> byte c3 = 0xBF then Some s'' else None | _ \<Rightarrow> None)
          else Some s
      | [] \<Rightarrow> Some [])"

definition scan :: "string \<Rightarrow> token_type \<times> string" where
  "scan text =
     (case json_skip_whitespace text of
        [] \<Rightarrow> (end_of_input, [])
      | c # s \<Rightarrow>
          if c = CHR ''['' then (begin_array, s)
          else if c = CHR '']'' then (end_array, s)
          else if c = CHR ''{'' then (begin_object, s)
          else if c = CHR ''}'' then (end_object, s)
          else if c = CHR '':'' then (name_separator, s)
          else if c = CHR '','' then (value_separator, s)
          else if c = CHR ''t'' then scan_literal ''rue'' literal_true s
          else if c = CHR ''f'' then scan_literal ''alse'' literal_false s
          else if c = CHR ''n'' then scan_literal ''ull'' literal_null s
          else if c = quote_mark
            then (case scan_string s of None \<Rightarrow> (parse_error, s) | Some (buffer, rest) \<Rightarrow> (value_string buffer, rest))
          else if c = CHR ''-'' \<or> is_digit c then scan_number c s
          else if c = CHR 0x00 then (end_of_input, s)
          else (parse_error, s))"

subsection \<open>Every token takes some of the text\<close>

lemma scan_number_shorter:
  "length (snd (scan_number_any2 b s)) \<le> length s"
  "length (snd (scan_number_sign b s)) \<le> length s"
  "length (snd (scan_number_exponent b s)) \<le> length s"
  "length (snd (scan_number_decimal2 b s)) \<le> length s"
  "length (snd (scan_number_decimal1 b s)) \<le> length s"
  "length (snd (scan_number_any1 k b s)) \<le> length s"
  "length (snd (scan_number_zero k b s)) \<le> length s"
  "length (snd (scan_number_minus b s)) \<le> length s"
proof -
  have dn [simp]: "snd (scan_number_done k b s) = s" for k b s
    by (simp add: scan_number_done_def)
  show any2: "length (snd (scan_number_any2 b s)) \<le> length s" for b s
    by (induction b s rule: scan_number_any2.induct) (auto intro: le_SucI)
  show sign: "length (snd (scan_number_sign b s)) \<le> length s" for b s
    by (auto simp: scan_number_sign_def le_SucI any2 split: list.split)
  show exponent: "length (snd (scan_number_exponent b s)) \<le> length s" for b s
    by (auto simp: scan_number_exponent_def le_SucI any2 sign split: list.split)
  show decimal2: "length (snd (scan_number_decimal2 b s)) \<le> length s" for b s
    by (induction b s rule: scan_number_decimal2.induct) (auto intro: le_SucI exponent)
  show decimal1: "length (snd (scan_number_decimal1 b s)) \<le> length s" for b s
    by (auto simp: scan_number_decimal1_def le_SucI decimal2 split: list.split)
  show any1: "length (snd (scan_number_any1 k b s)) \<le> length s" for k b s
    by (induction k b s rule: scan_number_any1.induct) (auto intro: le_SucI exponent decimal1)
  show zero: "length (snd (scan_number_zero k b s)) \<le> length s" for k b s
    by (auto simp: scan_number_zero_def le_SucI decimal1 exponent split: list.split)
  show "length (snd (scan_number_minus b s)) \<le> length s"
    by (auto simp: scan_number_minus_def le_SucI zero any1 split: list.split)
qed

lemma scan_literal_shorter: "length (snd (scan_literal ls t s)) \<le> length s"
  by (induction ls t s rule: scan_literal.induct) auto

lemma scan_shorter:
  assumes "scan text = (tok, rest)" and "tok \<noteq> end_of_input" and "tok \<noteq> parse_error"
  shows "length rest < length text"
proof (cases "json_skip_whitespace text")
  case Nil
  with assms show ?thesis by (simp add: scan_def)
next
  case (Cons c s)
  have "length (json_skip_whitespace text) \<le> length text" by (simp add: json_skip_whitespace_def length_dropWhile_le)
  with Cons have s: "Suc (length s) \<le> length text" by simp
  have n: "length (snd (scan_number c s)) \<le> length s" by (simp add: scan_number_def scan_number_shorter)
  have "length (snd (scan text)) \<le> length s" if "fst (scan text) \<noteq> parse_error"
    using that Cons n scan_literal_shorter [of _ _ s] scan_string_shorter [of s]
    by (auto simp: scan_def less_imp_le split: option.splits)
  with assms s show ?thesis by simp
qed

lemma scan_le: "length (snd (scan text)) \<le> length text"
proof (cases "json_skip_whitespace text")
  case (Cons c s)
  have "length (json_skip_whitespace text) \<le> length text" by (simp add: json_skip_whitespace_def length_dropWhile_le)
  with Cons have s: "Suc (length s) \<le> length text" by simp
  have n: "length (snd (scan_number c s)) \<le> length s" by (simp add: scan_number_def scan_number_shorter)
  have "length (snd (scan text)) \<le> length s"
    using Cons n scan_literal_shorter [of _ _ s] scan_string_shorter [of s]
    by (auto simp: scan_def less_imp_le split: option.splits)
  with s show ?thesis by simp
qed (simp add: scan_def)

end
