(* ===== verification/Json_Reader.thy ===== *)
theory Json_Reader
  imports Json_Lexer
begin

section \<open>The text of documents: the parser\<close>

text \<open>
  \<open>sax_parse_internal\<close> of \<open>detail/input/parser.hpp\<close> and the two consumers of its events in
  \<open>detail/input/json_sax.hpp\<close>: the one that builds a document, and the one that asks a callback besides, which
  the search for duplicated keys uses. The consumers always let the parser go on, so the parser gives the list of the events it
  sends. The exceptions are errors of syntax, all of number 101.
\<close>

datatype sax =
    sax_value json
  | sax_start_object
  | sax_key string
  | sax_end_object
  | sax_start_array
  | sax_end_array

definition emit :: "sax list \<Rightarrow> (sax list \<times> string) result \<Rightarrow> (sax list \<times> string) result" where
  "emit es r = rbind r (\<lambda>(es', s). Inr (es @ es', s))"

lemma emit_simps [simp]:
  "emit es (Inl e) = Inl e"
  "emit es (Inr (es', s)) = Inr (es @ es', s)"
  "emit [] r = r"
  by (auto simp: emit_def rbind_def split: sum.splits)

lemma emit_eq_Inr: "emit es r = Inr (es', s) \<longleftrightarrow> (\<exists>es1. r = Inr (es1, s) \<and> es' = es @ es1)"
  by (auto simp: emit_def rbind_eq_Inr)

lemma emit_emit [simp]: "emit es (emit es' r) = emit (es @ es') r"
  by (auto simp: emit_def rbind_def split: sum.splits)

text \<open>
  The loop of the parser: \<open>parse_value\<close> is its first part, with the last token, the text that is left and the stack of the
  open containers, innermost first (true for an array); \<open>after_value\<close> is the second part.
\<close>

fun weight_of :: "token_type \<Rightarrow> nat" where
  "weight_of parse_error = 0"
| "weight_of end_of_input = 0"
| "weight_of tok = 1"

lemma scan_weight: "scan s = (tok, s') \<Longrightarrow> 2 * length s' + weight_of tok \<le> 2 * length s"
  using scan_shorter [of s tok s'] scan_le [of s] by (cases tok) auto

abbreviation syntax_error :: "(sax list \<times> string) result" where
  "syntax_error \<equiv> Inl (JsonError 101)"

text \<open>The key of a member with its separator, and the first token of its value.\<close>

definition member_start :: "token_type \<Rightarrow> string \<Rightarrow> (string \<times> token_type \<times> string) option" where
  "member_start last_token s =
     (case last_token of
        value_string k \<Rightarrow>
          (case scan s of (tok, s1) \<Rightarrow>
             if tok \<noteq> name_separator then None else (case scan s1 of (tok', s2) \<Rightarrow> Some (k, tok', s2)))
      | _ \<Rightarrow> None)"

lemma member_start_weight: "member_start tok s = Some (k, tok', s') \<Longrightarrow> 2 * length s' + weight_of tok' < 2 * length s"
  by (auto simp: member_start_def split: token_type.splits prod.splits if_splits dest!: scan_weight)

function (sequential) parse_value :: "token_type \<Rightarrow> string \<Rightarrow> bool list \<Rightarrow> (sax list \<times> string) result"
  and after_value :: "string \<Rightarrow> bool list \<Rightarrow> (sax list \<times> string) result" where
  "parse_value begin_object s states =
     (case scan s of (tok, s1) \<Rightarrow>
        if tok = end_object then emit [sax_start_object, sax_end_object] (after_value s1 states)
        else
          (case member_start tok s1 of
             None \<Rightarrow> syntax_error
           | Some (k, tok', s2) \<Rightarrow> emit [sax_start_object, sax_key k] (parse_value tok' s2 (False # states))))"
| "parse_value begin_array s states =
     (case scan s of (tok, s1) \<Rightarrow>
        if tok = end_array then emit [sax_start_array, sax_end_array] (after_value s1 states)
        else emit [sax_start_array] (parse_value tok s1 (True # states)))"
| "parse_value (value_float t) s states = Inl Unmodelled"
| "parse_value literal_false s states = emit [sax_value (JBool False)] (after_value s states)"
| "parse_value literal_null s states = emit [sax_value JNull] (after_value s states)"
| "parse_value literal_true s states = emit [sax_value (JBool True)] (after_value s states)"
| "parse_value (value_integer n) s states = emit [sax_value (JNum n)] (after_value s states)"
| "parse_value (value_string t) s states = emit [sax_value (JStr t)] (after_value s states)"
| "parse_value (value_unsigned n) s states = emit [sax_value (JNum (int n))] (after_value s states)"
| "parse_value tok s states = syntax_error"
| "after_value s [] = Inr ([], s)"
| "after_value s (True # states) =
     (case scan s of (tok, s1) \<Rightarrow>
        if tok = value_separator then (case scan s1 of (tok', s2) \<Rightarrow> parse_value tok' s2 (True # states))
        else if tok = end_array then emit [sax_end_array] (after_value s1 states)
        else syntax_error)"
| "after_value s (False # states) =
     (case scan s of (tok, s1) \<Rightarrow>
        if tok = value_separator
        then
          (case scan s1 of (tok', s2) \<Rightarrow>
             case member_start tok' s2 of
               None \<Rightarrow> syntax_error
             | Some (k, tok'', s3) \<Rightarrow> emit [sax_key k] (parse_value tok'' s3 (False # states)))
        else if tok = end_object then emit [sax_end_object] (after_value s1 states)
        else syntax_error)"
  by pat_completeness auto
termination
  by (relation "measure (\<lambda>x. case x of Inl (tok, s, states) \<Rightarrow> 2 * length s + weight_of tok | Inr (s, states) \<Rightarrow> 2 * length s)")
     (auto dest!: scan_weight [OF sym] member_start_weight)

text \<open>\<open>parser::parse\<close> in strict mode: nothing but the value is in the text.\<close>

definition sax_parse :: "string \<Rightarrow> sax list result" where
  "sax_parse text =
     (case skip_bom text of
        None \<Rightarrow> Inl (JsonError 101)
      | Some s \<Rightarrow>
          (case scan s of (tok, s1) \<Rightarrow>
             rbind (parse_value tok s1 []) (\<lambda>(es, s2).
               if fst (scan s2) = end_of_input then Inr es else Inl (JsonError 101))))"

subsection \<open>Building the document\<close>

text \<open>
  \<open>json_sax_dom_parser\<close>: the stack of references to the containers that are not complete is the stack of
  their contents here, a container gets its place in the one around it when it is complete. An object
  comes with the key of the member that is read (\<open>object_element\<close>).
\<close>

datatype frame =
    array_frame "json list"
  | object_frame "(string, json) smap" "string option"

type_synonym dom_state = "frame list \<times> json"

fun handle_value :: "json \<Rightarrow> dom_state \<Rightarrow> dom_state result" where
  "handle_value v ([], root) = Inr ([], v)"
| "handle_value v (array_frame xs # ref_stack, root) = Inr (array_frame (xs @ [v]) # ref_stack, root)"
| "handle_value v (object_frame m (Some k) # ref_stack, root) = Inr (object_frame (sm_assign k v m) (Some k) # ref_stack, root)"
| "handle_value v (object_frame m None # ref_stack, root) = Inl ProcessExit"

fun dom_event :: "sax \<Rightarrow> dom_state \<Rightarrow> dom_state result" where
  "dom_event (sax_value v) st = handle_value v st"
| "dom_event sax_start_object (ref_stack, root) = Inr (object_frame [] None # ref_stack, root)"
| "dom_event (sax_key k) (object_frame m e # ref_stack, root) =
     Inr (object_frame (if sm_contains m k then m else sm_assign k JNull m) (Some k) # ref_stack, root)"
| "dom_event sax_end_object (object_frame m e # ref_stack, root) = handle_value (JObj m) (ref_stack, root)"
| "dom_event sax_start_array (ref_stack, root) = Inr (array_frame [] # ref_stack, root)"
| "dom_event sax_end_array (array_frame xs # ref_stack, root) = handle_value (JArr xs) (ref_stack, root)"
| "dom_event _ st = Inl ProcessExit"

fun dom_events :: "sax list \<Rightarrow> dom_state \<Rightarrow> dom_state result" where
  "dom_events [] st = Inr st"
| "dom_events (e # es) st = rbind (dom_event e st) (dom_events es)"

definition json_parse :: "string \<Rightarrow> json result" where
  "json_parse text = rbind (sax_parse text) (\<lambda>es. rbind (dom_events es ([], JNull)) (\<lambda>(ref_stack, root). Inr root))"

subsection \<open>Asking the callback\<close>

text \<open>The events of the callback parser.\<close>

fun callback_event :: "sax \<Rightarrow> event" where
  "callback_event sax_start_object = object_start"
| "callback_event sax_end_object = object_end"
| "callback_event (sax_key k) = key k"
| "callback_event e = other_event"

subsection \<open>The events of a text are those of a tree\<close>

fun sax_events :: "raw \<Rightarrow> sax list" where
  "sax_events RNull = [sax_value JNull]"
| "sax_events (RBool b) = [sax_value (JBool b)]"
| "sax_events (RNum n) = [sax_value (JNum n)]"
| "sax_events (RStr t) = [sax_value (JStr t)]"
| "sax_events (RArr rs) = sax_start_array # concat (map sax_events rs) @ [sax_end_array]"
| "sax_events (RObj ms) = sax_start_object # concat (map (\<lambda>(k, r). sax_key k # sax_events r) ms) @ [sax_end_object]"

abbreviation array_events :: "raw list \<Rightarrow> sax list" where
  "array_events rs \<equiv> concat (map sax_events rs)"

abbreviation object_events :: "(string \<times> raw) list \<Rightarrow> sax list" where
  "object_events ms \<equiv> concat (map (\<lambda>(k, r). sax_key k # sax_events r) ms)"

text \<open>The events that complete the open containers.\<close>

fun completes :: "bool list \<Rightarrow> sax list \<Rightarrow> bool" where
  "completes [] es \<longleftrightarrow> es = []"
| "completes (True # states) es \<longleftrightarrow>
     (\<exists>rs es'. es = array_events rs @ sax_end_array # es' \<and> completes states es')"
| "completes (False # states) es \<longleftrightarrow>
     (\<exists>ms es'. es = object_events ms @ sax_end_object # es' \<and> completes states es')"

definition value_then :: "bool list \<Rightarrow> sax list \<Rightarrow> bool" where
  "value_then states es \<longleftrightarrow> (\<exists>r es'. es = sax_events r @ es' \<and> completes states es')"

lemma value_then_leaf: "completes states es \<Longrightarrow> sax_events r = [e] \<Longrightarrow> value_then states (e # es)"
  unfolding value_then_def by (metis append_Cons append_Nil)

lemma value_then_array:
  assumes "value_then (True # states) es"
  shows "value_then states (sax_start_array # es)"
proof -
  from assms obtain r rs es' where "es = sax_events r @ array_events rs @ sax_end_array # es'" "completes states es'"
    by (auto simp: value_then_def)
  then show ?thesis unfolding value_then_def by (intro exI [of _ "RArr (r # rs)"] exI [of _ es']) simp
qed

lemma value_then_object:
  assumes "value_then (False # states) es"
  shows "value_then states (sax_start_object # sax_key k # es)"
proof -
  from assms obtain r ms es' where "es = sax_events r @ object_events ms @ sax_end_object # es'" "completes states es'"
    by (auto simp: value_then_def)
  then show ?thesis unfolding value_then_def by (intro exI [of _ "RObj ((k, r) # ms)"] exI [of _ es']) simp
qed

lemma value_then_empty:
  "completes states es \<Longrightarrow> value_then states (sax_start_array # sax_end_array # es)"
  "completes states es \<Longrightarrow> value_then states (sax_start_object # sax_end_object # es)"
  unfolding value_then_def
  by (rule exI [of _ "RArr []"], rule exI [of _ es], simp) (rule exI [of _ "RObj []"], rule exI [of _ es], simp)

lemma completes_item:
  assumes "value_then (True # states) es"
  shows "completes (True # states) es"
proof -
  from assms obtain r rs es' where "es = array_events (r # rs) @ sax_end_array # es'" "completes states es'"
    by (auto simp: value_then_def)
  then show ?thesis by (simp only: completes.simps) blast
qed

lemma completes_member:
  assumes "value_then (False # states) es"
  shows "completes (False # states) (sax_key k # es)"
proof -
  from assms obtain r ms es' where "sax_key k # es = object_events ((k, r) # ms) @ sax_end_object # es'" "completes states es'"
    by (auto simp: value_then_def)
  then show ?thesis by (simp only: completes.simps) blast
qed

lemma completes_end:
  "completes states es \<Longrightarrow> completes (True # states) (sax_end_array # es)"
  "completes states es \<Longrightarrow> completes (False # states) (sax_end_object # es)"
  by (simp_all only: completes.simps)
     (rule exI [of _ "[]"], rule exI [of _ es], simp, rule exI [of _ "[]"], rule exI [of _ es], simp)

lemma parser_events:
  "parse_value tok s states = Inr (es, rest) \<Longrightarrow> value_then states es"
  "after_value s states = Inr (es, rest) \<Longrightarrow> completes states es"
proof (induction tok s states and s states arbitrary: es and es rule: parse_value_after_value.induct)
  case (1 s states)
  then show ?case
    by (auto simp: emit_eq_Inr split: prod.splits if_splits option.splits simp del: completes.simps
        intro: value_then_empty(2) value_then_object)
next
  case (2 s states)
  then show ?case
    by (auto simp: emit_eq_Inr split: prod.splits if_splits simp del: completes.simps
        intro: value_then_empty(1) value_then_array)
next
  case (4 s states)
  then show ?case by (auto simp: emit_eq_Inr intro: value_then_leaf [where r = "RBool False"])
next
  case (5 s states)
  then show ?case by (auto simp: emit_eq_Inr intro: value_then_leaf [where r = RNull])
next
  case (6 s states)
  then show ?case by (auto simp: emit_eq_Inr intro: value_then_leaf [where r = "RBool True"])
next
  case (7 n s states)
  then show ?case by (auto simp: emit_eq_Inr intro: value_then_leaf [where r = "RNum n"])
next
  case (8 t s states)
  then show ?case by (auto simp: emit_eq_Inr intro: value_then_leaf [where r = "RStr t"])
next
  case (9 n s states)
  then show ?case by (auto simp: emit_eq_Inr intro: value_then_leaf [where r = "RNum (int n)"])
next
  case (12 s states)
  then show ?case
    by (auto simp: emit_eq_Inr split: prod.splits if_splits simp del: completes.simps
        intro: completes_item completes_end(1))
next
  case (13 s states)
  then show ?case
    by (auto simp: emit_eq_Inr split: prod.splits if_splits option.splits simp del: completes.simps
        intro: completes_member completes_end(2))
qed auto

lemma sax_parse_raw:
  assumes "sax_parse text = Inr es"
  shows "\<exists>r. es = sax_events r"
  using assms parser_events(1) [of _ _ "[]"]
  by (fastforce simp: sax_parse_def value_then_def rbind_eq_Inr split: option.splits prod.splits if_splits)

subsection \<open>The document and the callback see the same tree\<close>

lemma assign_over_null:
  "sm_assign k v (if sm_contains m k then m else sm_assign k JNull m) = sm_assign k v m"
proof -
  have "sm_assign k v (sm_assign k w m) = sm_assign k v m" for w
    by (induction k w m rule: sm_assign.induct) auto
  then show ?thesis by simp
qed

lemma dom_object_events:
  assumes "\<And>k r st es. (k, r) \<in> set ms \<Longrightarrow> dom_events (sax_events r @ es) st = rbind (handle_value (parsed r) st) (dom_events es)"
  shows "\<exists>e'. dom_events (object_events ms @ es) (object_frame m e # ref_stack, root) =
    dom_events es (object_frame (fold (\<lambda>(k, j) m. sm_assign k j m) (map (\<lambda>(k, r). (k, parsed r)) ms) m) e' # ref_stack, root)"
  using assms
proof (induction ms arbitrary: m e)
  case (Cons p ms)
  obtain k r where p: "p = (k, r)" by (cases p)
  have "dom_events (object_events (p # ms) @ es) (object_frame m e # ref_stack, root) =
    dom_events (object_events ms @ es) (object_frame (sm_assign k (parsed r) m) (Some k) # ref_stack, root)"
    using Cons.prems [of k r] p assign_over_null [of k "parsed r" m] by (simp del: if_split)
  moreover have "\<exists>e'. dom_events (object_events ms @ es) (object_frame (sm_assign k (parsed r) m) (Some k) # ref_stack, root) =
    dom_events es (object_frame (fold (\<lambda>(k, j) m. sm_assign k j m) (map (\<lambda>(k, r). (k, parsed r)) ms) (sm_assign k (parsed r) m)) e' # ref_stack, root)"
    by (rule Cons.IH) (rule Cons.prems, erule list.set_intros(2))
  ultimately show ?case unfolding p by simp
qed auto

lemma dom_sax_events: "dom_events (sax_events r @ es) st = rbind (handle_value (parsed r) st) (dom_events es)"
proof (induction r arbitrary: st es)
  case (RArr rs)
  obtain ref_stack root where st: "st = (ref_stack, root)" by (cases st)
  have "dom_events (array_events rs @ es') (array_frame xs # ref_stack, root) =
      dom_events es' (array_frame (xs @ map parsed rs) # ref_stack, root)" for xs es'
    using RArr.IH by (induction rs arbitrary: xs) auto
  with st show ?case by simp
next
  case (RObj ms)
  obtain ref_stack root where st: "st = (ref_stack, root)" by (cases st)
  have member: "dom_events (sax_events r @ es) st = rbind (handle_value (parsed r) st) (dom_events es)"
    if "(k, r) \<in> set ms" for k r st es
    using RObj.IH [of "(k, r)" r] that by (simp add: snds.simps)
  have "\<exists>e'. dom_events (object_events ms @ sax_end_object # es) (object_frame [] None # ref_stack, root) =
    dom_events (sax_end_object # es) (object_frame (fold (\<lambda>(k, j) m. sm_assign k j m) (map (\<lambda>(k, r). (k, parsed r)) ms) []) e' # ref_stack, root)"
    by (rule dom_object_events) (rule member)
  with st show ?case by auto
qed (auto simp: rbind_def split: sum.splits)

lemma dom_of_raw: "dom_events (sax_events r) ([], JNull) = Inr ([], parsed r)"
  using dom_sax_events [of r "[]" "([], JNull)"] by simp

lemma json_parse_raw: "sax_parse text = Inr (sax_events r) \<Longrightarrow> json_parse text = Inr (parsed r)"
  by (simp add: json_parse_def dom_of_raw)

lemma json_parse_cases:
  assumes "json_parse text = Inr j"
  obtains r where "sax_parse text = Inr (sax_events r)" "j = parsed r"
proof -
  from assms obtain es where es: "sax_parse text = Inr es" by (auto simp: json_parse_def rbind_eq_Inr)
  from sax_parse_raw [OF this] obtain r where "es = sax_events r" by blast
  with es json_parse_raw [of "text" r] assms that [of r] show thesis by auto
qed

lemma callback_events:
  "map callback_event (sax_events r) = events r"
  "map callback_event (object_events ms) = member_events ms"
  "map callback_event (array_events rs) = item_events rs"
  by (induction r and ms and rs rule: events_member_events_item_events.induct) simp_all

end
