(* ===== verification/Json_Writer.thy ===== *)
theory Json_Writer
  imports Json_Lexer
begin

section \<open>The text of documents: the serializer\<close>

text \<open>
  \<open>detail/output/serializer.hpp\<close> of the JSON library, with the settings the program uses: strings are written as they
  are but for the escapes (\<open>ensure_ascii\<close> is false), a string that is not UTF-8 raises 316, the indentation is made of blanks. The
  buffers are left out.
\<close>

subsection \<open>Strings\<close>

text \<open>The automaton that decodes UTF-8: the types of the bytes, then the rows of the states. 0 accepts, 1 rejects.\<close>

definition utf8d :: "nat list" where
  "utf8d =
     [0, 0, 0, 0, 0, 0, 0, 0, 0, 0, 0, 0, 0, 0, 0, 0,
      0, 0, 0, 0, 0, 0, 0, 0, 0, 0, 0, 0, 0, 0, 0, 0,
      0, 0, 0, 0, 0, 0, 0, 0, 0, 0, 0, 0, 0, 0, 0, 0,
      0, 0, 0, 0, 0, 0, 0, 0, 0, 0, 0, 0, 0, 0, 0, 0,
      0, 0, 0, 0, 0, 0, 0, 0, 0, 0, 0, 0, 0, 0, 0, 0,
      0, 0, 0, 0, 0, 0, 0, 0, 0, 0, 0, 0, 0, 0, 0, 0,
      0, 0, 0, 0, 0, 0, 0, 0, 0, 0, 0, 0, 0, 0, 0, 0,
      0, 0, 0, 0, 0, 0, 0, 0, 0, 0, 0, 0, 0, 0, 0, 0,
      1, 1, 1, 1, 1, 1, 1, 1, 1, 1, 1, 1, 1, 1, 1, 1,
      9, 9, 9, 9, 9, 9, 9, 9, 9, 9, 9, 9, 9, 9, 9, 9,
      7, 7, 7, 7, 7, 7, 7, 7, 7, 7, 7, 7, 7, 7, 7, 7,
      7, 7, 7, 7, 7, 7, 7, 7, 7, 7, 7, 7, 7, 7, 7, 7,
      8, 8, 2, 2, 2, 2, 2, 2, 2, 2, 2, 2, 2, 2, 2, 2,
      2, 2, 2, 2, 2, 2, 2, 2, 2, 2, 2, 2, 2, 2, 2, 2,
      10, 3, 3, 3, 3, 3, 3, 3, 3, 3, 3, 3, 3, 4, 3, 3,
      11, 6, 6, 6, 5, 8, 8, 8, 8, 8, 8, 8, 8, 8, 8, 8,
      0, 1, 2, 3, 5, 8, 7, 1, 1, 1, 4, 6, 1, 1, 1, 1,
      1, 1, 1, 1, 1, 1, 1, 1, 1, 1, 1, 1, 1, 1, 1, 1,
      1, 0, 1, 1, 1, 1, 1, 0, 1, 0, 1, 1, 1, 1, 1, 1,
      1, 2, 1, 1, 1, 1, 1, 2, 1, 2, 1, 1, 1, 1, 1, 1,
      1, 1, 1, 1, 1, 1, 1, 2, 1, 1, 1, 1, 1, 1, 1, 1,
      1, 2, 1, 1, 1, 1, 1, 1, 1, 2, 1, 1, 1, 1, 1, 1,
      1, 1, 1, 1, 1, 1, 1, 3, 1, 3, 1, 1, 1, 1, 1, 1,
      1, 3, 1, 1, 1, 1, 1, 3, 1, 3, 1, 1, 1, 1, 1, 1,
      1, 3, 1, 1, 1, 1, 1, 1, 1, 1, 1, 1, 1, 1, 1, 1]"

definition decode :: "nat \<Rightarrow> nat \<Rightarrow> nat \<Rightarrow> nat \<times> nat" where
  "decode state codep b =
     (let type = utf8d ! b;
          codep' = (if state \<noteq> 0 then (b AND 0x3F) OR push_bit 6 codep else drop_bit type 0xFF AND b)
      in (utf8d ! (256 + state * 16 + type), codep'))"

definition hex_char :: "nat \<Rightarrow> char" where
  "hex_char d = (if d < 10 then char_of (48 + d) else char_of (87 + d))"

text \<open>What is written for a code point whose last byte is \<open>c\<close>; \<open>snprintf\<close> with \<open>%04x\<close>.\<close>

definition escaped :: "nat \<Rightarrow> char \<Rightarrow> string" where
  "escaped codepoint c =
     (if codepoint = 0x08 then [backslash, CHR ''b'']
      else if codepoint = 0x09 then [backslash, CHR ''t'']
      else if codepoint = 0x0A then [backslash, CHR ''n'']
      else if codepoint = 0x0C then [backslash, CHR ''f'']
      else if codepoint = 0x0D then [backslash, CHR ''r'']
      else if codepoint = 0x22 then [backslash, quote_mark]
      else if codepoint = 0x5C then [backslash, backslash]
      else if codepoint \<le> 0x1F
        then [backslash, CHR ''u'', hex_char (codepoint div 4096 mod 16), hex_char (codepoint div 256 mod 16),
              hex_char (codepoint div 16 mod 16), hex_char (codepoint mod 16)]
      else [c])"

fun dump_escaped_from :: "nat \<Rightarrow> nat \<Rightarrow> string \<Rightarrow> string result" where
  "dump_escaped_from state codepoint [] = (if state = 0 then Inr [] else Inl (JsonError 316))"
| "dump_escaped_from state codepoint (c # s) =
     (case decode state codepoint (of_char c) of (state', codepoint') \<Rightarrow>
        if state' = 1 then Inl (JsonError 316)
        else rbind (dump_escaped_from state' codepoint' s) (\<lambda>t.
               Inr ((if state' = 0 then escaped codepoint' c else [c]) @ t)))"

definition dump_escaped :: "string \<Rightarrow> string result" where
  "dump_escaped s = dump_escaped_from 0 0 s"

subsection \<open>Integers\<close>

text \<open>
  The digits are written from the end of the buffer, two at a time from a table, into the room \<open>count_digits\<close> gives.
\<close>

fun count_digits :: "nat \<Rightarrow> nat" where
  "count_digits x =
     (if x < 10 then 1 else if x < 100 then 2 else if x < 1000 then 3 else if x < 10000 then 4
      else 4 + count_digits (x div 10000))"

declare count_digits.simps [simp del]

definition digits_to_99 :: "nat \<Rightarrow> string" where
  "digits_to_99 i = [char_of (48 + i div 10), char_of (48 + i mod 10)]"

fun fill_digits :: "nat \<Rightarrow> string" where
  "fill_digits abs_value =
     (if abs_value \<ge> 100 then fill_digits (abs_value div 100) @ digits_to_99 (abs_value mod 100)
      else if abs_value \<ge> 10 then digits_to_99 abs_value
      else [char_of (48 + abs_value)])"

declare fill_digits.simps [simp del]

definition dump_integer :: "int \<Rightarrow> string" where
  "dump_integer x =
     (if x = 0 then ''0''
      else if x < 0 then CHR ''-'' # fill_digits (nat (- (x + 1)) + 1)
      else fill_digits (nat x))"

subsection \<open>Documents\<close>

abbreviation newline :: char where "newline \<equiv> CHR 0x0A"

definition line_start :: "bool \<Rightarrow> nat \<Rightarrow> string" where
  "line_start pretty_print indent = (if pretty_print then newline # replicate indent (CHR 0x20) else [])"

text \<open>Members and elements are preceded by their indentation, and followed by a comma but for the last.\<close>

fun dump :: "bool \<Rightarrow> nat \<Rightarrow> nat \<Rightarrow> json \<Rightarrow> string result"
  and dump_members :: "bool \<Rightarrow> nat \<Rightarrow> nat \<Rightarrow> (string \<times> json) list \<Rightarrow> string result"
  and dump_elements :: "bool \<Rightarrow> nat \<Rightarrow> nat \<Rightarrow> json list \<Rightarrow> string result" where
  "dump pretty_print indent_step current_indent (JObj m) =
     (if m = [] then Inr ''{}''
      else rbind (dump_members pretty_print indent_step (current_indent + indent_step) m) (\<lambda>t.
             Inr (''{'' @ t @ line_start pretty_print current_indent @ ''}'')))"
| "dump pretty_print indent_step current_indent (JArr xs) =
     (if xs = [] then Inr ''[]''
      else rbind (dump_elements pretty_print indent_step (current_indent + indent_step) xs) (\<lambda>t.
             Inr (''['' @ t @ line_start pretty_print current_indent @ '']'')))"
| "dump pretty_print indent_step current_indent (JStr s) =
     rbind (dump_escaped s) (\<lambda>t. Inr (quote_mark # t @ [quote_mark]))"
| "dump pretty_print indent_step current_indent (JBool b) = Inr (if b then ''true'' else ''false'')"
| "dump pretty_print indent_step current_indent (JNum n) = Inr (dump_integer n)"
| "dump pretty_print indent_step current_indent JNull = Inr ''null''"
| "dump_members pretty_print indent_step new_indent [] = Inr []"
| "dump_members pretty_print indent_step new_indent ((k, v) # m) =
     rbind (dump_escaped k) (\<lambda>key_text.
     rbind (dump pretty_print indent_step new_indent v) (\<lambda>t.
     rbind (dump_members pretty_print indent_step new_indent m) (\<lambda>t'.
       Inr (line_start pretty_print new_indent @ quote_mark # key_text @ quote_mark #
            (if pretty_print then '': '' else '':'') @ t @ (if m = [] then [] else '','') @ t'))))"
| "dump_elements pretty_print indent_step new_indent [] = Inr []"
| "dump_elements pretty_print indent_step new_indent (x # xs) =
     rbind (dump pretty_print indent_step new_indent x) (\<lambda>t.
     rbind (dump_elements pretty_print indent_step new_indent xs) (\<lambda>t'.
       Inr (line_start pretty_print new_indent @ t @ (if xs = [] then [] else '','') @ t')))"

text \<open>\<open>json::dump\<close> without an argument, and the output to a stream of width 4.\<close>

definition json_dump :: "json \<Rightarrow> string result" where
  "json_dump j = dump False 0 0 j"

definition json_dump_indented :: "json \<Rightarrow> string result" where
  "json_dump_indented j = dump True 4 0 j"

end
