(* ===== verification/Json_Texts.thy ===== *)
theory Json_Texts
  imports Json_Reader Json_Writer
begin

section \<open>The strings of a text\<close>

text \<open>
  What the serializer writes for a string the lexer reads as that string, and every string the lexer accepts the
  serializer can write. The serializer decodes a string with the automaton of \<open>serializer::decode\<close>, the lexer by ranges of
  the bytes that may follow; both accept exactly the well-formed sequences of bytes.
\<close>

text \<open>The types of the bytes, and the ranges of the bytes that may follow in a state of the automaton.\<close>

definition byte_type :: "nat \<Rightarrow> nat" where
  "byte_type b =
     (if b < 0x80 then 0 else if b < 0x90 then 1 else if b < 0xA0 then 9 else if b < 0xC0 then 7
      else if b < 0xC2 then 8 else if b < 0xE0 then 2 else if b = 0xE0 then 10 else if b = 0xED then 4
      else if b < 0xF0 then 3 else if b = 0xF0 then 11 else if b < 0xF4 then 6 else if b = 0xF4 then 5 else 8)"

lemma byte_types: "take 256 utf8d = map byte_type [0..<256]"
  by code_simp

lemma utf8d_byte: "b < 256 \<Longrightarrow> utf8d ! b = byte_type b"
proof -
  assume "b < 256"
  then have "utf8d ! b = take 256 utf8d ! b" by simp
  with \<open>b < 256\<close> show ?thesis unfolding byte_types by simp
qed

definition to_come :: "nat \<Rightarrow> (int \<times> int) list" where
  "to_come state =
     (if state = 2 then [(0x80, 0xBF)]
      else if state = 3 then [(0x80, 0xBF), (0x80, 0xBF)]
      else if state = 4 then [(0xA0, 0xBF), (0x80, 0xBF)]
      else if state = 5 then [(0x80, 0x9F), (0x80, 0xBF)]
      else if state = 6 then [(0x90, 0xBF), (0x80, 0xBF), (0x80, 0xBF)]
      else if state = 7 then [(0x80, 0xBF), (0x80, 0xBF), (0x80, 0xBF)]
      else if state = 8 then [(0x80, 0x8F), (0x80, 0xBF), (0x80, 0xBF)]
      else [])"

definition next_state :: "nat \<Rightarrow> nat \<Rightarrow> nat" where
  "next_state state type =
     (if state = 0
      then (if type = 0 then 0 else if type = 2 then 2 else if type = 3 then 3 else if type = 4 then 5 else if type = 5 then 8
            else if type = 6 then 7 else if type = 10 then 4 else if type = 11 then 6 else 1)
      else if state = 2 then (if type \<in> {1, 7, 9} then 0 else 1)
      else if state = 3 then (if type \<in> {1, 7, 9} then 2 else 1)
      else if state = 4 then (if type = 7 then 2 else 1)
      else if state = 5 then (if type \<in> {1, 9} then 2 else 1)
      else if state = 6 then (if type \<in> {7, 9} then 3 else 1)
      else if state = 7 then (if type \<in> {1, 7, 9} then 3 else 1)
      else if state = 8 then (if type = 1 then 3 else 1)
      else 1)"

lemma state_rows: "drop 256 utf8d = map (\<lambda>i. next_state (i div 16) (i mod 16)) [0..<144]"
  by code_simp

lemma utf8d_state: "state < 9 \<Longrightarrow> type < 16 \<Longrightarrow> utf8d ! (256 + state * 16 + type) = next_state state type"
proof -
  assume a: "state < 9" "type < 16"
  have "length (drop 256 utf8d) = 144" unfolding state_rows by simp
  then have "256 \<le> length utf8d" by simp
  then have "utf8d ! (256 + state * 16 + type) = drop 256 utf8d ! (state * 16 + type)"
    by (simp add: add.assoc)
  with a show ?thesis unfolding state_rows by simp
qed

lemma byte_type_less: "byte_type b < 12"
  by (simp add: byte_type_def)

lemma decode_closed:
  assumes "b < 256" and "state < 9"
  shows "decode state codepoint b =
    (next_state state (byte_type b),
     if state \<noteq> 0 then (b AND 0x3F) OR push_bit 6 codepoint else drop_bit (byte_type b) 0xFF AND b)"
proof -
  have "utf8d ! (256 + state * 16 + byte_type b) = next_state state (byte_type b)"
    using byte_type_less [of b] by (intro utf8d_state assms(2)) simp
  then show ?thesis by (simp add: decode_def Let_def utf8d_byte [OF assms(1)])
qed

lemma mask_and: "(2 ^ n - 1 :: nat) AND b = b mod 2 ^ n"
  by (metis mask_eq_exp_minus_1 take_bit_eq_mask and.commute take_bit_eq_mod)

lemma low_bits:
  "(255 :: nat) AND b = b mod 256" "(63 :: nat) AND b = b mod 64" "(31 :: nat) AND b = b mod 32"
  "(15 :: nat) AND b = b mod 16" "(7 :: nat) AND b = b mod 8" "(3 :: nat) AND b = b mod 4"
  using mask_and [of 8 b] mask_and [of 6 b] mask_and [of 5 b] mask_and [of 4 b] mask_and [of 3 b] mask_and [of 2 b] by simp_all

lemma shifted_bytes:
  "drop_bit 0 (255 :: nat) = 255" "drop_bit 2 (255 :: nat) = 63" "drop_bit 3 (255 :: nat) = 31" "drop_bit 4 (255 :: nat) = 15"
  "drop_bit 5 (255 :: nat) = 7" "drop_bit 6 (255 :: nat) = 3"
  by (simp_all add: drop_bit_eq_div)

text \<open>The code point read so far is large enough that the whole one is not an ASCII character.\<close>

definition large :: "nat \<Rightarrow> nat \<Rightarrow> bool" where
  "large state codepoint \<longleftrightarrow>
     (if state = 2 then 2 \<le> codepoint else if state \<in> {3, 5, 7, 8} then 1 \<le> codepoint else True)"

definition expects :: "nat \<Rightarrow> bool" where
  "expects state \<longleftrightarrow> 2 \<le> state \<and> state \<le> 8"

lemma expects_cases:
  assumes "expects state"
  obtains "state = 2" | "state = 3" | "state = 4" | "state = 5" | "state = 6" | "state = 7" | "state = 8"
  using assms unfolding expects_def by linarith

lemma decode_lead:
  assumes "b < 256"
  shows "case decode 0 codepoint b of (state, codepoint') \<Rightarrow>
     if b < 0x80 then state = 0 \<and> codepoint' = b
     else (case following_ranges (int b) of
             None \<Rightarrow> state = 1
           | Some ranges \<Rightarrow> expects state \<and> to_come state = ranges \<and> large state codepoint')"
proof -
  consider "b < 0x80" | "0x80 \<le> b" "b < 0xC2" | "0xC2 \<le> b" "b < 0xE0" | "b = 0xE0" | "b = 0xED" | "0xE1 \<le> b" "b < 0xED"
    | "b = 0xEE" | "b = 0xEF" | "b = 0xF0" | "b = 0xF1" | "b = 0xF2" | "b = 0xF3" | "b = 0xF4" | "0xF5 \<le> b" by linarith
  then show ?thesis
  proof cases
    case 3
    then have "b mod 64 = b - 192" by (simp add: mod_if)
    moreover from 3 have "2 \<le> b - 192" by linarith
    ultimately show ?thesis using 3
      by (simp add: decode_closed byte_type_def next_state_def following_ranges_def to_come_def large_def expects_def low_bits shifted_bytes)
  next
    case 6
    then have "b mod 32 = b - 224" by (simp add: mod_if)
    moreover from 6 have "1 \<le> b - 224" by linarith
    ultimately show ?thesis using 6
      by (simp add: decode_closed byte_type_def next_state_def following_ranges_def to_come_def large_def expects_def low_bits shifted_bytes)
  qed (use assms in \<open>auto simp: decode_closed byte_type_def next_state_def following_ranges_def to_come_def large_def expects_def
      low_bits shifted_bytes\<close>)
qed

lemma codepoint_next: "((b :: nat) AND 0x3F) OR push_bit 6 codepoint = b mod 64 + 64 * codepoint"
proof -
  have "b AND 0x3F = take_bit 6 b" by (simp add: take_bit_eq_mask mask_eq_exp_minus_1)
  moreover have "take_bit 6 b OR push_bit 6 codepoint = take_bit 6 b + push_bit 6 codepoint"
    by (rule disjunctive_add [symmetric]) (simp add: bit_simps)
  ultimately show ?thesis by (simp add: take_bit_eq_mod push_bit_eq_mult)
qed

lemma next_state_following:
  assumes "expects state" and "to_come state = (lo, hi) # ranges" and "b < 256"
  shows "next_state state (byte_type b) =
     (if lo \<le> int b \<and> int b \<le> hi then (if ranges = [] then 0 else if tl ranges = [] then 2 else 3) else 1)"
    and "to_come (if ranges = [] then 0 else if tl ranges = [] then 2 else 3) = ranges"
    and "lo \<le> int b \<Longrightarrow> int b \<le> hi \<Longrightarrow> 128 \<le> b \<and> b < 192"
proof -
  consider "state = 2" | "state = 3" | "state = 4" | "state = 5" | "state = 6" | "state = 7" | "state = 8"
    by (rule expects_cases [OF assms(1)])
  note states = this
  from states show "next_state state (byte_type b) =
     (if lo \<le> int b \<and> int b \<le> hi then (if ranges = [] then 0 else if tl ranges = [] then 2 else 3) else 1)"
    by cases (use assms(2) in \<open>auto simp: to_come_def next_state_def byte_type_def\<close>)
  from states show "to_come (if ranges = [] then 0 else if tl ranges = [] then 2 else 3) = ranges"
    by cases (use assms(2) in \<open>auto simp: to_come_def\<close>)
  from states show "lo \<le> int b \<Longrightarrow> int b \<le> hi \<Longrightarrow> 128 \<le> b \<and> b < 192"
    by cases (use assms(2) in \<open>auto simp: to_come_def\<close>)
qed

lemma decode_following:
  assumes "expects state" and "b < 256" and "large state codepoint" and "to_come state = (lo, hi) # ranges"
  shows "case decode state codepoint b of (state', codepoint') \<Rightarrow>
    if lo \<le> int b \<and> int b \<le> hi
    then to_come state' = ranges \<and> (if ranges = [] then state' = 0 \<and> 0x80 \<le> codepoint' else expects state' \<and> large state' codepoint')
    else state' = 1"
proof -
  have d: "decode state codepoint b = (next_state state (byte_type b), b mod 64 + 64 * codepoint)"
    using assms(1,2) by (simp add: decode_closed codepoint_next expects_def)
  note n = next_state_following [OF assms(1,4,2)]
  show ?thesis
  proof (cases "lo \<le> int b \<and> int b \<le> hi")
    case False
    with d n(1) show ?thesis by (simp only: prod.case if_not_P if_False)
  next
    case True
    then have "128 \<le> b" "b < 192" using n(3) by auto
    then have "b = (b - 128) + 2 * 64" "b - 128 < 64" by auto
    then obtain k where k: "b = k + 2 * 64" "k < 64" by blast
    have "b mod 64 = k mod 64" unfolding k(1) by (rule mod_mult_self1)
    with k have m: "b mod 64 = b - 128" by simp
    consider "state = 2" "ranges = []" | "state \<in> {3, 5, 7, 8}" "ranges \<noteq> []" | "state = 4" "ranges \<noteq> []" "lo = 160" | "state = 6" "ranges \<noteq> []" "lo = 144"
      by (rule expects_cases [OF assms(1)]) (use assms(4) in \<open>auto simp: to_come_def\<close>)
    then show ?thesis
      by cases (use True d n m assms(3) in \<open>auto simp: large_def expects_def\<close>)
  qed
qed

text \<open>The bytes of one code point that are not ASCII are written as they are, and read again.\<close>

lemma dump_rest_of_codepoint:
  assumes "expects state" and "large state codepoint" and "dump_escaped_from state codepoint s = Inr t"
  shows "\<exists>bs rest codepoint' t'. s = bs @ rest \<and> t = bs @ t' \<and> dump_escaped_from 0 codepoint' rest = Inr t' \<and>
    (\<forall>u. next_byte_in_range (to_come state) (bs @ u) = Some (bs, u))"
  using assms
proof (induction s arbitrary: state codepoint t)
  case Nil
  then show ?case by (simp add: expects_def)
next
  case (Cons c s)
  have "to_come state \<noteq> []" by (rule expects_cases [OF Cons.prems(1)]) (simp_all add: to_come_def)
  then obtain lo hi ranges where r: "to_come state = (lo, hi) # ranges" by (cases "to_come state") auto
  obtain state' codepoint' where d: "decode state codepoint (of_char c) = (state', codepoint')" by fastforce
  with Cons.prems(3) obtain t1 where ok: "state' \<noteq> 1" and t1: "dump_escaped_from state' codepoint' s = Inr t1"
    and t: "t = (if state' = 0 then escaped codepoint' c else [c]) @ t1"
    by (auto simp: rbind_eq_Inr split: if_splits)
  have "int (of_char c) = byte c" by (rule of_nat_of_char)
  with decode_following [OF Cons.prems(1) _ Cons.prems(2) r, of "of_char c"] d ok
  have range: "lo \<le> byte c" "byte c \<le> hi" and s': "to_come state' = ranges"
    "if ranges = [] then state' = 0 \<and> 0x80 \<le> codepoint' else expects state' \<and> large state' codepoint'"
    by (auto split: if_splits)
  show ?case
  proof (cases "ranges = []")
    case True
    with s' have "escaped codepoint' c = [c]" "state' = 0" by (auto simp: escaped_def)
    with t t1 True r range show ?thesis
      by (intro exI [of _ "[c]"] exI [of _ s] exI [of _ codepoint'] exI [of _ t1]) simp
  next
    case False
    with s' have st: "expects state'" "large state' codepoint'" by auto
    from Cons.IH [OF this t1] obtain bs rest codepoint'' t' where i: "s = bs @ rest" "t1 = bs @ t'"
      "dump_escaped_from 0 codepoint'' rest = Inr t'" "\<forall>u. next_byte_in_range (to_come state') (bs @ u) = Some (bs, u)"
      by blast
    from st have "state' \<noteq> 0" by (simp add: expects_def)
    with i t r range s'(1) show ?thesis
      by (intro exI [of _ "c # bs"] exI [of _ rest] exI [of _ codepoint''] exI [of _ t']) simp
  qed
qed

text \<open>ASCII characters.\<close>

definition hex4 :: "nat \<Rightarrow> string" where
  "hex4 n = [hex_char (n div 4096 mod 16), hex_char (n div 256 mod 16), hex_char (n div 16 mod 16), hex_char (n mod 16)]"

lemma hex_char_values: "list_all (\<lambda>d. hex_digit (hex_char d) = Some (int d)) [0..<16]"
  by code_simp

lemma hex_digit_char: "d < 16 \<Longrightarrow> hex_digit (hex_char d) = Some (int d)"
  using hex_char_values by (simp add: list_all_iff)

lemma get_codepoint_hex4: "n < 32 \<Longrightarrow> get_codepoint (hex4 n @ u) = Some (int n, u)"
  using mult_div_mod_eq [of 16 n] by (simp add: hex4_def hex_digit_char push_bit_eq_mult zdiv_int zmod_int)

lemma special_chars:
  "char_of (0x08 :: nat) = CHR 0x08" "char_of (0x09 :: nat) = CHR 0x09" "char_of (0x0A :: nat) = CHR 0x0A"
  "char_of (0x0C :: nat) = CHR 0x0C" "char_of (0x0D :: nat) = CHR 0x0D" "char_of (0x22 :: nat) = CHR 0x22"
  "char_of (0x5C :: nat) = CHR 0x5C"
  by code_simp+

lemma scan_ascii:
  assumes "(of_char c :: nat) < 0x80"
  shows "\<exists>a as. escaped (of_char c) c = a # as \<and> a \<noteq> quote_mark \<and> scan_char (a # as @ u) = Some ([c], u)"
proof -
  let ?n = "of_char c :: nat"
  have c: "c = char_of ?n" by simp
  have "\<exists>a as. escaped (of_char c) c = a # as" by (auto simp: escaped_def)
  consider (special) "?n \<in> {0x08, 0x09, 0x0A, 0x0C, 0x0D, 0x22, 0x5C}" | (control) "?n \<le> 0x1F" "?n \<notin> {0x08, 0x09, 0x0A, 0x0C, 0x0D}"
    | (plain) "0x1F < ?n" "?n \<noteq> 0x22" "?n \<noteq> 0x5C" by fastforce
  then show ?thesis
  proof cases
    case special
    then have "c \<in> char_of ` {0x08, 0x09, 0x0A, 0x0C, 0x0D, 0x22, 0x5C :: nat}" by (subst c) (rule imageI)
    then show ?thesis by (auto simp: escaped_def special_chars)
  next
    case control
    then have "escaped ?n c = backslash # CHR ''u'' # hex4 ?n" by (auto simp: escaped_def hex4_def)
    moreover from control have "scan_char (backslash # CHR ''u'' # hex4 ?n @ u) = Some ([c], u)"
      by (simp add: scan_unicode_def get_codepoint_hex4 codepoint_bytes_def)
    ultimately show ?thesis by simp
  next
    case plain
    then have "escaped ?n c = [c]" by (simp add: escaped_def)
    moreover have "c \<noteq> quote_mark" "c \<noteq> backslash" using plain by (intro notI; simp)+
    moreover have "byte c = int ?n" by (simp add: of_nat_of_char)
    with plain assms have "following_ranges (byte c) = Some []" by (simp add: following_ranges_def)
    ultimately show ?thesis by simp
  qed
qed

lemma scan_dumped_string:
  "dump_escaped_from 0 codepoint s = Inr t \<Longrightarrow> scan_string (t @ quote_mark # u) = Some (s, u)"
proof (induction "length s" arbitrary: s codepoint t rule: less_induct)
  case less
  show ?case
  proof (cases s)
    case Nil
    with less.prems show ?thesis by (simp add: scan_string_unfold)
  next
    case (Cons c s')
    let ?b = "of_char c :: nat"
    have b: "?b < 256" "int ?b = byte c" by (simp_all add: of_nat_of_char)
    obtain state' codepoint' where d: "decode 0 codepoint ?b = (state', codepoint')" by fastforce
    with less.prems Cons obtain t1 where ok: "state' \<noteq> 1" and t1: "dump_escaped_from state' codepoint' s' = Inr t1"
      and t: "t = (if state' = 0 then escaped codepoint' c else [c]) @ t1"
      by (auto simp: rbind_eq_Inr split: if_splits)
    note lead = decode_lead [OF b(1), of codepoint, unfolded d prod.case]
    show ?thesis
    proof (cases "?b < 0x80")
      case True
      with lead have st: "state' = 0" "codepoint' = ?b" by auto
      from scan_ascii [OF True, of "t1 @ quote_mark # u"] obtain a as where
        e: "escaped ?b c = a # as" "a \<noteq> quote_mark" "scan_char (a # as @ t1 @ quote_mark # u) = Some ([c], t1 @ quote_mark # u)" by blast
      have "scan_string (t1 @ quote_mark # u) = Some (s', u)"
        by (rule less.hyps [OF _ t1 [unfolded st(1)]]) (simp add: Cons)
      with e t st Cons show ?thesis by (simp add: scan_string_unfold del: scan_char.simps)
    next
      case False
      with lead ok b(2) obtain ranges where r: "following_ranges (byte c) = Some ranges"
        "expects state'" "to_come state' = ranges" "large state' codepoint'" by (auto split: option.splits)
      from dump_rest_of_codepoint [OF r(2,4) t1] obtain bs rest codepoint'' t' where
        i: "s' = bs @ rest" "t1 = bs @ t'" "dump_escaped_from 0 codepoint'' rest = Inr t'"
        "\<forall>u. next_byte_in_range ranges (bs @ u) = Some (bs, u)" unfolding r(3) by blast
      from r(2) have "state' \<noteq> 0" by (simp add: expects_def)
      moreover have "c \<noteq> quote_mark" "c \<noteq> backslash" using False by (intro notI; simp)+
      moreover have "scan_string (t' @ quote_mark # u) = Some (rest, u)"
        by (rule less.hyps [OF _ i(3)]) (simp add: Cons i(1))
      ultimately show ?thesis using t i r(1) Cons by (simp add: scan_string_unfold)
    qed
  qed
qed

end
