(* ===== verification/Json_Patch.thy ===== *)
theory Json_Patch
  imports Json
begin

section \<open>Patches and differences of documents\<close>

text \<open>
  \<open>patch\<close>, \<open>diff\<close> and \<open>merge_patch\<close> of \<open>src/lib/external/nlohmann/json.hpp\<close>, on which every change of a
  configuration rests, with the checked access through a pointer they use. A patch raises at its first
  operation that fails, and the copy it worked on is lost. The main fact is that the difference of two
  documents, applied to the first, gives the second.
\<close>

subsection \<open>Checked access\<close>

text \<open>
  \<open>at(index)\<close>; \<open>at(pointer)\<close>; and a change made through the reference that \<open>at(pointer)\<close> gives.
\<close>

fun json_at_nth :: "json \<Rightarrow> nat \<Rightarrow> json result" where
  "json_at_nth (JArr xs) i = (if i < length xs then Inr (xs ! i) else Inl (JsonError 401))"
| "json_at_nth j i = Inl (JsonError 304)"

definition checked_index :: "string \<Rightarrow> nat result" where
  "checked_index t = (if t = ''-'' then Inl (JsonError 402) else array_index t)"

fun json_checked :: "pointer \<Rightarrow> json \<Rightarrow> json result" where
  "json_checked [] j = Inr j"
| "json_checked (t # ts) j =
     (case j of
        JObj m \<Rightarrow> rbind (json_at j t) (json_checked ts)
      | JArr xs \<Rightarrow> rbind (checked_index t) (\<lambda>i. rbind (json_at_nth j i) (json_checked ts))
      | _ \<Rightarrow> Inl (JsonError 404))"

fun json_alter :: "pointer \<Rightarrow> (json \<Rightarrow> json result) \<Rightarrow> json \<Rightarrow> json result" where
  "json_alter [] f j = f j"
| "json_alter (t # ts) f j =
     (case j of
        JObj m \<Rightarrow>
          rbind (json_at j t) (\<lambda>x. rbind (json_alter ts f x) (\<lambda>x'. Inr (JObj (sm_assign t x' m))))
      | JArr xs \<Rightarrow>
          rbind (checked_index t) (\<lambda>i. rbind (json_at_nth j i) (\<lambda>x.
            rbind (json_alter ts f x) (\<lambda>x'. Inr (JArr (xs[i := x'])))))
      | _ \<Rightarrow> Inl (JsonError 404))"

subsection \<open>Patches\<close>

text \<open>
  Adding to a value that is neither null, nor an object, nor an array runs into a failed assertion, which
  ends the process; removing from one changes nothing.
\<close>

definition add_to_parent :: "string \<Rightarrow> json \<Rightarrow> json \<Rightarrow> json result" where
  "add_to_parent last_path val parent =
     (case parent of
        JNull \<Rightarrow> json_set last_path val parent
      | JObj m \<Rightarrow> json_set last_path val parent
      | JArr xs \<Rightarrow>
          if last_path = ''-'' then Inr (JArr (xs @ [val]))
          else rbind (array_index last_path) (\<lambda>idx.
                 if idx > length xs then Inl (JsonError 401)
                 else Inr (JArr (take idx xs @ val # drop idx xs)))
      | _ \<Rightarrow> Inl ProcessExit)"

definition operation_add :: "pointer \<Rightarrow> json \<Rightarrow> json \<Rightarrow> json result" where
  "operation_add ptr val doc =
     (if ptr = [] then Inr val
      else rbind (if tl ptr \<noteq> [] then json_checked [hd ptr] doc else Inr doc) (\<lambda>_.
             json_alter (butlast ptr) (add_to_parent (last ptr) val) doc))"

definition remove_from_parent :: "string \<Rightarrow> json \<Rightarrow> json result" where
  "remove_from_parent last_path parent =
     (case parent of
        JObj m \<Rightarrow>
          if sm_contains m last_path then Inr (JObj (sm_erase last_path m)) else Inl (JsonError 403)
      | JArr xs \<Rightarrow>
          rbind (array_index last_path) (\<lambda>idx.
            if idx \<ge> length xs then Inl (JsonError 401) else Inr (JArr (take idx xs @ drop (Suc idx) xs)))
      | _ \<Rightarrow> Inr parent)"

definition operation_remove :: "pointer \<Rightarrow> json \<Rightarrow> json result" where
  "operation_remove ptr doc =
     rbind (pointer_back ptr) (\<lambda>last_path. rbind (pointer_pop_back ptr) (\<lambda>up.
       json_alter up (remove_from_parent last_path) doc))"

datatype patch_operation = Op_add | Op_remove | Op_replace | Op_move | Op_copy | Op_test | Op_invalid

definition get_op :: "string \<Rightarrow> patch_operation" where
  "get_op op =
     (if op = ''add'' then Op_add else if op = ''remove'' then Op_remove
      else if op = ''replace'' then Op_replace else if op = ''move'' then Op_move
      else if op = ''copy'' then Op_copy else if op = ''test'' then Op_test else Op_invalid)"

text \<open>A member of an item, and a member that must be a string.\<close>

definition get_value :: "json \<Rightarrow> string \<Rightarrow> json result" where
  "get_value item k = (case json_find item k of None \<Rightarrow> Inl (JsonError 105) | Some v \<Rightarrow> Inr v)"

definition get_string_value :: "json \<Rightarrow> string \<Rightarrow> string result" where
  "get_string_value item k =
     rbind (get_value item k) (\<lambda>v. case v of JStr s \<Rightarrow> Inr s | _ \<Rightarrow> Inl (JsonError 105))"

text \<open>Of the errors of a test only those of the class \<open>out_of_range\<close> count as its failure.\<close>

definition out_of_range_error :: "exn \<Rightarrow> bool" where
  "out_of_range_error e \<longleftrightarrow> (\<exists>n \<in> {401, 402, 403, 404, 405, 410}. e = JsonError n)"

definition operation_test :: "pointer \<Rightarrow> json \<Rightarrow> json \<Rightarrow> json result" where
  "operation_test ptr item doc =
     (case rbind (json_checked ptr doc) (\<lambda>x. rbind (get_value item ''value'') (\<lambda>v. Inr (x = v))) of
        Inr True \<Rightarrow> Inr doc
      | Inr False \<Rightarrow> Inl (JsonError 501)
      | Inl e \<Rightarrow> if out_of_range_error e then Inl (JsonError 501) else Inl e)"

definition operation_move :: "pointer \<Rightarrow> pointer \<Rightarrow> json \<Rightarrow> json result" where
  "operation_move from_ptr ptr doc =
     rbind (json_checked from_ptr doc) (\<lambda>v. rbind (operation_remove from_ptr doc) (operation_add ptr v))"

definition from_pointer :: "json \<Rightarrow> pointer result" where
  "from_pointer item = rbind (get_string_value item ''from'') pointer_parse"

fun is_JObj :: "json \<Rightarrow> bool" where
  "is_JObj (JObj m) = True"
| "is_JObj j = False"

definition patch_step :: "json \<Rightarrow> json \<Rightarrow> json result" where
  "patch_step item doc =
     (if \<not> is_JObj item then Inl (JsonError 104)
      else rbind (get_string_value item ''op'') (\<lambda>op. rbind (get_string_value item ''path'') (\<lambda>path.
             rbind (pointer_parse path) (\<lambda>ptr.
               case get_op op of
                 Op_add \<Rightarrow> rbind (get_value item ''value'') (\<lambda>v. operation_add ptr v doc)
               | Op_remove \<Rightarrow> operation_remove ptr doc
               | Op_replace \<Rightarrow> rbind (get_value item ''value'') (\<lambda>v. json_alter ptr (\<lambda>_. Inr v) doc)
               | Op_move \<Rightarrow> rbind (from_pointer item) (\<lambda>from_ptr. operation_move from_ptr ptr doc)
               | Op_copy \<Rightarrow> rbind (from_pointer item) (\<lambda>from_ptr. rbind (json_checked from_ptr doc) (\<lambda>v. operation_add ptr v doc))
               | Op_test \<Rightarrow> operation_test ptr item doc
               | Op_invalid \<Rightarrow> Inl (JsonError 105)))))"

fun patch_items :: "json list \<Rightarrow> json \<Rightarrow> json result" where
  "patch_items [] doc = Inr doc"
| "patch_items (item # items) doc = rbind (patch_step item doc) (patch_items items)"

definition json_patch :: "json \<Rightarrow> json \<Rightarrow> json result" where
  "json_patch doc patch = (case patch of JArr items \<Rightarrow> patch_items items doc | _ \<Rightarrow> Inl (JsonError 104))"

subsection \<open>Differences\<close>

definition replace_item :: "string \<Rightarrow> json \<Rightarrow> json" where
  "replace_item path v = JObj [(''op'', JStr ''replace''), (''path'', JStr path), (''value'', v)]"

definition add_item :: "string \<Rightarrow> json \<Rightarrow> json" where
  "add_item path v = JObj [(''op'', JStr ''add''), (''path'', JStr path), (''value'', v)]"

definition remove_item :: "string \<Rightarrow> json" where
  "remove_item path = JObj [(''op'', JStr ''remove''), (''path'', JStr path)]"

definition sub_path :: "string \<Rightarrow> string \<Rightarrow> string" where
  "sub_path path t = path @ ''/'' @ t"

text \<open>
  Arrays are compared index by index; what the source has more is removed from the end, what the target
  has more is appended. Of objects, the members of the source come first, then the members that only the
  target has.
\<close>

definition remove_tail :: "nat \<Rightarrow> nat \<Rightarrow> string \<Rightarrow> json list" where
  "remove_tail to from path = map (\<lambda>i. remove_item (sub_path path (digits i))) (rev [to..<from])"

definition add_tail :: "json list \<Rightarrow> string \<Rightarrow> json list" where
  "add_tail ys path = map (add_item (sub_path path ''-'')) ys"

definition add_members :: "(string, json) smap \<Rightarrow> (string, json) smap \<Rightarrow> string \<Rightarrow> json list" where
  "add_members m n path =
     map (\<lambda>(k, v). add_item (sub_path path (escape k)) v) (filter (\<lambda>(k, v). \<not> sm_contains m k) n)"

function (sequential) json_diff_items :: "json \<Rightarrow> json \<Rightarrow> string \<Rightarrow> json list"
  and diff_elements :: "json list \<Rightarrow> json list \<Rightarrow> nat \<Rightarrow> string \<Rightarrow> json list"
  and diff_members :: "(string \<times> json) list \<Rightarrow> (string, json) smap \<Rightarrow> string \<Rightarrow> json list" where
  "json_diff_items (JArr xs) (JArr ys) path =
     (if xs = ys then []
      else diff_elements xs ys 0 path @ remove_tail (length ys) (length xs) path @ add_tail (drop (length xs) ys) path)"
| "json_diff_items (JObj m) (JObj n) path =
     (if m = n then [] else diff_members m n path @ add_members m n path)"
| "json_diff_items a b path = (if a = b then [] else [replace_item path b])"
| "diff_elements (x # xs) (y # ys) i path = json_diff_items x y (sub_path path (digits i)) @ diff_elements xs ys (Suc i) path"
| "diff_elements xs ys i path = []"
| "diff_members [] n path = []"
| "diff_members ((k, v) # m) n path =
     (case sm_find n k of
        Some w \<Rightarrow> json_diff_items v w (sub_path path (escape k))
      | None \<Rightarrow> [remove_item (sub_path path (escape k))]) @ diff_members m n path"
  by pat_completeness auto

termination
  by (relation "measure (\<lambda>s. case s of Inl (a, b, p) \<Rightarrow> size a | Inr (Inl (xs, ys, i, p)) \<Rightarrow> size_list size xs
      | Inr (Inr (m, n, p)) \<Rightarrow> size_list (size_prod (\<lambda>_. 0) size) m)") auto

definition json_diff :: "json \<Rightarrow> json \<Rightarrow> json" where
  "json_diff source target = JArr (json_diff_items source target [])"

subsection \<open>Merge patches\<close>

function (sequential) merge_patch :: "json \<Rightarrow> json \<Rightarrow> json"
  and merge_members :: "(string \<times> json) list \<Rightarrow> (string, json) smap \<Rightarrow> (string, json) smap" where
  "merge_patch (JObj p) (JObj m) = JObj (merge_members p m)"
| "merge_patch (JObj p) j = JObj (merge_members p [])"
| "merge_patch p j = p"
| "merge_members [] m = m"
| "merge_members ((k, JNull) # p) m = merge_members p (sm_erase k m)"
| "merge_members ((k, v) # p) m =
     merge_members p (sm_assign k (merge_patch v (case sm_find m k of None \<Rightarrow> JNull | Some x \<Rightarrow> x)) m)"
  by pat_completeness auto

termination
  by (relation "measure (\<lambda>s. case s of Inl (p, j) \<Rightarrow> size p
      | Inr (p, m) \<Rightarrow> size_list (size_prod (\<lambda>_. 0) size) p)") auto

subsection \<open>Edits below a place\<close>

text \<open>
  An item of a difference as an edit. Applied below a place it acts there as it acts on the document at
  that place, which is what lets the proof follow the recursion.
\<close>

datatype edit = Add pointer json | Remove pointer | Replace pointer json

fun item_of :: "edit \<Rightarrow> json" where
  "item_of (Add p v) = add_item (pointer_to_string p) v"
| "item_of (Remove p) = remove_item (pointer_to_string p)"
| "item_of (Replace p v) = replace_item (pointer_to_string p) v"

fun apply_edit :: "edit \<Rightarrow> json \<Rightarrow> json result" where
  "apply_edit (Add p v) j = operation_add p v j"
| "apply_edit (Remove p) j = operation_remove p j"
| "apply_edit (Replace p v) j = json_alter p (\<lambda>_. Inr v) j"

fun run_edits :: "edit list \<Rightarrow> json \<Rightarrow> json result" where
  "run_edits [] j = Inr j"
| "run_edits (e # es) j = rbind (apply_edit e j) (run_edits es)"

fun under :: "pointer \<Rightarrow> edit \<Rightarrow> edit" where
  "under ts (Add p v) = Add (ts @ p) v"
| "under ts (Remove p) = Remove (ts @ p)"
| "under ts (Replace p v) = Replace (ts @ p) v"

text \<open>Edits of a difference never add or remove the whole document.\<close>

fun inner :: "edit \<Rightarrow> bool" where
  "inner (Add p v) \<longleftrightarrow> p \<noteq> []"
| "inner (Remove p) \<longleftrightarrow> p \<noteq> []"
| "inner (Replace p v) \<longleftrightarrow> True"

lemma under_under: "under ts (under us e) = under (ts @ us) e"
  by (cases e) auto

lemma inner_under: "inner e \<Longrightarrow> inner (under ts e)"
  by (cases e) auto

lemma patch_step_item: "patch_step (item_of e) j = apply_edit e j"
  by (cases e) (simp_all add: add_item_def remove_item_def replace_item_def patch_step_def get_string_value_def
      get_value_def get_op_def)

lemma patch_items_edits: "patch_items (map item_of es) j = run_edits es j"
  by (induction es arbitrary: j) (simp_all add: patch_step_item, metis (no_types, lifting) rbind_def)

lemma run_edits_append: "run_edits (es @ fs) j = rbind (run_edits es j) (run_edits fs)"
  by (induction es arbitrary: j) (auto simp: rbind_def split: sum.splits)

lemma json_alter_append: "json_alter (ts @ us) f j = json_alter ts (json_alter us f) j"
proof (induction ts arbitrary: j)
  case (Cons t ts)
  then have "json_alter (ts @ us) f = json_alter ts (json_alter us f)" by blast
  then show ?case by (simp split: json.split)
qed simp

lemma operation_add_alter:
  "operation_add p v j = (if p = [] then Inr v else json_alter (butlast p) (add_to_parent (last p) v) j)"
proof (cases "p \<noteq> [] \<and> tl p \<noteq> []")
  case True
  then obtain t us where t: "butlast p = t # us" "hd p = t" by (cases p) auto
  have "rbind (json_checked [t] j) (\<lambda>_. json_alter (t # us) f j) = json_alter (t # us) f j" for f
    by (cases j) (auto simp: rbind_def split: sum.splits)
  with True t show ?thesis by (simp add: operation_add_def)
qed (auto simp: operation_add_def)

lemma apply_under: "inner e \<Longrightarrow> apply_edit (under ts e) j = json_alter ts (apply_edit e) j"
proof (cases e)
  case (Add p v)
  assume "inner e"
  with Add have "p \<noteq> []" by simp
  with Add have "apply_edit e = json_alter (butlast p) (add_to_parent (last p) v)"
    by (simp add: fun_eq_iff operation_add_alter)
  with Add \<open>p \<noteq> []\<close> show ?thesis by (simp add: operation_add_alter butlast_append json_alter_append)
next
  case (Remove p)
  assume "inner e"
  with Remove have "p \<noteq> []" by simp
  with Remove have "apply_edit e = json_alter (butlast p) (remove_from_parent (last p))"
    by (simp add: fun_eq_iff operation_remove_def pointer_back_def pointer_pop_back_def)
  with Remove \<open>p \<noteq> []\<close> show ?thesis
    by (simp add: operation_remove_def pointer_back_def pointer_pop_back_def butlast_append json_alter_append)
next
  case (Replace p v)
  then have "apply_edit e = json_alter p (\<lambda>_. Inr v)" by (simp add: fun_eq_iff)
  with Replace show ?thesis by (simp add: json_alter_append)
qed

lemma sm_assign_assign: "sm_sorted m \<Longrightarrow> sm_assign k w (sm_assign k v m) = sm_assign k w m"
  by (rule smap_eqI) (auto simp: fun_eq_iff)

lemma run_under_member:
  "\<forall>e \<in> set es. inner e \<Longrightarrow> sm_sorted m \<Longrightarrow> sm_find m k = Some v \<Longrightarrow> run_edits es v = Inr w \<Longrightarrow>
     run_edits (map (under [k]) es) (JObj m) = Inr (JObj (sm_assign k w m))"
proof (induction es arbitrary: m v)
  case Nil
  then show ?case by (simp add: sm_assign_same)
next
  case (Cons e es)
  then obtain x where x: "apply_edit e v = Inr x" "run_edits es x = Inr w" by (auto simp: rbind_eq_Inr)
  have "apply_edit (under [k] e) (JObj m) = Inr (JObj (sm_assign k x m))"
    using Cons.prems x by (simp add: apply_under)
  with Cons.IH [of "sm_assign k x m" x] Cons.prems x show ?case by (simp add: sm_assign_assign)
qed

text \<open>An array index reads back from its text, as long as the array could be indexed at all.\<close>

lemma digits_are_digits: "list_all is_digit (digits n)"
proof (induction n rule: digits.induct)
  case (1 n)
  have "is_digit (char_of (48 + d))" if "d < 10" for d :: nat
    using that by (simp add: is_digit_def less_eq_char_def)
  with 1 show ?case by (cases "n < 10") (simp_all add: digits.simps [of n])
qed

lemma digits_no_zero: "length (digits n) > 1 \<Longrightarrow> hd (digits n) \<noteq> CHR ''0''"
proof (induction n rule: digits.induct)
  case (1 n)
  show ?case
  proof (cases "n < 10")
    case False
    then have n: "digits n = digits (n div 10) @ [char_of (48 + n mod 10)]" by (simp add: digits.simps [of n])
    have ne: "digits (n div 10) \<noteq> []" using digits_hd by blast
    show ?thesis
    proof (cases "n div 10 < 10")
      case True
      from False have "0 < n div 10" by (simp add: div_greater_zero_iff)
      then have "char_of (48 + n div 10) \<noteq> CHR ''0''"
        using True char_of_eq_iff [of "48 + n div 10" "CHR ''0''"] by (auto simp: take_bit_eq_mod)
      with True n show ?thesis by (simp add: digits.simps [of "n div 10"])
    next
      case big: False
      then have "length (digits (n div 10)) > 1"
        using digits_hd [of "n div 10 div 10"] by (simp add: digits.simps [of "n div 10"])
      with 1(1) [OF False] n ne show ?thesis by simp
    qed
  qed (use 1 in \<open>simp add: digits.simps [of n]\<close>)
qed

definition index_limit :: nat where
  "index_limit = 2 ^ 64 - 1"

lemma array_index_digits:
  assumes "n < index_limit"
  shows "array_index (digits n) = Inr n"
proof -
  have "digits n \<noteq> []" using digits_hd by blast
  moreover from this have "is_digit (hd (digits n))"
    using digits_are_digits by (metis list.pred_set hd_in_set)
  ultimately show ?thesis
    using assms digits_no_zero digits_are_digits by (auto simp: array_index_def index_limit_def digits_value_digits)
qed

lemma digit_chars: "c \<in> set (digits n) \<Longrightarrow> CHR ''0'' \<le> c \<and> c \<le> CHR ''9''"
  using digits_are_digits [of n] by (simp add: list.pred_set is_digit_def)

lemma escape_plain: "CHR ''~'' \<notin> set s \<Longrightarrow> CHR ''/'' \<notin> set s \<Longrightarrow> escape s = s"
  unfolding escape_chars by (induction s) (auto simp: escape_char_def)

lemma escape_digits: "escape (digits n) = digits n"
  by (rule escape_plain) (auto dest!: digit_chars simp: less_eq_char_def)

lemma digits_not_end: "digits n \<noteq> ''-''"
  using digits_hd [of n] by auto

lemma checked_index_digits: "n < index_limit \<Longrightarrow> checked_index (digits n) = Inr n"
  by (simp add: checked_index_def array_index_digits digits_not_end)

lemma run_under_element:
  "\<forall>e \<in> set es. inner e \<Longrightarrow> i < length xs \<Longrightarrow> i < index_limit \<Longrightarrow> run_edits es (xs ! i) = Inr w \<Longrightarrow>
     run_edits (map (under [digits i]) es) (JArr xs) = Inr (JArr (xs[i := w]))"
proof (induction es arbitrary: xs)
  case Nil
  then show ?case by auto
next
  case (Cons e es)
  then obtain x where x: "apply_edit e (xs ! i) = Inr x" "run_edits es x = Inr w" by (auto simp: rbind_eq_Inr)
  have "apply_edit (under [digits i] e) (JArr xs) = Inr (JArr (xs[i := x]))"
    using Cons.prems x by (simp add: apply_under checked_index_digits)
  with Cons.IH [of "xs[i := x]"] Cons.prems x show ?case by simp
qed

subsection \<open>The difference leads from the source to the target\<close>

text \<open>Documents whose arrays are not longer than an index can say.\<close>

fun indexable :: "json \<Rightarrow> bool" where
  "indexable (JArr xs) \<longleftrightarrow> length xs \<le> index_limit \<and> (\<forall>x \<in> set xs. indexable x)"
| "indexable (JObj m) \<longleftrightarrow> (\<forall>(k, v) \<in> set m. indexable v)"
| "indexable j \<longleftrightarrow> True"

text \<open>\<open>leads items ts a b\<close>: below the place \<open>ts\<close>, the items are edits that turn \<open>a\<close> into \<open>b\<close>.\<close>

definition leads :: "json list \<Rightarrow> pointer \<Rightarrow> json \<Rightarrow> json \<Rightarrow> bool" where
  "leads items ts a b \<longleftrightarrow>
     (\<exists>es. items = map (item_of \<circ> under ts) es \<and> (\<forall>e \<in> set es. inner e) \<and> run_edits es a = Inr b)"

lemma leads_Nil [simp]: "leads [] ts a a"
  by (simp add: leads_def)

lemma leads_append: "leads is ts a b \<Longrightarrow> leads js ts b c \<Longrightarrow> leads (is @ js) ts a c"
  unfolding leads_def by (elim exE, rule_tac x = "es @ esa" in exI) (auto simp: run_edits_append)

lemma under_Nil [simp]: "under [] e = e"
  by (cases e) auto

lemma pointer_to_string_snoc: "pointer_to_string (ts @ [t]) = sub_path (pointer_to_string ts) (escape t)"
  by (simp add: pointer_to_string_def sub_path_def)

lemma leads_edit:
  "inner e \<Longrightarrow> apply_edit e a = Inr b \<Longrightarrow> item = item_of (under ts e) \<Longrightarrow> leads [item] ts a b"
  unfolding leads_def by (rule exI [of _ "[e]"]) simp

lemma leads_below:
  assumes "leads items (ts @ [t]) x y"
    and "\<And>es. \<forall>e \<in> set es. inner e \<Longrightarrow> run_edits es x = Inr y \<Longrightarrow> run_edits (map (under [t]) es) a = Inr b"
  shows "leads items ts a b"
proof -
  from assms(1) obtain es where es: "items = map (item_of \<circ> under (ts @ [t])) es" "\<forall>e \<in> set es. inner e"
    "run_edits es x = Inr y" unfolding leads_def by blast
  then show ?thesis unfolding leads_def
    using assms(2) by (intro exI [of _ "map (under [t]) es"]) (auto simp: under_under inner_under)
qed

lemma leads_member:
  "leads items (ts @ [k]) v w \<Longrightarrow> sm_sorted m \<Longrightarrow> sm_find m k = Some v \<Longrightarrow>
     leads items ts (JObj m) (JObj (sm_assign k w m))"
  by (rule leads_below, assumption, rule run_under_member)

lemma leads_element:
  "leads items (ts @ [digits i]) (xs ! i) y \<Longrightarrow> i < length xs \<Longrightarrow> i < index_limit \<Longrightarrow>
     leads items ts (JArr xs) (JArr (xs[i := y]))"
  by (rule leads_below, assumption, rule run_under_element)

lemma leads_remove_tail:
  "length xs = n \<Longrightarrow> n \<le> index_limit \<Longrightarrow>
     leads (remove_tail to n (pointer_to_string ts)) ts (JArr xs) (JArr (take to xs))"
proof (induction n arbitrary: xs)
  case 0
  then show ?case by (simp add: remove_tail_def)
next
  case (Suc n)
  show ?case
  proof (cases "to \<le> n")
    case True
    have "array_index (digits n) = Inr n" using Suc.prems by (simp add: array_index_digits)
    then have "apply_edit (Remove [digits n]) (JArr xs) = Inr (JArr (take n xs))"
      using Suc.prems by (simp add: operation_remove_def pointer_back_def pointer_pop_back_def remove_from_parent_def)
    then have "leads [remove_item (sub_path (pointer_to_string ts) (digits n))] ts (JArr xs) (JArr (take n xs))"
      by (rule leads_edit [rotated]) (simp_all add: pointer_to_string_snoc escape_digits)
    from leads_append [OF this Suc.IH [of "take n xs"]] True Suc.prems show ?thesis
      by (simp add: remove_tail_def min_absorb1)
  next
    case False
    then show ?thesis using Suc.prems by (simp add: remove_tail_def)
  qed
qed

lemma escape_end: "escape ''-'' = ''-''"
  by (rule escape_plain) auto

lemma leads_add_tail: "leads (add_tail ys (pointer_to_string ts)) ts (JArr xs) (JArr (xs @ ys))"
proof (induction ys arbitrary: xs)
  case Nil
  then show ?case by (simp add: add_tail_def)
next
  case (Cons y ys)
  have "apply_edit (Add [''-''] y) (JArr xs) = Inr (JArr (xs @ [y]))"
    by (simp add: operation_add_alter add_to_parent_def)
  then have "leads [add_item (sub_path (pointer_to_string ts) ''-'') y] ts (JArr xs) (JArr (xs @ [y]))"
    by (rule leads_edit [rotated]) (simp_all add: pointer_to_string_snoc escape_end)
  from leads_append [OF this Cons.IH] show ?case by (simp add: add_tail_def)
qed

lemma leads_add_entries:
  "leads (map (\<lambda>(k, v). add_item (sub_path (pointer_to_string ts) (escape k)) v) kvs) ts (JObj m)
     (JObj (fold (\<lambda>(k, v). sm_assign k v) kvs m))"
proof (induction kvs arbitrary: m)
  case Nil
  then show ?case by simp
next
  case (Cons kv kvs)
  obtain k v where kv: "kv = (k, v)" by (cases kv)
  have "apply_edit (Add [k] v) (JObj m) = Inr (JObj (sm_assign k v m))"
    by (simp add: operation_add_alter add_to_parent_def)
  then have "leads [add_item (sub_path (pointer_to_string ts) (escape k)) v] ts (JObj m) (JObj (sm_assign k v m))"
    by (rule leads_edit [rotated]) (simp_all add: pointer_to_string_snoc)
  from leads_append [OF this Cons.IH] show ?case by (simp add: kv)
qed

lemma find_fold_assign:
  "distinct (map fst kvs) \<Longrightarrow> sm_find (fold (\<lambda>(k, v). sm_assign k v) kvs m) j =
     (case map_of kvs j of Some v \<Rightarrow> Some v | None \<Rightarrow> sm_find m j)"
proof (induction kvs arbitrary: m)
  case (Cons kv kvs)
  obtain k v where kv: "kv = (k, v)" by (cases kv)
  with Cons.prems have "map_of kvs k = None" by (simp add: map_of_eq_None_iff)
  with Cons kv show ?case by (auto split: option.split)
qed simp

lemma sorted_fold_assign: "sm_sorted m \<Longrightarrow> sm_sorted (fold (\<lambda>(k, v). sm_assign k v) kvs m)"
  by (induction kvs arbitrary: m) auto

lemma map_of_find: "map_of m k = sm_find m k"
  by (induction m) auto

text \<open>The second pass over the members turns a document that agrees on the members of the source into the target.\<close>

lemma leads_add_members:
  assumes "sm_sorted m1" and "sm_sorted n" and "\<And>k. sm_find m1 k = (if sm_contains m k then sm_find n k else None)"
  shows "leads (add_members m n (pointer_to_string ts)) ts (JObj m1) (JObj n)"
proof -
  let ?new = "filter (\<lambda>(k, v). \<not> sm_contains m k) n"
  have "distinct (map fst ?new)"
    using distinct_keys [OF assms(2)] by (simp add: distinct_map_filter)
  moreover have "map_of ?new k = (if sm_contains m k then None else sm_find n k)" for k
    by (induction n) auto
  ultimately have "sm_find (fold (\<lambda>(k, v). sm_assign k v) ?new m1) = sm_find n"
    by (auto simp: fun_eq_iff find_fold_assign assms(3) split: option.splits)
  then have "fold (\<lambda>(k, v). sm_assign k v) ?new m1 = n"
    by (rule smap_eqI [OF sorted_fold_assign [OF assms(1)] assms(2)])
  with leads_add_entries [of ts ?new m1] show ?thesis by (simp add: add_members_def)
qed

lemma leads_diff:
  "wf_json a \<Longrightarrow> wf_json b \<Longrightarrow> indexable a \<Longrightarrow> path = pointer_to_string ts \<Longrightarrow>
     leads (json_diff_items a b path) ts a b"
  "\<forall>x \<in> set xs. wf_json x \<and> indexable x \<Longrightarrow> \<forall>y \<in> set ys. wf_json y \<Longrightarrow> path = pointer_to_string ts \<Longrightarrow>
     length ps = i \<Longrightarrow> i + length xs \<le> index_limit \<Longrightarrow>
     leads (diff_elements xs ys i path) ts (JArr (ps @ xs)) (JArr (ps @ take (length xs) ys @ drop (length ys) xs))"
  "\<forall>(k, v) \<in> set ms. wf_json v \<and> indexable v \<and> sm_find m k = Some v \<Longrightarrow> \<forall>(k, w) \<in> set n. wf_json w \<Longrightarrow>
     path = pointer_to_string ts \<Longrightarrow> distinct (map fst ms) \<Longrightarrow> sm_sorted m \<Longrightarrow>
     \<exists>m1. sm_sorted m1 \<and> (\<forall>k. sm_find m1 k = (if k \<in> fst ` set ms then sm_find n k else sm_find m k)) \<and>
       leads (diff_members ms n path) ts (JObj m) (JObj m1)"
proof (induction a b path and xs ys i path and ms n path arbitrary: ts and ts ps and ts m
    rule: json_diff_items_diff_elements_diff_members.induct)
  case (1 xs ys path)
  show ?case
  proof (cases "xs = ys")
    case False
    have "leads (diff_elements xs ys 0 path) ts (JArr ([] @ xs)) (JArr ([] @ take (length xs) ys @ drop (length ys) xs))"
      by (rule 1(1) [OF False]) (use 1(2-) in auto)
    moreover have "leads (remove_tail (length ys) (length xs) path) ts
        (JArr (take (length xs) ys @ drop (length ys) xs)) (JArr (take (length xs) ys))"
    proof -
      have "length (take (length xs) ys @ drop (length ys) xs) = length xs" by (simp add: min_def)
      moreover have "take (length ys) (take (length xs) ys @ drop (length ys) xs) = take (length xs) ys"
        by (cases "length xs \<le> length ys") auto
      ultimately show ?thesis
        using leads_remove_tail [of "take (length xs) ys @ drop (length ys) xs" "length xs" "length ys" ts] 1(4,5)
        by simp
    qed
    moreover have "leads (add_tail (drop (length xs) ys) path) ts (JArr (take (length xs) ys)) (JArr ys)"
      using leads_add_tail [of "drop (length xs) ys" ts "take (length xs) ys"] 1(5) by simp
    ultimately show ?thesis using False by (auto intro: leads_append)
  qed simp
next
  case (2 m n path)
  show ?case
  proof (cases "m = n")
    case False
    have "\<exists>m1. sm_sorted m1 \<and> (\<forall>k. sm_find m1 k = (if k \<in> fst ` set m then sm_find n k else sm_find m k)) \<and>
        leads (diff_members m n path) ts (JObj m) (JObj m1)"
      by (rule 2(1) [OF False]) (use 2(2-) in \<open>auto simp: sm_find_entry distinct_keys\<close>)
    then obtain m1 where m1: "sm_sorted m1" "leads (diff_members m n path) ts (JObj m) (JObj m1)"
      and f: "\<And>k. sm_find m1 k = (if k \<in> fst ` set m then sm_find n k else sm_find m k)" by blast
    have "sm_find m1 k = (if sm_contains m k then sm_find n k else None)" for k
      using f [of k] by (simp add: sm_contains_def sm_find_None)
    with leads_append [OF m1(2) leads_add_members [OF m1(1)]] 2(2-) False show ?thesis by simp
  qed simp
next
  case (4 x xs y ys i path)
  have "leads (json_diff_items x y (sub_path path (digits i))) (ts @ [digits i]) ((ps @ x # xs) ! i) y"
    using 4(1) [of "ts @ [digits i]"] 4(3-) by (simp add: pointer_to_string_snoc escape_digits nth_append)
  then have "leads (json_diff_items x y (sub_path path (digits i))) ts (JArr (ps @ x # xs)) (JArr ((ps @ x # xs)[i := y]))"
    by (rule leads_element) (use 4(3-) in auto)
  moreover have "leads (diff_elements xs ys (Suc i) path) ts (JArr ((ps @ [y]) @ xs))
      (JArr ((ps @ [y]) @ take (length xs) ys @ drop (length ys) xs))"
    by (rule 4(2)) (use 4(3-) in auto)
  moreover have "(ps @ x # xs)[i := y] = (ps @ [y]) @ xs"
    using 4(6) by (simp add: list_update_append)
  ultimately show ?case by (auto intro: leads_append)
next
  case (7 k v ms n path)
  then have k: "sm_find m k = Some v" by simp
  have rest: "\<exists>m1. sm_sorted m1 \<and> (\<forall>j. sm_find m1 j = (if j \<in> fst ` set ms then sm_find n j else sm_find m2 j)) \<and>
      leads (diff_members ms n path) ts (JObj m2) (JObj m1)"
    if "sm_sorted m2" "\<And>j. j \<noteq> k \<Longrightarrow> sm_find m2 j = sm_find m j" for m2
    by (rule 7(2)) (use 7(3-) that in \<open>fastforce simp: image_iff\<close>)+
  have step: "\<exists>m2. sm_sorted m2 \<and> (\<forall>j. sm_find m2 j = (if j = k then sm_find n k else sm_find m j)) \<and>
      leads (case sm_find n k of Some w \<Rightarrow> json_diff_items v w (sub_path path (escape k))
        | None \<Rightarrow> [remove_item (sub_path path (escape k))]) ts (JObj m) (JObj m2)"
  proof (cases "sm_find n k")
    case None
    have "apply_edit (Remove [k]) (JObj m) = Inr (JObj (sm_erase k m))"
      using k by (simp add: operation_remove_def pointer_back_def pointer_pop_back_def remove_from_parent_def sm_contains_def)
    then have "leads [remove_item (sub_path path (escape k))] ts (JObj m) (JObj (sm_erase k m))"
      by (rule leads_edit [rotated]) (simp_all add: 7(5) pointer_to_string_snoc)
    with None 7(7) show ?thesis by (intro exI [of _ "sm_erase k m"]) simp
  next
    case (Some w)
    then have w: "wf_json w" using 7(4) sm_find_SomeD by fastforce
    have "leads (json_diff_items v w (sub_path path (escape k))) (ts @ [k]) v w"
      by (rule 7(1) [OF Some]) (use 7(3-) w in \<open>auto simp: pointer_to_string_snoc\<close>)
    from leads_member [OF this 7(7) k] Some 7(7) show ?thesis by (intro exI [of _ "sm_assign k w m"]) simp
  qed
  then obtain m2 where m2: "sm_sorted m2" "\<And>j. sm_find m2 j = (if j = k then sm_find n k else sm_find m j)"
    and l2: "leads (case sm_find n k of Some w \<Rightarrow> json_diff_items v w (sub_path path (escape k))
        | None \<Rightarrow> [remove_item (sub_path path (escape k))]) ts (JObj m) (JObj m2)" by blast
  from rest [of m2] m2 obtain m1 where m1: "sm_sorted m1" "leads (diff_members ms n path) ts (JObj m2) (JObj m1)"
    "\<And>j. sm_find m1 j = (if j \<in> fst ` set ms then sm_find n j else sm_find m2 j)" by auto
  have "leads (diff_members ((k, v) # ms) n path) ts (JObj m) (JObj m1)"
    using leads_append [OF l2 m1(2)] by (simp split: option.splits)
  with m1 m2(2) show ?case by (intro exI [of _ m1]) auto
qed (auto intro!: leads_edit [of "Replace [] b" for b])

subsection \<open>Patches keep documents well formed\<close>

lemma wf_json_checked: "json_checked ts j = Inr v \<Longrightarrow> wf_json j \<Longrightarrow> wf_json v"
proof (induction ts arbitrary: j)
  case (Cons t ts)
  then show ?case
    by (cases j) (auto simp: rbind_eq_Inr split: option.splits if_splits dest!: sm_find_SomeD)
qed simp

lemma wf_json_alter:
  assumes "\<And>x x'. f x = Inr x' \<Longrightarrow> wf_json x \<Longrightarrow> wf_json x'"
  shows "json_alter ts f j = Inr j' \<Longrightarrow> wf_json j \<Longrightarrow> wf_json j'"
proof (induction ts arbitrary: j j')
  case Nil
  with assms show ?case by simp
next
  case (Cons t ts)
  show ?case
  proof (cases j)
    case (JObj m)
    with Cons.prems(1) obtain x x' where x: "sm_find m t = Some x" "json_alter ts f x = Inr x'"
      "j' = JObj (sm_assign t x' m)" by (auto simp: rbind_eq_Inr split: option.splits)
    from x(1) Cons.prems(2) JObj have "wf_json x" by (auto dest: sm_find_SomeD)
    with Cons.IH [OF x(2)] Cons.prems(2) JObj x(3) wf_assign [of m x' t] show ?thesis by simp
  next
    case (JArr xs)
    with Cons.prems(1) obtain i x' where x: "i < length xs" "json_alter ts f (xs ! i) = Inr x'" "j' = JArr (xs[i := x'])"
      by (auto simp: rbind_eq_Inr split: if_splits)
    from Cons.IH [OF x(2)] Cons.prems(2) JArr x(1) have "wf_json x'" by simp
    with Cons.prems(2) JArr x(3) show ?thesis by (auto dest!: subsetD [OF set_update_subset_insert])
  qed (use Cons.prems in auto)
qed

lemma wf_add_to_parent: "add_to_parent t v x = Inr x' \<Longrightarrow> wf_json v \<Longrightarrow> wf_json x \<Longrightarrow> wf_json x'"
  by (cases x) (auto simp: add_to_parent_def rbind_eq_Inr wf_assign split: if_splits dest!: in_set_takeD in_set_dropD)

lemma wf_operation_add: "operation_add p v j = Inr j' \<Longrightarrow> wf_json v \<Longrightarrow> wf_json j \<Longrightarrow> wf_json j'"
  by (auto simp: operation_add_alter split: if_splits intro: wf_json_alter [OF wf_add_to_parent])

lemma wf_erase: "\<forall>(k, v) \<in> set m. wf_json v \<Longrightarrow> \<forall>(k, v) \<in> set (sm_erase t m). wf_json v"
  by (induction t m rule: sm_erase.induct) auto

lemma wf_remove_from_parent: "remove_from_parent t x = Inr x' \<Longrightarrow> wf_json x \<Longrightarrow> wf_json x'"
  by (cases x) (auto simp: remove_from_parent_def rbind_eq_Inr wf_erase split: if_splits dest!: in_set_takeD in_set_dropD)

lemma wf_operation_remove: "operation_remove p j = Inr j' \<Longrightarrow> wf_json j \<Longrightarrow> wf_json j'"
  by (auto simp: operation_remove_def pointer_back_def pointer_pop_back_def split: if_splits
      intro: wf_json_alter [OF wf_remove_from_parent])

lemma wf_get_value: "get_value item k = Inr v \<Longrightarrow> wf_json item \<Longrightarrow> wf_json v"
  using wf_json_find by (auto simp: get_value_def split: option.splits)

lemma wf_replace: "json_alter p (\<lambda>_. Inr v) j = Inr j' \<Longrightarrow> wf_json v \<Longrightarrow> wf_json j \<Longrightarrow> wf_json j'"
  using wf_json_alter [of "\<lambda>_. Inr v"] by auto

lemma wf_patch_step:
  assumes "patch_step item j = Inr j'" and "wf_json item" and "wf_json j"
  shows "wf_json j'"
proof -
  from assms(1) obtain op ptr where step:
    "(case get_op op of
        Op_add \<Rightarrow> rbind (get_value item ''value'') (\<lambda>v. operation_add ptr v j)
      | Op_remove \<Rightarrow> operation_remove ptr j
      | Op_replace \<Rightarrow> rbind (get_value item ''value'') (\<lambda>v. json_alter ptr (\<lambda>_. Inr v) j)
      | Op_move \<Rightarrow> rbind (from_pointer item) (\<lambda>from_ptr. operation_move from_ptr ptr j)
      | Op_copy \<Rightarrow> rbind (from_pointer item) (\<lambda>from_ptr. rbind (json_checked from_ptr j) (\<lambda>v. operation_add ptr v j))
      | Op_test \<Rightarrow> operation_test ptr item j
      | Op_invalid \<Rightarrow> Inl (JsonError 105)) = Inr j'"
    by (auto simp: patch_step_def rbind_eq_Inr split: if_splits)
  show ?thesis
  proof (cases "get_op op")
    case Op_test
    with step assms(3) show ?thesis by (auto simp: operation_test_def split: sum.splits bool.splits if_splits)
  next
    case Op_add
    with step assms show ?thesis by (auto simp: rbind_eq_Inr elim!: wf_operation_add intro: wf_get_value)
  next
    case Op_remove
    with step assms show ?thesis by (auto elim!: wf_operation_remove)
  next
    case Op_replace
    with step assms show ?thesis by (auto simp: rbind_eq_Inr elim!: wf_replace intro: wf_get_value)
  next
    case Op_move
    with step assms show ?thesis
      by (auto simp: rbind_eq_Inr operation_move_def elim!: wf_operation_add intro: wf_json_checked wf_operation_remove)
  next
    case Op_copy
    with step assms show ?thesis by (auto simp: rbind_eq_Inr elim!: wf_operation_add intro: wf_json_checked)
  qed (use step in simp)
qed

lemma wf_patch_items: "patch_items items j = Inr j' \<Longrightarrow> \<forall>i \<in> set items. wf_json i \<Longrightarrow> wf_json j \<Longrightarrow> wf_json j'"
  by (induction items arbitrary: j) (auto simp: rbind_eq_Inr dest: wf_patch_step)

lemma wf_patch: "json_patch j patch = Inr j' \<Longrightarrow> wf_json patch \<Longrightarrow> wf_json j \<Longrightarrow> wf_json j'"
  by (cases patch) (auto simp: json_patch_def dest: wf_patch_items)

lemma wf_diff_items:
  "wf_json b \<Longrightarrow> \<forall>i \<in> set (json_diff_items a b path). wf_json i"
  "\<forall>y \<in> set ys. wf_json y \<Longrightarrow> \<forall>j \<in> set (diff_elements xs ys i path). wf_json j"
  "\<forall>(k, w) \<in> set n. wf_json w \<Longrightarrow> \<forall>i \<in> set (diff_members m n path). wf_json i"
proof (induction a b path and xs ys i path and m n path rule: json_diff_items_diff_elements_diff_members.induct)
  case (7 k v m n path)
  show ?case
  proof (cases "sm_find n k")
    case (Some w)
    with 7(3) have "wf_json w" by (auto dest: sm_find_SomeD)
    with 7(1) [OF Some] 7(2,3) Some show ?thesis by (simp add: ball_Un)
  qed (use 7 in \<open>simp add: remove_item_def\<close>)
qed (auto simp: remove_tail_def add_tail_def add_members_def remove_item_def add_item_def replace_item_def dest: in_set_dropD)

lemma wf_diff: "wf_json b \<Longrightarrow> wf_json (json_diff a b)"
  using wf_diff_items(1) by (simp add: json_diff_def)

lemma patch_diff:
  assumes "wf_json a" and "wf_json b" and "indexable a"
  shows "json_patch a (json_diff a b) = Inr b"
proof -
  from leads_diff(1) [OF assms, of "[]" "[]"] obtain es where
    "json_diff_items a b [] = map item_of es" "run_edits es a = Inr b"
    by (auto simp: leads_def pointer_to_string_def comp_def)
  then show ?thesis by (simp add: json_patch_def json_diff_def patch_items_edits)
qed

subsection \<open>What is removed is there\<close>

text \<open>Every item of a difference has a value or removes something of the source.\<close>

definition removes_from :: "json \<Rightarrow> pointer \<Rightarrow> json \<Rightarrow> bool" where
  "removes_from a ts item \<longleftrightarrow>
     (\<exists>us x. item = remove_item (pointer_to_string (ts @ us)) \<and> us \<noteq> [] \<and> json_checked us a = Inr x)"

definition sound_item :: "json \<Rightarrow> pointer \<Rightarrow> json \<Rightarrow> bool" where
  "sound_item a ts item \<longleftrightarrow> is_JObj item \<and> json_has item ''op'' \<and> json_has item ''path'' \<and>
     (json_has item ''value'' \<or> removes_from a ts item)"

lemma sound_valued [simp]:
  "sound_item a ts (replace_item p v)" "sound_item a ts (add_item p v)"
  by (simp_all add: sound_item_def replace_item_def add_item_def json_has_def)

lemma sound_removal:
  "json_checked [t] a = Inr x \<Longrightarrow> sound_item a ts (remove_item (sub_path (pointer_to_string ts) (escape t)))"
proof -
  assume "json_checked [t] a = Inr x"
  then have "removes_from a ts (remove_item (sub_path (pointer_to_string ts) (escape t)))"
    unfolding removes_from_def by (intro exI [of _ "[t]"] exI [of _ x]) (simp add: pointer_to_string_snoc)
  then show ?thesis by (simp add: sound_item_def json_has_def remove_item_def)
qed

lemma sound_below:
  assumes "sound_item x (ts @ [t]) item" and "json_checked [t] a = Inr x"
  shows "sound_item a ts item"
proof -
  have "json_checked (t # us) a = json_checked us x" for us
    using assms(2) by (cases a) (auto simp: rbind_eq_Inr split: option.splits if_splits)
  then have "removes_from x (ts @ [t]) item \<Longrightarrow> removes_from a ts item"
    unfolding removes_from_def by (elim exE, rule_tac x = "t # us" in exI) simp
  with assms(1) show ?thesis by (auto simp: sound_item_def)
qed

lemma checked_member: "sm_find m k = Some v \<Longrightarrow> json_checked [k] (JObj m) = Inr v"
  by simp

lemma checked_element: "i < length xs \<Longrightarrow> i < index_limit \<Longrightarrow> json_checked [digits i] (JArr xs) = Inr (xs ! i)"
  by (simp add: checked_index_digits)

lemma sound_diff:
  "wf_json a \<Longrightarrow> indexable a \<Longrightarrow> path = pointer_to_string ts \<Longrightarrow>
     \<forall>i \<in> set (json_diff_items a b path). sound_item a ts i"
  "\<forall>x \<in> set xs. wf_json x \<and> indexable x \<Longrightarrow> path = pointer_to_string ts \<Longrightarrow>
     length ps = i \<Longrightarrow> i + length xs \<le> index_limit \<Longrightarrow>
     \<forall>j \<in> set (diff_elements xs ys i path). sound_item (JArr (ps @ xs)) ts j"
  "\<forall>(k, v) \<in> set ms. wf_json v \<and> indexable v \<and> sm_find m k = Some v \<Longrightarrow> path = pointer_to_string ts \<Longrightarrow>
     \<forall>i \<in> set (diff_members ms n path). sound_item (JObj m) ts i"
proof (induction a b path and xs ys i path and ms n path arbitrary: ts and ts ps and ts m
    rule: json_diff_items_diff_elements_diff_members.induct)
  case (1 xs ys path)
  have "\<forall>i \<in> set (remove_tail (length ys) (length xs) path). sound_item (JArr xs) ts i"
  proof (clarsimp simp: remove_tail_def 1(4))
    fix i assume i: "length ys \<le> i" "i < length xs"
    with 1(3) have "json_checked [digits i] (JArr xs) = Inr (xs ! i)"
      by (intro checked_element) auto
    from sound_removal [OF this, of ts] show "sound_item (JArr xs) ts (remove_item (sub_path (pointer_to_string ts) (digits i)))"
      by (simp add: escape_digits)
  qed
  moreover have "\<forall>j \<in> set (diff_elements xs ys 0 path). sound_item (JArr ([] @ xs)) ts j" if "xs \<noteq> ys"
    by (rule 1(1) [OF that]) (use 1(2-) in auto)
  ultimately show ?case by (auto simp: add_tail_def)
next
  case (2 m n path)
  have "\<forall>i \<in> set (diff_members m n path). sound_item (JObj m) ts i" if "m \<noteq> n"
    by (rule 2(1) [OF that]) (use 2(2-) in \<open>auto simp: sm_find_entry\<close>)
  then show ?case by (auto simp: add_members_def)
next
  case (4 x xs y ys i path)
  have "json_checked [digits i] (JArr (ps @ x # xs)) = Inr ((ps @ x # xs) ! i)"
    using 4(5,6) by (intro checked_element) auto
  then have c: "json_checked [digits i] (JArr (ps @ x # xs)) = Inr x"
    using 4(5) by (simp add: nth_append)
  have "\<forall>j \<in> set (json_diff_items x y (sub_path path (digits i))). sound_item x (ts @ [digits i]) j"
    by (rule 4(1)) (use 4(3-) in \<open>auto simp: pointer_to_string_snoc escape_digits\<close>)
  moreover have "\<forall>j \<in> set (diff_elements xs ys (Suc i) path). sound_item (JArr ((ps @ [x]) @ xs)) ts j"
    by (rule 4(2)) (use 4(3-) in auto)
  ultimately show ?case using sound_below [OF _ c] by auto
next
  case (7 k v ms n path)
  then have c: "json_checked [k] (JObj m) = Inr v" by simp
  have rest: "\<forall>i \<in> set (diff_members ms n path). sound_item (JObj m) ts i"
    by (rule 7(2)) (use 7(3-) in auto)
  show ?case
  proof (cases "sm_find n k")
    case None
    with rest sound_removal [OF c, of ts] 7(4) show ?thesis by simp
  next
    case (Some w)
    have "\<forall>i \<in> set (json_diff_items v w (sub_path path (escape k))). sound_item v (ts @ [k]) i"
      by (rule 7(1) [OF Some]) (use 7(3-) in \<open>auto simp: pointer_to_string_snoc\<close>)
    with rest sound_below [OF _ c] Some show ?thesis by auto
  qed
qed simp_all

text \<open>Through what is there, \<open>operator[]\<close> finds what \<open>at\<close> finds and changes nothing.\<close>

lemma json_ref_checked: "json_checked ts j = Inr v \<Longrightarrow> wf_json j \<Longrightarrow> json_ref ts j = Inr (v, j)"
proof (induction ts arbitrary: j)
  case Nil
  then show ?case by simp
next
  case (Cons t ts)
  show ?case
  proof (cases j)
    case (JObj m)
    with Cons.prems obtain x where x: "sm_find m t = Some x" "json_checked ts x = Inr v"
      by (auto simp: rbind_eq_Inr split: option.splits)
    with Cons.prems(2) JObj have "wf_json x" by (auto dest: sm_find_SomeD)
    with Cons.IH [OF x(2)] x(1) JObj Cons.prems(2) show ?thesis by (simp add: sm_assign_same)
  next
    case (JArr xs)
    with Cons.prems obtain i where i: "t \<noteq> ''-''" "array_index t = Inr i" "i < length xs" "json_checked ts (xs ! i) = Inr v"
      by (auto simp: rbind_eq_Inr checked_index_def split: if_splits)
    with Cons.IH [OF i(4)] JArr Cons.prems(2) show ?thesis by (simp add: nth_append)
  qed (use Cons.prems in auto)
qed

subsection \<open>Properties\<close>

text \<open>C18 The difference of two documents is a patch that applies to the first without an error and gives the second,
  whatever members are added, removed or replaced and however the arrays differ in length; it is empty only for
  equal documents.\<close>

theorem difference_leads_to_the_target:
  assumes "wf_json a" and "wf_json b" and "indexable a"
  shows "json_patch a (json_diff a b) = Inr b \<and> (json_diff a b = JArr [] \<longleftrightarrow> a = b)"
proof -
  have "json_patch a (JArr []) = Inr a" by (simp add: json_patch_def)
  moreover have "json_diff_items a a [] = []" by (cases a) simp_all
  ultimately show ?thesis using patch_diff [OF assms] by (auto simp: json_diff_def)
qed

theorem difference_leads_to_the_target_witness:
  "json_patch (JObj [(''a/b'', JArr [JNum 1, JNull, JNum 3]), (''c'', JStr ''x'')])
     (JArr [JObj [(''op'', JStr ''replace''), (''path'', JStr ''/a~1b/0''), (''value'', JNum 7)],
            JObj [(''op'', JStr ''remove''), (''path'', JStr ''/a~1b/2'')],
            JObj [(''op'', JStr ''remove''), (''path'', JStr ''/a~1b/1'')],
            JObj [(''op'', JStr ''remove''), (''path'', JStr ''/c'')]]) = Inr (JObj [(''a/b'', JArr [JNum 7])])"
proof -
  have "json_diff (JObj [(''a/b'', JArr [JNum 1, JNull, JNum 3]), (''c'', JStr ''x'')]) (JObj [(''a/b'', JArr [JNum 7])]) =
     JArr [JObj [(''op'', JStr ''replace''), (''path'', JStr ''/a~1b/0''), (''value'', JNum 7)],
            JObj [(''op'', JStr ''remove''), (''path'', JStr ''/a~1b/2'')],
            JObj [(''op'', JStr ''remove''), (''path'', JStr ''/a~1b/1'')],
            JObj [(''op'', JStr ''remove''), (''path'', JStr ''/c'')]]"
    by code_simp
  then show ?thesis
    using difference_leads_to_the_target [of "JObj [(''a/b'', JArr [JNum 1, JNull, JNum 3]), (''c'', JStr ''x'')]"
        "JObj [(''a/b'', JArr [JNum 7])]"]
    by (simp add: index_limit_def in_64_bits_def)
qed

end
