(* ===== verification/Json_Round_Trip.thy ===== *)
theory Json_Round_Trip
  imports Json_Texts Json_Patch
begin

section \<open>Documents and their texts\<close>

text \<open>
  What the serializer writes the parser reads, and what the parser accepts the serializer can write. The first is an
  induction along \<open>dump\<close>, with the parser started at the text of a value, of the members of an object, or of the
  elements of an array, before any text that can follow them. For the second every token is shown to carry a string of whole
  UTF-8 characters or a number of 64 bits.
\<close>

subsection \<open>Integers\<close>

lemma fill_digits: "fill_digits n = digits n"
proof (induction n rule: fill_digits.induct)
  case (1 n)
  have two: "digits m = [char_of (48 + m div 10), char_of (48 + m mod 10)]" if "10 \<le> m" "m < 100" for m
    using that by (simp add: digits.simps [of m] digits.simps [of "m div 10"] less_mult_imp_div_less)
  show ?case
  proof (cases "100 \<le> n")
    case True
    then have "\<not> n div 10 < 10" by (simp add: not_less less_eq_div_iff_mult_less_eq)
    with True have "digits n = digits (n div 10 div 10) @ [char_of (48 + n div 10 mod 10), char_of (48 + n mod 10)]"
      by (simp add: digits.simps [of n] digits.simps [of "n div 10"])
    moreover have "n mod 100 = 10 * (n div 10 mod 10) + n mod 10" using mod_mult2_eq [of n 10 10] by simp
    moreover have "n div 10 div 10 = n div 100" by (simp add: div_mult2_eq [symmetric])
    ultimately show ?thesis
      using True 1 by (simp add: fill_digits.simps [of n] digits_to_99_def)
  next
    case False
    then show ?thesis by (simp add: fill_digits.simps [of n] digits_to_99_def two) (simp add: digits.simps)
  qed
qed

lemma length_digits_step: "10 \<le> n \<Longrightarrow> length (digits n) = Suc (length (digits (n div 10)))"
  by (simp add: digits.simps [of n])

lemma length_digits_less: "n < 10 \<Longrightarrow> length (digits n) = 1"
  by (simp add: digits.simps)

lemma length_digits_div:
  assumes "10 ^ Suc k \<le> n"
  shows "length (digits (n div 10 ^ k)) = Suc (length (digits (n div 10 ^ Suc k)))"
proof -
  have "10 \<le> n div 10 ^ k" using assms by (simp add: less_eq_div_iff_mult_less_eq)
  moreover have "n div 10 ^ k div 10 = n div 10 ^ Suc k" by (simp only: div_mult2_eq [symmetric] power_Suc2)
  ultimately show ?thesis by (simp only: length_digits_step)
qed

lemma count_digits: "count_digits n = length (digits n)"
proof (induction n rule: count_digits.induct)
  case (1 n)
  have step: "10 \<le> n \<Longrightarrow> length (digits n) = Suc (length (digits (n div 10)))"
    "100 \<le> n \<Longrightarrow> length (digits (n div 10)) = Suc (length (digits (n div 100)))"
    "1000 \<le> n \<Longrightarrow> length (digits (n div 100)) = Suc (length (digits (n div 1000)))"
    "10000 \<le> n \<Longrightarrow> length (digits (n div 1000)) = Suc (length (digits (n div 10000)))"
    using length_digits_div [of 0 n] length_digits_div [of 1 n] length_digits_div [of 2 n] length_digits_div [of 3 n]
    by simp_all
  have less: "n < 100 \<Longrightarrow> n div 10 < 10" "n < 1000 \<Longrightarrow> n div 100 < 10" "n < 10000 \<Longrightarrow> n div 1000 < 10"
    by (simp_all add: less_mult_imp_div_less)
  show ?case
  proof (cases "n < 10000")
    case True
    with less step length_digits_less [of n] show ?thesis
      by (cases "n < 10"; cases "n < 100"; cases "n < 1000")
         (simp_all add: count_digits.simps [of n] length_digits_less)
  next
    case False
    with 1 step show ?thesis by (simp add: count_digits.simps [of n])
  qed
qed

lemma any1_digits:
  "list_all is_digit ds \<Longrightarrow> scan_number_any1 k b (ds @ s) = scan_number_any1 k (b @ ds) s"
  by (induction ds arbitrary: b) simp_all

definition number_end :: "string \<Rightarrow> bool" where
  "number_end s \<longleftrightarrow> (case s of [] \<Rightarrow> True | c # _ \<Rightarrow> \<not> is_digit c \<and> c \<noteq> CHR ''.'' \<and> \<not> exponent_mark c)"

lemma any1_end: "number_end s \<Longrightarrow> scan_number_any1 k b s = scan_number_done k b s"
  by (cases s) (auto simp: number_end_def)

lemma zero_end: "number_end s \<Longrightarrow> scan_number_zero k b s = scan_number_done k b s"
  by (cases s) (auto simp: number_end_def scan_number_zero_def)

lemma digits_split:
  obtains c ds where "digits n = c # ds" "is_digit c" "list_all is_digit ds" "c = CHR ''0'' \<longrightarrow> ds = []"
proof -
  obtain c ds where d: "digits n = c # ds" using digits_hd [of n] by (cases "digits n") auto
  moreover have "c = CHR ''0'' \<longrightarrow> ds = []" using d digits_no_zero [of n] by (cases ds) auto
  ultimately show thesis using digits_are_digits [of n] that [of c ds] by simp
qed

lemma scan_digits:
  assumes "number_end s"
  shows "\<exists>c ds. digits n = c # ds \<and> is_digit c \<and> scan_number c (ds @ s) = scan_number_done unsigned_number (digits n) s \<and>
    scan_number CHR ''-'' (digits n @ s) = scan_number_done integer_number (CHR ''-'' # digits n) s"
proof -
  obtain c ds where d: "digits n = c # ds" "is_digit c" "list_all is_digit ds" "c = CHR ''0'' \<longrightarrow> ds = []"
    by (rule digits_split [of n])
  have "c \<noteq> CHR ''-''" using d(2) by (auto simp: is_digit_def less_eq_char_def)
  with d assms show ?thesis
    by (cases "c = CHR ''0''") (simp_all add: scan_number_def scan_number_minus_def any1_digits any1_end zero_end)
qed

lemma scan_integer:
  assumes "in_64_bits n" and "number_end s"
  shows "\<exists>c t. dump_integer n = c # t \<and> (c = CHR ''-'' \<or> is_digit c) \<and>
    scan_number c (t @ s) = (if n < 0 then value_integer n else value_unsigned (nat n), s)"
proof (cases "n < 0")
  case True
  then have "dump_integer n = CHR ''-'' # digits (nat (- n))"
    by (simp add: dump_integer_def fill_digits) (simp add: nat_eq_iff2 Suc_nat_eq_nat_zadd1)
  with True assms scan_digits [of s "nat (- n)"] show ?thesis
    by (auto simp: scan_number_done_def digits_value_digits Let_def in_64_bits_def)
next
  case False
  have "digits 0 = ''0''" by code_simp
  with False have "dump_integer n = digits (nat n)" by (simp add: dump_integer_def fill_digits)
  moreover from False assms(1) have "nat n < 2 ^ 64" by (simp add: in_64_bits_def nat_less_iff)
  ultimately show ?thesis using False assms scan_digits [of s "nat n"]
    by (auto simp: scan_number_done_def digits_value_digits Let_def)
qed

subsection \<open>Tokens\<close>

lemma scan_whitespace: "list_all whitespace_char w \<Longrightarrow> scan (w @ s) = scan s"
  by (simp add: scan_def json_skip_whitespace_def list_all_iff dropWhile_append2)

lemma line_start_whitespace: "list_all whitespace_char (line_start p n)"
  by (auto simp: line_start_def whitespace_char_def list_all_iff)

lemma scan_line_start [simp]: "scan (line_start p n @ s) = scan s"
  by (rule scan_whitespace [OF line_start_whitespace])

lemma scan_blank [simp]: "scan (CHR '' '' # s) = scan s"
  using scan_whitespace [of "'' ''" s] by (simp add: whitespace_char_def)

lemma scan_marks [simp]:
  "scan (CHR '','' # s) = (value_separator, s)" "scan (CHR '':'' # s) = (name_separator, s)"
  "scan (CHR ''['' # s) = (begin_array, s)" "scan (CHR '']'' # s) = (end_array, s)"
  "scan (CHR ''{'' # s) = (begin_object, s)" "scan (CHR ''}'' # s) = (end_object, s)"
  by (simp_all add: scan_def json_skip_whitespace_def whitespace_char_def)

lemma scan_literals [simp]:
  "scan (CHR ''t'' # CHR ''r'' # CHR ''u'' # CHR ''e'' # s) = (literal_true, s)"
  "scan (CHR ''f'' # CHR ''a'' # CHR ''l'' # CHR ''s'' # CHR ''e'' # s) = (literal_false, s)"
  "scan (CHR ''n'' # CHR ''u'' # CHR ''l'' # CHR ''l'' # s) = (literal_null, s)"
  by (simp_all add: scan_def json_skip_whitespace_def whitespace_char_def)

lemma scan_quoted:
  "dump_escaped s = Inr t \<Longrightarrow> scan (quote_mark # t @ quote_mark # u) = (value_string s, u)"
  using scan_dumped_string [of 0 s t u]
  by (simp add: scan_def json_skip_whitespace_def whitespace_char_def dump_escaped_def is_digit_def less_eq_char_def)

lemma scan_dumped_integer:
  assumes "in_64_bits n" and "number_end u"
  shows "scan (dump_integer n @ u) = (if n < 0 then value_integer n else value_unsigned (nat n), u)"
proof -
  from scan_integer [OF assms] obtain c t where c: "dump_integer n = c # t" "c = CHR ''-'' \<or> is_digit c"
    "scan_number c (t @ u) = (if n < 0 then value_integer n else value_unsigned (nat n), u)" by blast
  have "json_skip_whitespace (c # t @ u) = c # t @ u"
    using c(2) by (auto simp: json_skip_whitespace_def whitespace_char_def is_digit_def less_eq_char_def)
  moreover have "c \<notin> set ''[]{}:,tfn'' \<and> c \<noteq> quote_mark"
    using c(2) by (auto simp: is_digit_def less_eq_char_def)
  ultimately show ?thesis using c by (auto simp: scan_def)
qed

subsection \<open>The reader reads what the writer writes\<close>

text \<open>The loop of the parser from the next token, and from the next member of an object.\<close>

definition read_value :: "string \<Rightarrow> bool list \<Rightarrow> (sax list \<times> string) result" where
  "read_value s states = (case scan s of (tok, s1) \<Rightarrow> parse_value tok s1 states)"

definition read_member :: "string \<Rightarrow> bool list \<Rightarrow> (sax list \<times> string) result" where
  "read_member s states =
     (case scan s of (tok, s1) \<Rightarrow>
        case member_start tok s1 of
          None \<Rightarrow> syntax_error
        | Some (k, tok', s2) \<Rightarrow> emit [sax_key k] (parse_value tok' s2 (False # states)))"

lemma number_end_simps [simp]:
  "number_end (line_start p n @ CHR '']'' # u)" "number_end (line_start p n @ CHR ''}'' # u)" "number_end (CHR '','' # u)"
  by (simp_all add: number_end_def line_start_def is_digit_def less_eq_char_def)

lemma after_value_marks [simp]:
  "after_value (CHR '','' # s) (True # states) = read_value s (True # states)"
  "after_value (CHR '','' # s) (False # states) = read_member s states"
  "after_value (line_start p n @ CHR '']'' # s) (True # states) = emit [sax_end_array] (after_value s states)"
  "after_value (line_start p n @ CHR ''}'' # s) (False # states) = emit [sax_end_object] (after_value s states)"
  by (simp_all add: read_value_def read_member_def)

declare after_value.simps(2,3) [simp del]

lemma read_member_text:
  assumes "dump_escaped k = Inr key_text"
  shows "read_member (line_start p n @ quote_mark # key_text @ quote_mark # (if p then '': '' else '':'') @ s) states =
    emit [sax_key k] (read_value s (False # states))"
  using assms by (simp add: read_member_def read_value_def scan_quoted member_start_def split: prod.split)

lemma read_value_object:
  assumes "fst (scan s) \<noteq> end_object"
  shows "read_value (CHR ''{'' # s) states = emit [sax_start_object] (read_member s states)"
  using assms by (auto simp: read_value_def read_member_def split: prod.split option.split)

lemma read_value_array:
  assumes "fst (scan s) \<noteq> end_array"
  shows "read_value (CHR ''['' # s) states = emit [sax_start_array] (read_value s (True # states))"
  using assms by (auto simp: read_value_def split: prod.split)

lemma first_of_members:
  "dump_members p st ni m = Inr t \<Longrightarrow> m \<noteq> [] \<Longrightarrow> fst (scan (t @ u)) \<noteq> end_object"
  by (cases m) (auto simp: rbind_eq_Inr scan_quoted)

lemma first_of_value: "dump p st cur j = Inr t \<Longrightarrow> wf_json j \<Longrightarrow> number_end u \<Longrightarrow> fst (scan (t @ u)) \<noteq> end_array"
  by (cases j) (auto simp: rbind_eq_Inr scan_quoted scan_dumped_integer split: if_splits)

lemma first_of_elements:
  assumes "dump_elements p st ni xs = Inr t" and "xs \<noteq> []" and "wf_json (JArr xs)" and "number_end u"
  shows "fst (scan (t @ u)) \<noteq> end_array"
proof -
  obtain x xs' where xs: "xs = x # xs'" using assms(2) by (cases xs) auto
  with assms(1) obtain tx t' where t: "dump p st ni x = Inr tx" "dump_elements p st ni xs' = Inr t'"
    "t = line_start p ni @ tx @ (if xs' = [] then [] else '','') @ t'"
    by (auto simp: rbind_eq_Inr)
  have "number_end ((if xs' = [] then [] else '','') @ t' @ u)" using t(2) assms(4) by auto
  from first_of_value [OF t(1) _ this] assms(3) xs t(3) show ?thesis by simp
qed

lemma read_dumped:
  "dump p st cur j = Inr t \<Longrightarrow> wf_json j \<Longrightarrow> number_end u \<Longrightarrow>
     read_value (t @ u) states = emit (sax_events (written j)) (after_value u states)"
  "dump_members p st ni m = Inr t \<Longrightarrow> wf_json (JObj m) \<Longrightarrow> m \<noteq> [] \<Longrightarrow>
     read_member (t @ line_start p cur @ CHR ''}'' # u) states =
       emit (object_events (map (\<lambda>(k, j). (k, written j)) m) @ [sax_end_object]) (after_value u states)"
  "dump_elements p st ni xs = Inr t \<Longrightarrow> wf_json (JArr xs) \<Longrightarrow> xs \<noteq> [] \<Longrightarrow>
     read_value (t @ line_start p cur @ CHR '']'' # u) (True # states) =
       emit (array_events (map written xs) @ [sax_end_array]) (after_value u states)"
proof (induction p st cur j and p st ni m and p st ni xs arbitrary: t u states and t u cur states and t u cur states
    rule: dump_dump_members_dump_elements.induct)
  case (1 p st cur m)
  show ?case
  proof (cases "m = []")
    case True
    with 1 show ?thesis by (auto simp: read_value_def)
  next
    case False
    with 1(2) obtain t1 where t1: "dump_members p st (cur + st) m = Inr t1" "t = ''{'' @ t1 @ line_start p cur @ ''}''"
      by (auto simp: rbind_eq_Inr)
    from 1(1) [OF False t1(1) 1(3) False, of cur u states] t1(2) first_of_members [OF t1(1) False] show ?thesis
      by (simp add: read_value_object)
  qed
next
  case (2 p st cur xs)
  show ?case
  proof (cases "xs = []")
    case True
    with 2 show ?thesis by (auto simp: read_value_def)
  next
    case False
    with 2(2) obtain t1 where t1: "dump_elements p st (cur + st) xs = Inr t1" "t = ''['' @ t1 @ line_start p cur @ '']''"
      by (auto simp: rbind_eq_Inr)
    have "fst (scan (t1 @ line_start p cur @ CHR '']'' # u)) \<noteq> end_array"
      by (rule first_of_elements [OF t1(1) False 2(3)]) simp
    with 2(1) [OF False t1(1) 2(3) False, of cur u states] t1(2) show ?thesis
      by (simp add: read_value_array)
  qed
next
  case (3 p st cur s)
  then show ?case by (auto simp: rbind_eq_Inr read_value_def scan_quoted)
next
  case (5 p st cur n)
  then show ?case by (auto simp: read_value_def scan_dumped_integer)
next
  case (8 p st ni k v m)
  from 8(3) obtain key_text tv t' where t: "dump_escaped k = Inr key_text" "dump p st ni v = Inr tv" "dump_members p st ni m = Inr t'"
    "t = line_start p ni @ quote_mark # key_text @ quote_mark # (if p then '': '' else '':'') @ tv @ (if m = [] then [] else '','') @ t'"
    by (auto simp: rbind_eq_Inr)
  let ?rest = "(if m = [] then [] else '','') @ t' @ line_start p cur @ CHR ''}'' # u"
  have "number_end ?rest" using t(3) by auto
  with 8 t have "read_member (t @ line_start p cur @ CHR ''}'' # u) states =
      emit (sax_key k # sax_events (written v)) (after_value ?rest (False # states))"
    by (simp add: read_member_text del: if_split)
  with 8 t show ?case by (cases "m = []") simp_all
next
  case (10 p st ni x xs)
  from 10(3) obtain tv t' where t: "dump p st ni x = Inr tv" "dump_elements p st ni xs = Inr t'"
    "t = line_start p ni @ tv @ (if xs = [] then [] else '','') @ t'"
    by (auto simp: rbind_eq_Inr)
  let ?rest = "(if xs = [] then [] else '','') @ t' @ line_start p cur @ CHR '']'' # u"
  have "number_end ?rest" using t(2) by auto
  with 10 t have "read_value (t @ line_start p cur @ CHR '']'' # u) (True # states) =
      emit (sax_events (written x)) (after_value ?rest (True # states))"
    by (simp add: read_value_def)
  with 10 t show ?case by (cases "xs = []") simp_all
qed (auto simp: read_value_def)

lemma ascii_marks: "list_all (\<lambda>c. byte c < 0x80) (quote_mark # ''{[tfn-0123456789'')"
  by code_simp

lemma first_byte:
  assumes "dump p st cur j = Inr t" and "wf_json j"
  shows "\<exists>c s. t = c # s \<and> byte c < 0x80"
proof -
  have mark: "?thesis" if "t = c # s" "c \<in> set (quote_mark # ''{[tfn-0123456789'')" for c s
    using that ascii_marks by (auto simp only: list_all_iff)
  show ?thesis
  proof (cases j)
    case (JNum n)
    have digit: "is_digit c \<Longrightarrow> byte c < 0x80" for c
      using of_nat_of_char [of c, where 'a = int] by (simp add: is_digit_def less_eq_char_def)
    have r: "in_64_bits n" "t = dump_integer n" using JNum assms by simp_all
    have "number_end []" by (simp add: number_end_def)
    from scan_integer [OF r(1) this] obtain c s where "dump_integer n = c # s" "c = CHR ''-'' \<or> is_digit c"
      by (elim exE conjE) (rule that)
    with r(2) digit [of c] mark [of c s] show ?thesis by auto
  next
    case (JObj m)
    with assms(1) have "\<exists>s. t = CHR ''{'' # s" by (cases "m = []") (auto simp: rbind_eq_Inr)
    then show ?thesis by (elim exE) (rule mark, assumption, simp)
  next
    case (JArr xs)
    with assms(1) have "\<exists>s. t = CHR ''['' # s" by (cases "xs = []") (auto simp: rbind_eq_Inr)
    then show ?thesis by (elim exE) (rule mark, assumption, simp)
  next
    case (JStr s)
    with assms(1) have "\<exists>s. t = quote_mark # s" by (auto simp: rbind_eq_Inr)
    then show ?thesis by (elim exE) (rule mark, assumption, simp)
  next
    case (JBool b)
    with assms(1) have "t = CHR ''t'' # ''rue'' \<or> t = CHR ''f'' # ''alse''" by (cases b) simp_all
    then show ?thesis by (elim disjE) (rule mark, assumption, simp)+
  next
    case JNull
    with assms(1) show ?thesis by (intro mark [of "CHR ''n''" "''ull''"]) simp_all
  qed
qed

theorem sax_parse_dumped:
  assumes "dump p st cur j = Inr t" and "wf_json j"
  shows "sax_parse t = Inr (sax_events (written j))"
proof -
  from first_byte [OF assms] obtain c s where "t = c # s" "byte c < 0x80" by blast
  then have "skip_bom t = Some t" by (auto simp: skip_bom_def)
  moreover have "number_end []" by (simp add: number_end_def)
  with assms have "read_value (t @ []) [] = Inr (sax_events (written j), [])"
    by (subst read_dumped(1)) simp_all
  moreover have "scan [] = (end_of_input, [])" by (simp add: scan_def json_skip_whitespace_def)
  ultimately show ?thesis by (simp add: sax_parse_def read_value_def split: prod.splits)
qed

subsection \<open>What is read can be written\<close>

text \<open>A string the serializer takes: what follows a character does not depend on its code point.\<close>

definition utf8 :: "string \<Rightarrow> bool" where
  "utf8 s \<longleftrightarrow> (\<exists>t. dump_escaped s = Inr t)"

lemma dump_from_accept: "dump_escaped_from 0 codepoint s = dump_escaped s"
  unfolding dump_escaped_def by (cases s) (simp_all add: decode_def Let_def)

text \<open>The bytes of one character: an ASCII character, or a first byte and the bytes that may follow it.\<close>

definition character :: "string \<Rightarrow> bool" where
  "character bs \<longleftrightarrow>
     (case bs of
        [] \<Rightarrow> False
      | c # bs' \<Rightarrow>
          if byte c < 0x80 then bs' = []
          else (case following_ranges (byte c) of
                  None \<Rightarrow> False
                | Some ranges \<Rightarrow> next_byte_in_range ranges bs' = Some (bs', [])))"

lemma dump_following_bytes:
  assumes "expects state" and "large state codepoint" and "next_byte_in_range (to_come state) bs = Some (bs, [])" and "utf8 s"
  shows "\<exists>t. dump_escaped_from state codepoint (bs @ s) = Inr t"
  using assms
proof (induction bs arbitrary: state codepoint)
  case Nil
  have "to_come state \<noteq> []" by (rule expects_cases [OF Nil(1)]) (simp_all add: to_come_def)
  then obtain lo hi ranges where "to_come state = (lo, hi) # ranges" by (cases "to_come state") auto
  with Nil show ?case by simp
next
  case (Cons c bs)
  have "to_come state \<noteq> []" by (rule expects_cases [OF Cons.prems(1)]) (simp_all add: to_come_def)
  then obtain lo hi ranges where r: "to_come state = (lo, hi) # ranges" by (cases "to_come state") auto
  with Cons.prems(3) have range: "lo \<le> byte c" "byte c \<le> hi" and next_: "next_byte_in_range ranges bs = Some (bs, [])"
    by (auto split: if_splits)
  obtain state' codepoint' where d: "decode state codepoint (of_char c) = (state', codepoint')" by fastforce
  have "int (of_char c) = byte c" by (rule of_nat_of_char)
  with decode_following [OF Cons.prems(1) _ Cons.prems(2) r, of "of_char c"] d range
  have s': "to_come state' = ranges"
    "if ranges = [] then state' = 0 \<and> 0x80 \<le> codepoint' else expects state' \<and> large state' codepoint'" by auto
  show ?case
  proof (cases "ranges = []")
    case True
    with next_ have "bs = []" by simp
    from Cons.prems(4) obtain t where "dump_escaped_from 0 codepoint' s = Inr t" unfolding dump_from_accept utf8_def by blast
    with True s' d \<open>bs = []\<close> show ?thesis by simp
  next
    case False
    with s'(2) have st: "expects state'" "large state' codepoint'" by simp_all
    from Cons.IH [OF st _ Cons.prems(4)] next_ s'(1) obtain t where "dump_escaped_from state' codepoint' (bs @ s) = Inr t" by blast
    moreover from st have "state' \<noteq> 1" by (simp add: expects_def)
    ultimately show ?thesis using d by simp
  qed
qed

lemma utf8_character:
  assumes "character bs" and "utf8 s"
  shows "utf8 (bs @ s)"
proof -
  from assms(1) obtain c bs' where bs: "bs = c # bs'" by (cases bs) (auto simp: character_def)
  let ?b = "of_char c :: nat"
  have b: "?b < 256" "int ?b = byte c" by (simp_all add: of_nat_of_char)
  obtain state codepoint where d: "decode 0 0 ?b = (state, codepoint)" by fastforce
  note lead = decode_lead [OF b(1), of 0, unfolded d prod.case]
  show ?thesis
  proof (cases "?b < 0x80")
    case True
    with b(2) have "byte c < 0x80" by simp
    with assms(1) bs have "bs' = []" by (simp add: character_def)
    from assms(2) obtain t where "dump_escaped_from 0 codepoint s = Inr t" unfolding dump_from_accept utf8_def by blast
    with True lead d bs \<open>bs' = []\<close> show ?thesis by (simp add: utf8_def dump_escaped_def)
  next
    case False
    with b(2) have "\<not> byte c < 0x80" by simp
    with assms(1) bs obtain ranges where r: "following_ranges (byte c) = Some ranges" "next_byte_in_range ranges bs' = Some (bs', [])"
      by (auto simp: character_def split: option.splits)
    with False lead b(2) have st: "expects state" "to_come state = ranges" "large state codepoint" by auto
    with dump_following_bytes [OF st(1,3) _ assms(2), of bs'] r obtain t where "dump_escaped_from state codepoint (bs' @ s) = Inr t" by auto
    moreover have "state \<noteq> 1" using st(1) by (auto simp: expects_def)
    ultimately show ?thesis using d bs by (simp add: utf8_def dump_escaped_def)
  qed
qed

lemma utf8_Nil: "utf8 []"
  by (simp add: utf8_def dump_escaped_def)

subsubsection \<open>The bytes of a code point\<close>

lemma high_bits:
  assumes "0 \<le> x" and "x < 2 ^ n" and "m = 2 ^ n * k"
  shows "m OR x = m + (x :: int)"
proof -
  have x: "take_bit n x = x" using assms by (simp add: take_bit_int_eq_self)
  have "push_bit n k OR take_bit n x = push_bit n k + take_bit n x"
    by (rule disjunctive_add [symmetric]) (auto simp: bit_simps)
  moreover have "push_bit n k = m" using assms(3) by (simp add: push_bit_eq_mult)
  ultimately show ?thesis by (simp only: x)
qed

lemma lead_bits:
  fixes x :: int
  assumes x: "0 \<le> x"
  shows "x < 0x20 \<Longrightarrow> 0xC0 OR x = 0xC0 + x" "x < 0x10 \<Longrightarrow> 0xE0 OR x = 0xE0 + x"
    "x < 0x08 \<Longrightarrow> 0xF0 OR x = 0xF0 + x" "x < 0x40 \<Longrightarrow> 0x80 OR x = 0x80 + x"
proof -
  show "x < 0x20 \<Longrightarrow> 0xC0 OR x = 0xC0 + x" by (rule high_bits [OF x, of 5 _ 6]; simp)
  show "x < 0x10 \<Longrightarrow> 0xE0 OR x = 0xE0 + x" by (rule high_bits [OF x, of 4 _ 14]; simp)
  show "x < 0x08 \<Longrightarrow> 0xF0 OR x = 0xF0 + x" by (rule high_bits [OF x, of 3 _ 30]; simp)
  show "x < 0x40 \<Longrightarrow> 0x80 OR x = 0x80 + x" by (rule high_bits [OF x, of 6 _ 2]; simp)
qed

lemma low_six: "(x :: int) AND 0x3F = x mod 0x40"
proof -
  have "x AND 0x3F = take_bit 6 x" by (simp add: take_bit_eq_mask mask_eq_exp_minus_1)
  then show ?thesis by (simp add: take_bit_eq_mod)
qed

lemma byte_char_of: "0 \<le> x \<Longrightarrow> x < 256 \<Longrightarrow> byte (char_of (x :: int)) = x"
  by (simp add: of_char_of)

lemma three_bytes:
  fixes a b c :: int
  assumes "0 \<le> a" "a < 0x10" "0 \<le> b" "b < 0x40" "0 \<le> c" "c < 0x40" and "a = 0 \<Longrightarrow> 0x20 \<le> b" "a = 0xD \<Longrightarrow> b < 0x20"
  shows "character [char_of (0xE0 + a), char_of (0x80 + b), char_of (0x80 + c)]"
  using assms by (auto simp: character_def byte_char_of following_ranges_def)

lemma four_bytes:
  fixes a b c d :: int
  assumes "0 \<le> a" "a < 5" "0 \<le> b" "b < 0x40" "0 \<le> c" "c < 0x40" "0 \<le> d" "d < 0x40" and "a = 0 \<Longrightarrow> 0x10 \<le> b" "a = 4 \<Longrightarrow> b < 0x10"
  shows "character [char_of (0xF0 + a), char_of (0x80 + b), char_of (0x80 + c), char_of (0x80 + d)]"
proof -
  consider "a = 0" | "1 \<le> a" "a \<le> 3" | "a = 4" using assms(1,2) by linarith
  then show ?thesis by cases (use assms in \<open>auto simp: character_def byte_char_of following_ranges_def\<close>)
qed

lemma codepoint_is_character:
  assumes "0 \<le> n" and "n \<le> 0x10FFFF" and "n < 0xD800 \<or> 0xDFFF < n"
  shows "character (codepoint_bytes n)"
proof -
  have q: "drop_bit 6 n = n div 0x40" "drop_bit 12 n = n div 0x1000" "drop_bit 18 n = n div 0x40000"
    by (simp_all add: drop_bit_eq_div)
  have q64: "n div 0x40 div 0x40 = n div 0x1000" "n div 0x1000 div 0x40 = n div 0x40000" by (simp_all add: zdiv_zmult2_eq [symmetric])
  have six: "0x80 OR (x AND 0x3F) = 0x80 + x mod 0x40" for x :: int by (simp add: low_six lead_bits)
  consider "n < 0x80" | "0x80 \<le> n" "n \<le> 0x7FF" | "0x7FF < n" "n \<le> 0xFFFF" | "0xFFFF < n" by linarith
  then show ?thesis
  proof cases
    case 1
    with assms(1) show ?thesis by (simp add: codepoint_bytes_def character_def byte_char_of)
  next
    case 2
    then have r: "2 \<le> n div 0x40" "n div 0x40 < 0x20" by auto
    with 2 have "codepoint_bytes n = [char_of (0xC0 + n div 0x40), char_of (0x80 + n mod 0x40)]"
      by (simp add: codepoint_bytes_def q six lead_bits)
    with r show ?thesis by (simp add: character_def byte_char_of following_ranges_def)
  next
    case 3
    then have r: "0 \<le> n div 0x1000" "n div 0x1000 < 0x10" by auto
    with 3 have cb: "codepoint_bytes n = [char_of (0xE0 + n div 0x1000), char_of (0x80 + n div 0x40 mod 0x40), char_of (0x80 + n mod 0x40)]"
      by (simp add: codepoint_bytes_def q six lead_bits)
    have m: "n div 0x40 = 0x40 * (n div 0x1000) + n div 0x40 mod 0x40" using mult_div_mod_eq [of "0x40" "n div 0x40"] by (simp add: q64)
    have "0x20 \<le> n div 0x40" "n div 0x40 < 0x360 \<or> 0x380 \<le> n div 0x40" using 3 assms(3) by auto
    with m have "n div 0x1000 = 0 \<Longrightarrow> 0x20 \<le> n div 0x40 mod 0x40" "n div 0x1000 = 0xD \<Longrightarrow> n div 0x40 mod 0x40 < 0x20"
      by linarith+
    with r show ?thesis unfolding cb by (intro three_bytes) simp_all
  next
    case 4
    then have r: "0 \<le> n div 0x40000" "n div 0x40000 < 5" using assms(2) by auto
    with 4 have cb: "codepoint_bytes n = [char_of (0xF0 + n div 0x40000), char_of (0x80 + n div 0x1000 mod 0x40),
        char_of (0x80 + n div 0x40 mod 0x40), char_of (0x80 + n mod 0x40)]"
      by (simp add: codepoint_bytes_def q six lead_bits)
    have m: "n div 0x1000 = 0x40 * (n div 0x40000) + n div 0x1000 mod 0x40" using mult_div_mod_eq [of "0x40" "n div 0x1000"] by (simp add: q64)
    have "0x10 \<le> n div 0x1000" "n div 0x1000 < 0x110" using 4 assms(2) by auto
    with m have "n div 0x40000 = 0 \<Longrightarrow> 0x10 \<le> n div 0x1000 mod 0x40" "n div 0x40000 = 4 \<Longrightarrow> n div 0x1000 mod 0x40 < 0x10"
      by linarith+
    with r show ?thesis unfolding cb by (intro four_bytes) simp_all
  qed
qed

subsubsection \<open>The tokens\<close>

lemma hex_digit_range: "hex_digit c = Some d \<Longrightarrow> 0 \<le> d \<and> d < 16"
  using of_nat_of_char [of c, where 'a = int]
  by (auto simp: hex_digit_def less_eq_char_def split: if_splits)

lemma get_codepoint_range:
  assumes "get_codepoint s = Some (n, rest)"
  shows "0 \<le> n \<and> n \<le> 0xFFFF"
proof -
  from assms obtain d1 d2 d3 d4 where "0 \<le> d1 \<and> d1 < 16" "0 \<le> d2 \<and> d2 < 16" "0 \<le> d3 \<and> d3 < 16" "0 \<le> d4 \<and> d4 < 16"
    and n: "n = push_bit 12 d1 + push_bit 8 d2 + push_bit 4 d3 + d4"
    by (cases s rule: get_codepoint.cases) (auto split: option.splits dest!: hex_digit_range)
  then show ?thesis unfolding n by (simp add: push_bit_eq_mult)
qed

lemma scan_unicode_character:
  assumes "scan_unicode s = Some (bs, rest)"
  shows "character bs"
proof -
  obtain n s1 where g: "get_codepoint s = Some (n, s1)" using assms by (cases "get_codepoint s") (auto simp: scan_unicode_def)
  note n = get_codepoint_range [OF g]
  consider "0xD800 \<le> n \<and> n \<le> 0xDBFF" | "0xDC00 \<le> n \<and> n \<le> 0xDFFF" | "n < 0xD800 \<or> 0xDFFF < n" by linarith
  then show ?thesis
  proof cases
    case 1
    with assms g obtain n2 s2 s3 where g2: "get_codepoint s2 = Some (n2, s3)" "0xDC00 \<le> n2" "n2 \<le> 0xDFFF"
      and bs: "bs = codepoint_bytes (push_bit 10 n + n2 - 0x35FDC00)"
      by (auto simp: scan_unicode_def split: list.splits if_splits option.splits)
    from 1 g2 show ?thesis unfolding bs by (intro codepoint_is_character) (simp_all add: push_bit_eq_mult)
  next
    case 2
    with assms g show ?thesis by (simp add: scan_unicode_def)
  next
    case 3
    with assms g have "bs = codepoint_bytes n" by (auto simp: scan_unicode_def)
    with 3 n show ?thesis by (simp add: codepoint_is_character)
  qed
qed

lemma ascii_character: "of_char c < (0x80 :: nat) \<Longrightarrow> character [c]"
  using of_nat_of_char [of c, where 'a = int] by (simp add: character_def)

lemma escape_characters:
  "list_all (\<lambda>c. of_char c < (0x80 :: nat)) [quote_mark, backslash, CHR ''/'', CHR 0x08, CHR 0x0C, CHR 0x0A, CHR 0x0D, CHR 0x09]"
  by code_simp

lemma next_bytes:
  "next_byte_in_range ranges s = Some (bs, rest) \<Longrightarrow> next_byte_in_range ranges bs = Some (bs, [])"
  by (induction ranges s arbitrary: bs rule: next_byte_in_range.induct) (auto split: if_splits)

lemma scan_char_character:
  assumes "scan_char s = Some (bs, rest)"
  shows "character bs"
proof (cases s)
  case (Cons c s')
  show ?thesis
  proof (cases "c = backslash")
    case True
    with assms Cons obtain e s'' where s': "s' = e # s''" by (cases s') auto
    show ?thesis
    proof (cases "e = CHR ''u''")
      case True
      with assms Cons s' \<open>c = backslash\<close> show ?thesis by (auto intro: scan_unicode_character)
    next
      case False
      with assms Cons s' \<open>c = backslash\<close> have "bs \<in> (\<lambda>c. [c]) ` set [quote_mark, backslash, CHR ''/'', CHR 0x08, CHR 0x0C, CHR 0x0A, CHR 0x0D, CHR 0x09]"
        by (auto split: if_splits)
      with escape_characters show ?thesis unfolding list_all_iff by (elim imageE) (simp only: ascii_character)
    qed
  next
    case False
    with assms Cons obtain ranges bs' where r: "following_ranges (byte c) = Some ranges" "next_byte_in_range ranges s' = Some (bs', rest)"
      and bs: "bs = c # bs'" by (auto split: option.splits)
    show ?thesis
    proof (cases "byte c < 0x80")
      case True
      with r have "ranges = []" by (auto simp: following_ranges_def split: if_splits)
      with True r bs show ?thesis by (simp add: character_def)
    next
      case False
      with r(1) next_bytes [OF r(2)] bs show ?thesis by (simp add: character_def)
    qed
  qed
qed (use assms in simp)

lemma scan_string_utf8: "scan_string s = Some (buffer, rest) \<Longrightarrow> utf8 buffer"
proof (induction s arbitrary: buffer rule: scan_string.induct)
  case (1 s)
  show ?case
  proof (cases s)
    case (Cons c s')
    show ?thesis
    proof (cases "c = quote_mark")
      case False
      with 1(2) Cons obtain bs rest1 buffer1 where c: "scan_char s = Some (bs, rest1)" "scan_string rest1 = Some (buffer1, rest)"
        and b: "buffer = bs @ buffer1"
        by (auto simp: scan_string_unfold simp del: scan_char.simps split: option.splits)
      from 1(1) [OF Cons False c(1) refl c(2)] scan_char_character [OF c(1)] show ?thesis
        unfolding b by (simp add: utf8_character)
    qed (use 1(2) Cons in \<open>simp add: scan_string_unfold utf8_Nil\<close>)
  qed (use 1(2) in \<open>simp add: scan_string_unfold\<close>)
qed

text \<open>The values of the tokens.\<close>

fun token_fits :: "token_type \<Rightarrow> bool" where
  "token_fits (value_string t) \<longleftrightarrow> utf8 t"
| "token_fits (value_unsigned n) \<longleftrightarrow> in_64_bits (int n)"
| "token_fits (value_integer n) \<longleftrightarrow> in_64_bits n"
| "token_fits tok \<longleftrightarrow> True"

lemma number_done_fits: "token_fits (fst (scan_number_done k b s))"
  by (auto simp: scan_number_done_def in_64_bits_def Let_def split: number_type.split)

lemma scan_number_fits:
  "token_fits (fst (scan_number_any2 b s))"
  "token_fits (fst (scan_number_sign b s))"
  "token_fits (fst (scan_number_exponent b s))"
  "token_fits (fst (scan_number_decimal2 b s))"
  "token_fits (fst (scan_number_decimal1 b s))"
  "token_fits (fst (scan_number_any1 k b s))"
  "token_fits (fst (scan_number_zero k b s))"
  "token_fits (fst (scan_number_minus b s))"
proof -
  show any2: "token_fits (fst (scan_number_any2 b s))" for b s
    by (induction b s rule: scan_number_any2.induct) (auto simp: number_done_fits)
  show sign: "token_fits (fst (scan_number_sign b s))" for b s
    by (auto simp: scan_number_sign_def any2 split: list.split)
  show exponent: "token_fits (fst (scan_number_exponent b s))" for b s
    by (auto simp: scan_number_exponent_def any2 sign split: list.split)
  show decimal2: "token_fits (fst (scan_number_decimal2 b s))" for b s
    by (induction b s rule: scan_number_decimal2.induct) (auto simp: number_done_fits exponent)
  show decimal1: "token_fits (fst (scan_number_decimal1 b s))" for b s
    by (auto simp: scan_number_decimal1_def decimal2 split: list.split)
  show any1: "token_fits (fst (scan_number_any1 k b s))" for k b s
    by (induction k b s rule: scan_number_any1.induct) (auto simp: number_done_fits exponent decimal1)
  show zero: "token_fits (fst (scan_number_zero k b s))" for k b s
    by (auto simp: scan_number_zero_def number_done_fits decimal1 exponent split: list.split)
  show "token_fits (fst (scan_number_minus b s))"
    by (auto simp: scan_number_minus_def zero any1 split: list.split)
qed

lemma literal_fits: "token_fits t \<Longrightarrow> token_fits (fst (scan_literal ls t s))"
  by (induction ls t s rule: scan_literal.induct) auto

lemma scan_fits: "token_fits (fst (scan text))"
proof (cases "json_skip_whitespace text")
  case (Cons c s)
  have "token_fits (fst (scan_number c s))" by (simp add: scan_number_def scan_number_fits)
  with Cons literal_fits [of _ _ s] scan_string_utf8 [of s] show ?thesis
    by (auto simp: scan_def split: option.splits)
qed (simp add: scan_def)

lemma scanned_fits: "scan text = (tok, s) \<Longrightarrow> token_fits tok"
  using scan_fits [of "text"] by simp

subsubsection \<open>The documents\<close>

fun writable :: "json \<Rightarrow> bool" where
  "writable (JStr s) \<longleftrightarrow> utf8 s"
| "writable (JArr xs) \<longleftrightarrow> (\<forall>x \<in> set xs. writable x)"
| "writable (JObj m) \<longleftrightarrow> (\<forall>(k, v) \<in> set m. utf8 k \<and> writable v)"
| "writable j \<longleftrightarrow> True"

fun event_fits :: "sax \<Rightarrow> bool" where
  "event_fits (sax_value v) \<longleftrightarrow> writable v \<and> wf_json v"
| "event_fits (sax_key k) \<longleftrightarrow> utf8 k"
| "event_fits e \<longleftrightarrow> True"

lemma member_start_fits:
  "member_start tok s = Some (k, tok', s') \<Longrightarrow> token_fits tok \<Longrightarrow> utf8 k \<and> token_fits tok'"
  by (auto simp: member_start_def split: token_type.splits prod.splits if_splits dest: scanned_fits)

lemma parsed_events_fit:
  "parse_value tok s states = Inr (es, rest) \<Longrightarrow> token_fits tok \<Longrightarrow> list_all event_fits es"
  "after_value s states = Inr (es, rest) \<Longrightarrow> list_all event_fits es"
proof (induction tok s states and s states arbitrary: es and es rule: parse_value_after_value.induct)
  case (1 s states)
  then show ?case
    by (auto simp: emit_eq_Inr split: prod.splits if_splits option.splits dest!: member_start_fits dest: scanned_fits)
next
  case (2 s states)
  then show ?case by (auto simp: emit_eq_Inr split: prod.splits if_splits dest: scanned_fits)
next
  case (12 s states)
  then show ?case by (auto simp: emit_eq_Inr after_value.simps split: prod.splits if_splits dest: scanned_fits)
next
  case (13 s states)
  then show ?case
    by (auto simp: emit_eq_Inr after_value.simps split: prod.splits if_splits option.splits dest!: member_start_fits dest: scanned_fits)
qed (auto simp: emit_eq_Inr)

lemma writable_assign: "writable (JObj m) \<Longrightarrow> utf8 k \<Longrightarrow> writable v \<Longrightarrow> writable (JObj (sm_assign k v m))"
  by (induction k v m rule: sm_assign.induct) auto

lemma writable_fold:
  "\<forall>(k, v) \<in> set ms. utf8 k \<and> writable v \<Longrightarrow> writable (JObj m) \<Longrightarrow>
     writable (JObj (fold (\<lambda>(k, j) m. sm_assign k j m) ms m))"
proof (induction ms arbitrary: m)
  case (Cons p ms)
  obtain k v where p: "p = (k, v)" by (cases p)
  have "writable (JObj (sm_assign k v m))" using Cons.prems p by (intro writable_assign) auto
  then have "writable (JObj (fold (\<lambda>(k, j) m. sm_assign k j m) ms (sm_assign k v m)))"
    by (intro Cons.IH) (use Cons.prems in simp_all)
  then show ?case unfolding p by simp
qed simp

lemma parsed_fits: "list_all event_fits (sax_events r) \<Longrightarrow> writable (parsed r) \<and> wf_json (parsed r)"
proof (induction r)
  case (RArr rs)
  then show ?case by (auto simp: list_all_iff)
next
  case (RObj ms)
  let ?ms = "map (\<lambda>(k, r). (k, parsed r)) ms"
  have "\<forall>(k, v) \<in> set ?ms. utf8 k \<and> writable v" "\<forall>(k, v) \<in> set ?ms. wf_json v"
    using RObj by (fastforce simp: list_all_iff snds.simps)+
  then show ?case unfolding parsed.simps by (intro conjI writable_fold wf_fold_assign) simp_all
qed auto

lemma json_parse_fits:
  assumes "json_parse text = Inr j"
  shows "writable j \<and> wf_json j"
proof -
  from assms obtain r where r: "sax_parse text = Inr (sax_events r)" "j = parsed r" by (rule json_parse_cases)
  from r(1) have "list_all event_fits (sax_events r)"
    by (auto simp: sax_parse_def rbind_eq_Inr split: option.splits prod.splits if_splits dest!: parsed_events_fit(1) dest: scanned_fits)
  then show ?thesis unfolding r(2) by (rule parsed_fits)
qed

lemma dump_writable:
  "writable j \<Longrightarrow> \<exists>t. dump p st cur j = Inr t"
  "writable (JObj m) \<Longrightarrow> \<exists>t. dump_members p st ni m = Inr t"
  "writable (JArr xs) \<Longrightarrow> \<exists>t. dump_elements p st ni xs = Inr t"
  by (induction p st cur j and p st ni m and p st ni xs rule: dump_dump_members_dump_elements.induct)
     (auto simp: utf8_def)

lemma json_parse_dumped:
  assumes "dump p st cur j = Inr t" and "wf_json j"
  shows "json_parse t = Inr j"
  using json_parse_raw [OF sax_parse_dumped [OF assms]] parsed_written [OF assms(2)] by simp

end
