(* ===== verification/Texts.thy ===== *)
theory Texts
  imports Json_Round_Trip
begin

section \<open>The texts of documents\<close>

text \<open>
  What the program relies on when it reads and writes the text of a document: \<open>json::parse\<close>, \<open>dump\<close> and the
  output to a file, and \<open>CheckIfThereIsDuplicatedKey\<close> of \<open>src/config.cpp\<close>, which gives the parser a callback. The callback
  raises nothing, so an error of syntax is what the function ends with, whatever was seen before it.
\<close>

definition CheckIfThereIsDuplicatedKey :: "string \<Rightarrow> bool result" where
  "CheckIfThereIsDuplicatedKey text =
     rbind (sax_parse text) (\<lambda>es.
     rbind (watch (map callback_event es) (False, [])) (\<lambda>(is_duplicated_key, stack). Inr is_duplicated_key))"

lemma duplicated_keys_of_tree:
  "sax_parse text = Inr (sax_events r) \<Longrightarrow> CheckIfThereIsDuplicatedKey text = Inr (\<not> unique_keys r)"
  using watch_tree [of r] by (auto simp: CheckIfThereIsDuplicatedKey_def callback_events)

lemma dumped_text:
  assumes "dump p st cur j = Inr t" and "wf_json j"
  shows "json_parse t = Inr j" and "CheckIfThereIsDuplicatedKey t = Inr False"
  using json_parse_dumped [OF assms] duplicated_keys_of_tree [OF sax_parse_dumped [OF assms]] unique_keys_written [OF assms(2)]
  by simp_all

lemma json_parse_wf: "json_parse text = Inr j \<Longrightarrow> wf_json j"
  using json_parse_fits [of "text" j] by simp

lemma json_parse_dumps: "json_parse text = Inr j \<Longrightarrow> \<exists>t. dump p st cur j = Inr t"
  using json_parse_fits [of "text" j] dump_writable(1) by blast

text \<open>A file the manager can start with: the text of a document in which no object has a key twice.\<close>

definition file_holds :: "string \<Rightarrow> json \<Rightarrow> bool" where
  "file_holds text j \<longleftrightarrow> json_parse text = Inr j \<and> CheckIfThereIsDuplicatedKey text = Inr False"

lemma file_holds_wf: "file_holds text j \<Longrightarrow> wf_json j"
  by (auto simp: file_holds_def json_parse_wf)

lemma file_holds_dumped: "json_dump_indented j = Inr text \<Longrightarrow> wf_json j \<Longrightarrow> file_holds text j"
  by (simp add: file_holds_def json_dump_indented_def dumped_text)

text \<open>A document that is handed over as its text.\<close>

definition reparsed :: "json \<Rightarrow> json result" where
  "reparsed j = rbind (json_dump j) json_parse"

lemma reparsed_same: "reparsed j = Inr j' \<Longrightarrow> wf_json j \<Longrightarrow> j' = j"
  by (auto simp: reparsed_def rbind_eq_Inr json_dump_def dumped_text(1))

subsection \<open>Properties\<close>

text \<open>C31 Every text is either refused, with one error that the parser and the search for duplicated keys end with alike, or
  it is the text of one tree of values: then the document is that tree with the last of the members of one key kept, and the search
  reports exactly the trees in which some object, at any depth, has a key twice. It never takes from an empty stack.\<close>

theorem duplicated_keys_are_found:
  "case sax_parse text of
     Inl e \<Rightarrow> json_parse text = Inl e \<and> CheckIfThereIsDuplicatedKey text = Inl e
   | Inr es \<Rightarrow> \<exists>r. es = sax_events r \<and> json_parse text = Inr (parsed r) \<and>
       CheckIfThereIsDuplicatedKey text = Inr (\<not> unique_keys r)"
proof (cases "sax_parse text")
  case (Inl e)
  then show ?thesis by (simp add: json_parse_def CheckIfThereIsDuplicatedKey_def)
next
  case (Inr es)
  with sax_parse_raw obtain r where "es = sax_events r" by blast
  with Inr show ?thesis by (auto simp: json_parse_raw duplicated_keys_of_tree)
qed

text \<open>C8 What is read can be written: the document of any text that the parser accepts is written without an error, in one
  line and indented, and both texts are read as the same document again, with no key found twice.\<close>

theorem what_is_read_can_be_written:
  assumes "json_parse text = Inr j"
  shows "\<exists>line indented. json_dump j = Inr line \<and> json_parse line = Inr j \<and> json_dump_indented j = Inr indented \<and>
    json_parse indented = Inr j \<and> CheckIfThereIsDuplicatedKey indented = Inr False"
proof -
  have wf: "wf_json j" using assms by (rule json_parse_wf)
  obtain line where line: "json_dump j = Inr line" using json_parse_dumps [OF assms] unfolding json_dump_def by blast
  obtain indented where ind: "json_dump_indented j = Inr indented"
    using json_parse_dumps [OF assms] unfolding json_dump_indented_def by blast
  show ?thesis
    using line ind dumped_text(1) [OF line [unfolded json_dump_def] wf] dumped_text [OF ind [unfolded json_dump_indented_def] wf]
    by blast
qed

text \<open>The text has white space, a key that is given twice, an escaped character, a surrogate pair and a number with a sign.\<close>

theorem what_is_read_can_be_written_witness:
  "let text = [CHR 0x7B, CHR 0x0A, quote_mark, CHR ''k'', quote_mark, CHR '':'', CHR ''-'', CHR ''5'', CHR '','',
       quote_mark, CHR ''k'', quote_mark, CHR '':'', CHR '' '', quote_mark, backslash, CHR ''u'', CHR ''d'', CHR ''8'', CHR ''3'',
       CHR ''d'', backslash, CHR ''u'', CHR ''d'', CHR ''e'', CHR ''0'', CHR ''0'', backslash, CHR ''n'', quote_mark, CHR 0x7D];
     j = JObj [(''k'', JStr [CHR 0xF0, CHR 0x9F, CHR 0x98, CHR 0x80, CHR 0x0A])]
   in json_parse text = Inr j \<and> CheckIfThereIsDuplicatedKey text = Inr True \<and>
      (\<exists>line indented. json_dump j = Inr line \<and> json_parse line = Inr j \<and> json_dump_indented j = Inr indented \<and>
         json_parse indented = Inr j \<and> CheckIfThereIsDuplicatedKey indented = Inr False)"
proof -
  let ?text = "[CHR 0x7B, CHR 0x0A, quote_mark, CHR ''k'', quote_mark, CHR '':'', CHR ''-'', CHR ''5'', CHR '','',
       quote_mark, CHR ''k'', quote_mark, CHR '':'', CHR '' '', quote_mark, backslash, CHR ''u'', CHR ''d'', CHR ''8'', CHR ''3'',
       CHR ''d'', backslash, CHR ''u'', CHR ''d'', CHR ''e'', CHR ''0'', CHR ''0'', backslash, CHR ''n'', quote_mark, CHR 0x7D]"
  have p: "json_parse ?text = Inr (JObj [(''k'', JStr [CHR 0xF0, CHR 0x9F, CHR 0x98, CHR 0x80, CHR 0x0A])])" by code_simp
  moreover have "CheckIfThereIsDuplicatedKey ?text = Inr True" by code_simp
  ultimately show ?thesis using what_is_read_can_be_written [OF p] unfolding Let_def by blast
qed

text \<open>What is written is read back: the text of a well-formed document, in one line or indented, is parsed to that document.\<close>

theorem written_documents_are_read_back:
  assumes "wf_json j" and "json_dump_indented j = Inr indented \<or> json_dump j = Inr indented"
  shows "json_parse indented = Inr j \<and> CheckIfThereIsDuplicatedKey indented = Inr False"
  using assms(2) dumped_text [OF _ assms(1)] unfolding json_dump_indented_def json_dump_def by blast

theorem written_documents_are_read_back_witness:
  "\<exists>indented. json_dump_indented (JObj [(''a'', JNum (-12)), (''b'', JArr [JNull, JBool True])]) = Inr indented \<and>
     json_parse indented = Inr (JObj [(''a'', JNum (-12)), (''b'', JArr [JNull, JBool True])])"
proof -
  let ?j = "JObj [(''a'', JNum (-12)), (''b'', JArr [JNull, JBool True])]"
  have wf: "wf_json ?j" by code_simp
  have "\<not> isl (json_dump_indented ?j)" by code_simp
  then obtain t where "json_dump_indented ?j = Inr t" by (cases "json_dump_indented ?j") auto
  with written_documents_are_read_back [OF wf, of t] show ?thesis by blast
qed

end
