(* ===== verification/References.thy ===== *)
theory References
  imports Loading Ordering Connection Texts
begin

section \<open>The state of the configuration manager, and its references\<close>

text \<open>
  \<open>Config::Manager\<close> of \<open>src/config.hpp\<close> with the three static documents of \<open>src/config.cpp\<close>, and the two
  methods that maintain the references between nodes. The surroundings are the parameter \<open>env\<close>: regular
  expressions (whether a text matches one, and the part of a text that one is found in), validation against a
  schema, the transport of messages to other servers (with what was sent before), and the depth of the stack.
\<close>

type_synonym message = "string \<times> string \<times> json"

record env =
  env_regex :: regex
  env_validate :: "json \<Rightarrow> json \<Rightarrow> bool"
  env_send :: "message list \<Rightarrow> string \<Rightarrow> string \<Rightarrow> string \<Rightarrow> string \<Rightarrow> response option"
  env_depth :: nat
  env_regex_search :: "string \<Rightarrow> string \<Rightarrow> string option result"

text \<open>
  The state of the manager. The maps of references go from the path of a target to the paths of its
  sources. A document that was never saved is null. \<open>config_file\<close> is the text in the configuration
  file, if there is one that can be opened; \<open>posted\<close> are the messages sent so far, newest last.
\<close>

record manager =
  running_config :: "node option"
  candidate_config :: "node option"
  is_candidate_config_ready :: bool
  running_references :: "(string, string list) smap"
  candidate_references :: "(string, string list) smap"
  json_schema :: json
  running_json :: json
  candidate_json :: json
  config_file :: "string option"
  posted :: "message list"

definition Manager_init :: "string option \<Rightarrow> manager" where
  "Manager_init file =
     \<lparr>running_config = None, candidate_config = None, is_candidate_config_ready = False,
      running_references = [], candidate_references = [], json_schema = JNull, running_json = JNull,
      candidate_json = JNull, config_file = file, posted = []\<rparr>"

definition RunningJsonConfig_get :: "manager \<Rightarrow> json result" where
  "RunningJsonConfig_get m =
     (if running_json m = JNull then Inl (RuntimeError ''Running JSON config is not initialized yet'')
      else Inr (running_json m))"

definition CandidateJsonConfig_get :: "manager \<Rightarrow> json result" where
  "CandidateJsonConfig_get m =
     (if candidate_json m = JNull then Inl (RuntimeError ''Candidate JSON config is not initialized yet'')
      else Inr (candidate_json m))"

definition schema_of :: "env \<Rightarrow> manager \<Rightarrow> string \<Rightarrow> schema_node option result" where
  "schema_of env m xpath = getSchemaByXPath (env_regex env) (json_schema m) xpath"

definition json_schema_of :: "env \<Rightarrow> manager \<Rightarrow> string \<Rightarrow> json result" where
  "json_schema_of env m xpath = GetJsonSchemaByXPath (env_regex env) (json_schema m) xpath"

text \<open>
  \<open>getConfigNode\<close> reads the file again; a file that cannot be opened is read as an empty text. The text it
  gives is parsed by every caller, which is part of the model here.
\<close>

definition getConfigNode :: "manager \<Rightarrow> string \<Rightarrow> json result" where
  "getConfigNode m xpath =
     (case config_file m of
        None \<Rightarrow> Inl (JsonError 101)
      | Some text \<Rightarrow> rbind (json_parse text) (\<lambda>j. rbind (pointer_parse xpath) (\<lambda>p. rbind (json_ref_value p j) reparsed)))"

definition getRunningConfig :: "manager \<Rightarrow> node option" where
  "getRunningConfig m = running_config m"

text \<open>A message is the text of a document.\<close>

definition post :: "env \<Rightarrow> string \<Rightarrow> string \<Rightarrow> json \<Rightarrow> manager \<Rightarrow> (bool, manager) outcome" where
  "post env addr path body m =
     (case json_dump body of
        Inl e \<Rightarrow> (Inl e, m)
      | Inr text \<Rightarrow>
          (Inr (Client_post (env_send env (posted m)) addr path text), m\<lparr>posted := posted m @ [(addr, path, body)]\<rparr>))"

definition validateJsonConfig :: "env \<Rightarrow> json \<Rightarrow> json \<Rightarrow> bool" where
  "validateJsonConfig env jconfig jschema = env_validate env jschema jconfig"

subsection \<open>Saving references\<close>

text \<open>
  A reference of the schema is a path with \<open>@\<close> for the name of the node; the reference is kept when the
  path selects a node. The loops work on a copy of the map.
\<close>

abbreviation refs_of :: "(string, string list) smap \<Rightarrow> string \<Rightarrow> string list" where
  "refs_of refs t \<equiv> deps refs t"

definition evaluate_reference :: "handle \<Rightarrow> string \<Rightarrow> string result" where
  "evaluate_reference h ref =
     (if contains ref ITEM_NAME_SUBSCRIPT
      then rbind (XPath_evaluateXPath h ref) (\<lambda>evaluated. Inr (if length evaluated > 0 then evaluated else ref))
      else Inr ref)"

fun save_references ::
  "node \<Rightarrow> string \<Rightarrow> handle \<Rightarrow> string list \<Rightarrow> (string, string list) smap \<Rightarrow> (string, string list) smap result" where
  "save_references root xpath h [] refs = Inr refs"
| "save_references root xpath h (xpath_reference # rs) refs =
     rbind (evaluate_reference h xpath_reference) (\<lambda>ref.
       if contains ref REFERENCE_TOKEN
       then let ref_xpath = replace_all REFERENCE_TOKEN (Name (snd h)) ref in
            save_references root xpath h rs
              (if XPath_select ([], root) ref_xpath \<noteq> None then add_dep ref_xpath xpath refs else refs)
       else save_references root xpath h rs refs)"

fun save_all_references ::
  "env \<Rightarrow> manager \<Rightarrow> node \<Rightarrow> string list \<Rightarrow> (string, string list) smap \<Rightarrow> (string, string list) smap result" where
  "save_all_references env m root [] refs = Inr refs"
| "save_all_references env m root (xpath # xpaths) refs =
     rbind (schema_of env m xpath) (\<lambda>s.
       case s of
         None \<Rightarrow> save_all_references env m root xpaths refs
       | Some schema_node \<Rightarrow>
           (case XPath_select ([], root) xpath of
              None \<Rightarrow> save_all_references env m root xpaths refs
            | Some h \<Rightarrow>
                rbind (save_references root xpath h (FindAttr (snd schema_node) REFERENCE) refs)
                  (save_all_references env m root xpaths)))"

definition saveXPathReference :: "env \<Rightarrow> string list \<Rightarrow> node \<Rightarrow> manager \<Rightarrow> (bool, manager) outcome" where
  "saveXPathReference env ordered root m =
     (case save_all_references env m root ordered (candidate_references m) of
        Inl e \<Rightarrow> (Inl e, m)
      | Inr refs \<Rightarrow> (Inr True, m\<lparr>candidate_references := refs\<rparr>))"

subsection \<open>Removing references\<close>

definition drop_source :: "string \<Rightarrow> (string, string list) smap \<Rightarrow> (string, string list) smap" where
  "drop_source xpath refs = map (\<lambda>(target, sources). (target, ss_erase xpath sources)) refs"

definition still_referenced :: "(string, string list) smap \<Rightarrow> string \<Rightarrow> bool" where
  "still_referenced refs xpath = (case sm_find refs xpath of None \<Rightarrow> False | Some sources \<Rightarrow> sources \<noteq> [])"

definition references_to_remove :: "(string, string list) smap \<Rightarrow> string list \<Rightarrow> string list" where
  "references_to_remove refs xpaths = rev (filter (\<lambda>xpath. \<not> sm_contains refs xpath) xpaths)"

definition removeXPathReference :: "string list \<Rightarrow> manager \<Rightarrow> (bool, manager) outcome" where
  "removeXPathReference xpaths m =
     (let refs = fold drop_source xpaths (candidate_references m) in
      if \<exists>xpath \<in> set xpaths. still_referenced refs xpath then (Inr False, m)
      else (Inr True, m\<lparr>candidate_references := fold sm_erase (references_to_remove refs xpaths) refs\<rparr>))"


subsection \<open>What the two methods do to the map\<close>

lemma deps_assign: "deps (sm_assign n ds adj) t = (if t = n then ds else deps adj t)"
  by (simp add: deps_def)

lemma deps_add_dep: "set (deps (add_dep n d adj) t) = (if t = n then insert d (set (deps adj t)) else set (deps adj t))"
  by (simp add: add_dep_def deps_assign)

lemma find_map_values: "sm_find (map (\<lambda>(k, v). (k, f v)) m) k = map_option f (sm_find m k)"
  by (induction m) auto

lemma fold_drop_source: "fold drop_source xs refs = map (\<lambda>(t, ss). (t, filter (\<lambda>s. s \<notin> set xs) ss)) refs"
proof (induction xs arbitrary: refs)
  case Nil
  then show ?case by (simp add: case_prod_beta)
next
  case (Cons x xs)
  have "filter (\<lambda>s. s \<notin> set xs) (ss_erase x ss) = filter (\<lambda>s. s \<notin> set (x # xs)) ss" for ss
    by (auto simp: ss_erase_def intro: filter_cong)
  with Cons show ?case by (simp add: drop_source_def case_prod_beta comp_def)
qed

lemma deps_fold_drop: "deps (fold drop_source xs refs) t = filter (\<lambda>s. s \<notin> set xs) (deps refs t)"
  by (simp add: fold_drop_source deps_def find_map_values split: option.splits)

lemma fold_erase_absent: "\<forall>t \<in> set ts. \<not> sm_contains refs t \<Longrightarrow> fold sm_erase ts refs = refs"
  by (induction ts) (auto simp: sm_erase_absent sm_contains_def)

lemma still_referenced_deps: "still_referenced refs t \<longleftrightarrow> deps refs t \<noteq> []"
  by (simp add: still_referenced_def deps_def split: option.splits)

lemma removeXPathReference_eq:
  "removeXPathReference xpaths m =
     (if \<exists>t \<in> set xpaths. \<exists>s \<in> set (deps (candidate_references m) t). s \<notin> set xpaths then (Inr False, m)
      else (Inr True, m\<lparr>candidate_references := fold drop_source xpaths (candidate_references m)\<rparr>))"
proof -
  have "fold sm_erase (references_to_remove refs xpaths) refs = refs" for refs
    by (rule fold_erase_absent) (simp add: references_to_remove_def)
  then show ?thesis
    by (auto simp: removeXPathReference_def Let_def still_referenced_deps deps_fold_drop filter_empty_conv)
qed

text \<open>What saving may add: only pairs of a target and a source that both are nodes of the configuration.\<close>

definition grown :: "node \<Rightarrow> string list \<Rightarrow> adjacency \<Rightarrow> adjacency \<Rightarrow> bool" where
  "grown root ordered refs refs' \<longleftrightarrow>
     (\<forall>t. set (deps refs t) \<subseteq> set (deps refs' t) \<and>
       (\<forall>s \<in> set (deps refs' t) - set (deps refs t).
          s \<in> set ordered \<and> XPath_select ([], root) s \<noteq> None \<and> XPath_select ([], root) t \<noteq> None))"

lemma grown_refl: "grown root ordered refs refs"
  by (simp add: grown_def)

lemma grown_trans: "grown root ordered refs refs1 \<Longrightarrow> grown root ordered refs1 refs2 \<Longrightarrow> grown root ordered refs refs2"
  unfolding grown_def by (meson DiffD1 DiffD2 DiffI subset_eq)

lemma grown_add:
  "s \<in> set ordered \<Longrightarrow> XPath_select ([], root) s \<noteq> None \<Longrightarrow> XPath_select ([], root) t \<noteq> None \<Longrightarrow>
     grown root ordered refs (add_dep t s refs)"
  by (auto simp: grown_def deps_add_dep)

lemma save_references_grown:
  "save_references root xpath h rs refs = Inr refs' \<Longrightarrow> xpath \<in> set ordered \<Longrightarrow>
     XPath_select ([], root) xpath \<noteq> None \<Longrightarrow> grown root ordered refs refs'"
proof (induction root xpath h rs refs rule: save_references.induct)
  case (1 root xpath h refs)
  then show ?case by (simp add: grown_refl)
next
  case (2 root xpath h r rs refs)
  from 2(3) obtain ref where ref: "evaluate_reference h r = Inr ref" by (auto simp: rbind_eq_Inr)
  show ?case
  proof (cases "contains ref REFERENCE_TOKEN")
    case True
    let ?t = "replace_all REFERENCE_TOKEN (Name (snd h)) ref"
    have "grown root ordered refs (if XPath_select ([], root) ?t \<noteq> None then add_dep ?t xpath refs else refs)"
      using 2(4,5) by (simp add: grown_refl grown_add)
    with 2(1) [OF True refl] 2(3-5) ref True show ?thesis by (auto simp: Let_def intro: grown_trans)
  next
    case False
    with 2(2) [OF False] 2(3-5) ref show ?thesis by simp
  qed
qed

lemma save_all_references_grown:
  "save_all_references env m root xpaths refs = Inr refs' \<Longrightarrow> set xpaths \<subseteq> set ordered \<Longrightarrow>
     grown root ordered refs refs'"
proof (induction xpaths arbitrary: refs)
  case Nil
  then show ?case by (simp add: grown_refl)
next
  case (Cons xpath xpaths)
  then obtain s where s: "schema_of env m xpath = Inr s" by (auto simp: rbind_eq_Inr)
  show ?case
  proof (cases "s = None \<or> XPath_select ([], root) xpath = None")
    case True
    with s Cons show ?thesis by (auto split: option.splits)
  next
    case False
    then obtain n h where n: "s = Some n" and h: "XPath_select ([], root) xpath = Some h" by auto
    with s Cons.prems(1) obtain refs1 where one: "save_references root xpath h (FindAttr (snd n) REFERENCE) refs = Inr refs1"
      and rest: "save_all_references env m root xpaths refs1 = Inr refs'"
      by (auto simp: rbind_eq_Inr)
    have "grown root ordered refs refs1" using save_references_grown [OF one] Cons.prems(2) h by simp
    with Cons.IH [OF rest] Cons.prems(2) show ?thesis by (auto intro: grown_trans)
  qed
qed


subsection \<open>Properties\<close>

text \<open>C20 Nodes can be removed exactly when every reference to one of them comes from another of them. Then the removed
  nodes disappear from the sources of every target, and every target stays a key of the map, also without sources;
  a refused removal changes nothing.\<close>

theorem references_block_the_removal_of_their_targets:
  "removeXPathReference xpaths m =
     (if \<exists>t \<in> set xpaths. \<exists>s \<in> set (deps (candidate_references m) t). s \<notin> set xpaths then (Inr False, m)
      else (Inr True, m\<lparr>candidate_references :=
              map (\<lambda>(t, ss). (t, filter (\<lambda>s. s \<notin> set xpaths) ss)) (candidate_references m)\<rparr>))"
  by (simp add: removeXPathReference_eq fold_drop_source)

text \<open>C29 Saving references only adds to the map and changes nothing else, and what it adds joins two nodes of the
  configuration: the source is one of the ordered paths and selects a node, and so does the target.\<close>

theorem saved_references_join_existing_nodes:
  assumes "saveXPathReference env ordered root m = (Inr ok, m')"
  shows "ok \<and> grown root ordered (candidate_references m) (candidate_references m') \<and>
    m' = m\<lparr>candidate_references := candidate_references m'\<rparr>"
proof -
  from assms obtain refs where refs: "save_all_references env m root ordered (candidate_references m) = Inr refs"
    and m': "m' = m\<lparr>candidate_references := refs\<rparr>" and ok
    by (auto simp: saveXPathReference_def split: sum.splits)
  with save_all_references_grown [OF refs] show ?thesis by simp
qed

definition reference_schema :: json where
  "reference_schema = JObj [(''properties'', JObj
     [(''a'', JObj [(''reference'', JStr ''/names/@''), (''type'', JStr ''string'')]),
      (''names'', JObj [(''properties'', JObj [(''a'', JObj [(''type'', JStr ''string'')])]), (''type'', JStr ''object'')])])]"

definition reference_tree :: node where
  "reference_tree = Composite ''/'' [(''a'', Leaf ''a'' (Value_init STRING)),
     (''names'', Composite ''names'' [(''a'', Leaf ''a'' (Value_init STRING))])]"

definition offline_env :: env where
  "offline_env =
     \<lparr>env_regex = literal_regex, env_validate = (\<lambda>jschema j. True),
      env_send = (\<lambda>sent addr path body content_type. None), env_depth = 9, env_regex_search = (\<lambda>s r. Inr None)\<rparr>"

definition reference_manager :: manager where
  "reference_manager = (Manager_init None)\<lparr>json_schema := reference_schema\<rparr>"

theorem saved_references_join_existing_nodes_witness:
  "grown reference_tree [''/a''] [] [(''/names/a'', [''/a''])]"
proof -
  have "save_all_references offline_env reference_manager reference_tree [''/a''] [] = Inr [(''/names/a'', [''/a''])]"
    by code_simp
  then have "saveXPathReference offline_env [''/a''] reference_tree reference_manager =
      (Inr True, reference_manager\<lparr>candidate_references := [(''/names/a'', [''/a''])]\<rparr>)"
    by (simp add: saveXPathReference_def reference_manager_def Manager_init_def)
  from saved_references_join_existing_nodes [OF this] show ?thesis
    by (elim conjE) (simp add: reference_manager_def Manager_init_def)
qed

end
