(* ===== verification/Candidate.thy ===== *)
theory Candidate
  imports References
begin

section \<open>Making a candidate configuration\<close>

text \<open>
  \<open>fMakeCandidateConfigInternal\<close> of \<open>src/config.cpp\<close> applies a patch to a configuration tree: it checks
  and removes what the patch removes, tells the other servers, loads what the patch adds, checks it and
  tells the servers again. When it fails after messages were sent, it sends messages that undo them.

  The function works on variables and references that are a record here: \<open>jconfig\<close> is the document given,
  \<open>json_config\<close> the patched one, the two lists at the end are stacks, newest first. A phase is a step on the
  record that may raise, or leave the function with false; what it changed before stays changed. The
  document of the patch is parsed once.
\<close>

record build =
  node_config :: node
  json_config :: json
  jconfig :: json
  mngr :: manager
  config_to_remove :: node
  xpaths_to_remove :: "string list"
  path_nodes :: "string list"
  subnodes_xpath :: "string list"
  ordered_nodes :: "string list"
  removed_nodes :: "string list"
  added_nodes :: "string list"

type_synonym phase = "build \<Rightarrow> (bool, build) outcome"

definition and_then :: "phase \<Rightarrow> phase \<Rightarrow> phase" where
  "and_then p q b = sbind (p b) (\<lambda>ok b'. if ok then q b' else (Inr False, b'))"

definition succeed :: phase where
  "succeed b = (Inr True, b)"

definition fail :: phase where
  "fail b = (Inr False, b)"

definition of_result :: "'a result \<Rightarrow> ('a \<Rightarrow> phase) \<Rightarrow> phase" where
  "of_result r f b = (case r of Inl e \<Rightarrow> (Inl e, b) | Inr x \<Rightarrow> f x b)"

abbreviation OPERATION :: string where "OPERATION \<equiv> ''op''"
abbreviation PARAMETERS :: string where "PARAMETERS \<equiv> ''params''"
abbreviation PATH :: string where "PATH \<equiv> ''path''"
abbreviation VALUE :: string where "VALUE \<equiv> ''value''"
abbreviation OP_ADD :: json where "OP_ADD \<equiv> JStr ''add''"
abbreviation OP_REMOVE :: json where "OP_REMOVE \<equiv> JStr ''remove''"
abbreviation OP_REPLACE :: json where "OP_REPLACE \<equiv> JStr ''replace''"

subsection \<open>Changing a tree through a node found in it\<close>

definition path_of :: "handle \<Rightarrow> string list" where
  "path_of h = tl (rev (names h))"

definition has_parent :: "handle \<Rightarrow> bool" where
  "has_parent h \<longleftrightarrow> fst h \<noteq> []"

definition remove_at :: "handle \<Rightarrow> node \<Rightarrow> bool \<times> node" where
  "remove_at h root =
     (let p = butlast (path_of h) in
      (case walk p ([], root) of None \<Rightarrow> False | Some q \<Rightarrow> FindNode (Name (snd h)) (snd q) \<noteq> None,
       update_at p (\<lambda>t. snd (Composite_Remove (Name (snd h)) t)) root))"

definition add_at :: "handle \<Rightarrow> node \<Rightarrow> node \<Rightarrow> node" where
  "add_at h c root = update_at (path_of h) (\<lambda>t. if is_composite t then Composite_Add c t else t) root"

definition replace_at_handle :: "handle \<Rightarrow> node \<Rightarrow> node \<Rightarrow> node" where
  "replace_at_handle h n root = update_at (path_of h) (\<lambda>t. n) root"

subsection \<open>The visitors\<close>

definition SubnodesGetterVisitor_visit :: "string list visitor" where
  "SubnodesGetterVisitor_visit s h = (True, ss_insert (XPath_toString h) s)"

definition subnodes_xpaths :: "handle \<Rightarrow> string list" where
  "subnodes_xpaths h = accept SubnodesGetterVisitor_visit h []"

text \<open>
  \<open>NodesCollectorVisitor\<close> copies the wanted nodes into a new tree, under the node its parent's path selects
  there. The map it fills besides is not used.
\<close>

definition NodesCollectorVisitor_visit :: "string list \<Rightarrow> node visitor" where
  "NodesCollectorVisitor_visit wanted root h =
     (let xpath = XPath_toString h in
      if xpath = [] then (True, root)
      else if xpath \<notin> set wanted then (True, root)
      else
        let tokens = butlast (XPath_parse xpath) in
        case (if tokens = [] then Some ([], root) else XPath_select ([], root) (XPath_mergeTokens tokens)) of
          None \<Rightarrow> (False, root)
        | Some parent \<Rightarrow> (True, add_at parent (MakeCopy (snd h)) root))"

definition collect_nodes :: "string list \<Rightarrow> node \<Rightarrow> node" where
  "collect_nodes wanted config = accept (NodesCollectorVisitor_visit wanted) ([], config) (Composite ROOT_TOKEN [])"

text \<open>
  \<open>NodeCopyMakerVisitor\<close> copies the children of the root into a new root. Below, it replaces every node of
  the original tree by a copy of itself, which changes nothing but the identity of the nodes.
\<close>

definition NodeCopyMakerVisitor_visit :: "node visitor" where
  "NodeCopyMakerVisitor_visit root h =
     (if fst h = [] \<or> hd (fst h) = ROOT_TOKEN then (True, Composite_Add (MakeCopy (snd h)) root)
      else (True, root))"

definition copy_config :: "node \<Rightarrow> node" where
  "copy_config config = accept NodeCopyMakerVisitor_visit ([], config) (Composite ROOT_TOKEN [])"

subsection \<open>Items of a patch\<close>

text \<open>
  Every loop over the patch starts with the operation and the path of an item. Where an item has no
  value, the code looks it up in the document: the test asks for a member with the whole pointer as its
  name. The value is not used, but the lookup can raise and can extend the document.
\<close>

definition item_op :: "json \<Rightarrow> json result" where
  "item_op item = rbind (json_index item OPERATION) (\<lambda>(op, item'). Inr op)"

definition item_path :: "json \<Rightarrow> json result" where
  "item_path item = rbind (json_index item PATH) (\<lambda>(path, item'). Inr path)"

definition item_value :: "json \<Rightarrow> json \<Rightarrow> json result" where
  "item_value item jdoc =
     (if json_has item VALUE then Inr jdoc
      else rbind (item_path item) (\<lambda>path. rbind (json_get_string path) (\<lambda>p. rbind (pointer_parse p) (\<lambda>ptr.
             if json_contains_key (pointer_to_string ptr) jdoc
             then rbind (json_ref ptr jdoc) (\<lambda>(v, jdoc'). Inr jdoc')
             else Inr jdoc))))"

text \<open>The paths of the nodes above a node: from the root token on, one token more each time, but the last.\<close>

fun path_prefixes :: "string \<Rightarrow> string list \<Rightarrow> string list" where
  "path_prefixes xpath (t # u # ts) =
     (let x = (if last xpath \<noteq> SEPARATOR then xpath @ ''/'' else xpath) @ t in x # path_prefixes x (u # ts))"
| "path_prefixes xpath ts = []"

text \<open>Whether some item of the patch of the given kind has a path that is part of the path of a node.\<close>

fun marked_by :: "(json \<Rightarrow> bool) \<Rightarrow> json list \<Rightarrow> string \<Rightarrow> bool result" where
  "marked_by kind [] xpath = Inr False"
| "marked_by kind (item # items) xpath =
     rbind (item_op item) (\<lambda>op.
       if kind op
       then rbind (item_path item) (\<lambda>path. rbind (json_get_string path) (\<lambda>p.
              if contains xpath p then Inr True else marked_by kind items xpath))
       else marked_by kind items xpath)"

fun keep_marked :: "(json \<Rightarrow> bool) \<Rightarrow> json list \<Rightarrow> string list \<Rightarrow> string list result" where
  "keep_marked kind items [] = Inr []"
| "keep_marked kind items (xpath # xpaths) =
     rbind (marked_by kind items xpath) (\<lambda>m.
       rbind (keep_marked kind items xpaths) (\<lambda>kept. Inr (if m then xpath # kept else kept)))"


subsection \<open>Nodes found in a tree\<close>

text \<open>What \<open>select\<close> finds in a well-formed tree is where its chain of parents says.\<close>

lemma descendants_walk:
  "wf_node t \<Longrightarrow> h \<in> set (descendants anc t) \<Longrightarrow> \<exists>ks. walk ks (anc, t) = Some h"
  "sm_sorted cs \<Longrightarrow> \<forall>(k, c) \<in> set cs. k = Name c \<and> wf_node c \<Longrightarrow> h \<in> set (descendants_list anc cs) \<Longrightarrow>
     \<exists>k c ks. (k, c) \<in> set cs \<and> walk ks (anc, c) = Some h"
proof (induction anc t and anc cs rule: descendants_descendants_list.induct)
  case (2 anc n ch)
  then obtain k c ks where c: "(k, c) \<in> set ch" "walk ks (n # anc, c) = Some h" by auto
  with 2(2) have "sm_find ch k = Some c" by (simp add: sm_find_entry)
  with c have "walk (k # ks) (anc, Composite n ch) = Some h" by simp
  then show ?case by blast
next
  case (4 anc k c cs)
  then consider "h = (anc, c)" | "h \<in> set (descendants anc c)" | "h \<in> set (descendants_list anc cs)" by auto
  then show ?case
  proof cases
    case 1
    have "walk [] (anc, c) = Some h" using 1 by simp
    then show ?thesis by (meson list.set_intros(1))
  next
    case 2
    with 4(1,4) obtain ks where "walk ks (anc, c) = Some h" by auto
    then show ?thesis by (meson list.set_intros(1))
  next
    case 3
    from 4(3,4) have "sm_sorted cs" "\<forall>(k, c) \<in> set cs. k = Name c \<and> wf_node c" by simp_all
    from 4(2) [OF this 3] obtain k' c' ks where "(k', c') \<in> set cs" "walk ks (anc, c') = Some h" by blast
    then show ?thesis by (meson list.set_intros(2))
  qed
qed auto

lemma select_keys_below:
  fixes h h' :: handle
  shows "select_keys ks h = Some h' \<Longrightarrow> h' = h \<or> h' \<in> set (descendants (fst h) (snd h))"
proof (induction ks h rule: select_keys.induct)
  case (2 key keys h)
  have below: "h' \<in> set (descendants (fst h) (snd h))"
    if "h1 \<in> set (descendants (fst h) (snd h))" "h' = h1 \<or> h' \<in> set (descendants (fst h1) (snd h1))" for h1 :: handle
    using that descendants_trans(1) by blast
  show ?case
  proof (cases "key = ''value'' \<and> keys = []")
    case False
    show ?thesis
    proof (cases "bracket_split key")
      case None
      with False 2(3) obtain h1 where "find_node key h = Some h1" "select_keys keys h1 = Some h'"
        by (auto split: option.splits)
      with 2(1) [OF False None] below find_node_sound show ?thesis by blast
    next
      case (Some p)
      obtain l i where p: "p = (l, i)" by (cases p)
      with False Some 2(3) obtain h1 h2 where h: "find_node l h = Some h1" "find_node i h1 = Some h2"
        "select_keys keys h2 = Some h'"
        by (auto split: option.splits)
      with 2(2) [OF False Some p [symmetric] h(1,2)] have "h' = h2 \<or> h' \<in> set (descendants (fst h2) (snd h2))" by simp
      with find_node_sound [OF h(1)] find_node_sound [OF h(2)] descendants_trans(1) below show ?thesis by blast
    qed
  qed (use 2(3) in auto)
qed simp

lemma select_walk:
  assumes "wf_node t" and "XPath_select ([], t) xpath = Some h"
  shows "walk (path_of h) ([], t) = Some h"
proof -
  from assms(2) have "h = ([], t) \<or> h \<in> set (descendants [] t)"
    using select_keys_below [of "XPath_parse xpath" "([], t)" h] by (simp add: XPath_select_def split: if_splits)
  then obtain ks where ks: "walk ks ([], t) = Some h"
    using descendants_walk(1) [OF assms(1), of h "[]"] by (metis walk.simps(1))
  obtain anc c where h: "h = (anc, c)" by fastforce
  from walk_names [OF assms(1)] ks h have "Name c # anc = rev ks @ [Name t]" by blast
  then have "path_of h = ks" by (simp add: path_of_def names_def h)
  with ks show ?thesis by simp
qed

lemma update_at_const:
  assumes "wf_node n"
  shows "wf_node t \<Longrightarrow> walk ks (anc, t) = Some (anc', c) \<Longrightarrow> Name n = Name c \<Longrightarrow>
    wf_node (update_at ks (\<lambda>t. n) t) \<and> Name (update_at ks (\<lambda>t. n) t) = Name t"
proof (induction ks arbitrary: anc t)
  case Nil
  with assms show ?case by simp
next
  case (Cons k ks)
  then obtain m ch d where t: "t = Composite m ch" "sm_find ch k = Some d" "walk ks (m # anc, d) = Some (anc', c)"
    by (cases t) (auto split: option.splits)
  with wf_child [OF Cons.prems(1), of k d] have d: "Name d = k" "wf_node d" by auto
  from Cons.IH [OF d(2) t(3) Cons.prems(3)] Cons.prems(1) t d show ?case by (auto dest!: subsetD [OF set_sm_assign])
qed

lemma is_composite_update_at:
  "(\<And>t. is_composite (f t) = is_composite t) \<Longrightarrow> is_composite (update_at ks f t) = is_composite t"
  by (cases ks; cases t) (auto split: option.splits)

end
