(* ===== verification/Peg.thy ===== *)
theory Peg
  imports Std_String
begin

section \<open>The parsing engine\<close>

text \<open>
  The interpreter of parsing expression grammars the constraint checker runs
  (\<open>lib/external/peglib/peglib.h\<close>), as far as the grammar of the constraints uses it: the operators,
  references to rules and macros, semantic values and actions, the packrat cache, token boundaries
  with automatic skipping of whitespace, and the climbing of precedences.

  A position of the input is the text that is left; failure is \<open>None\<close> instead of \<open>-1\<close>. What an
  operator appends to the semantic values of its caller is threaded through as an argument. The
  argument \<open>d\<close> is the stack that is left: every nested call of \<open>Ope::parse\<close> takes one
  unit, and a run that needs more ends with \<open>StackOverflow\<close>, as does a loop that makes no progress.
  Word operators, cuts, captures, predicates, recovery and tracing are not used by the grammar and are left
  out, as are the positions and messages of errors, which are only logged.
\<close>

subsection \<open>Values, operators, rules\<close>

text \<open>
  The values of the actions (\<open>std::any\<close>) are the type parameter \<open>'v\<close>, \<open>'r\<close> are the names of the rules and
  \<open>'d\<close> the data of the user.
\<close>

record 'v semantic_values =
  sv :: string
  vals :: "'v list"
  toks :: "string list"

definition no_values :: "'v semantic_values" where
  "no_values = \<lparr>sv = [], vals = [], toks = []\<rparr>"

definition token :: "'v semantic_values \<Rightarrow> string" where
  "token vs = (case toks vs of [] \<Rightarrow> sv vs | t # _ \<Rightarrow> t)"

definition append_values :: "'v semantic_values \<Rightarrow> 'v semantic_values \<Rightarrow> 'v semantic_values" where
  "append_values vs chvs = \<lparr>sv = sv chvs, vals = vals vs @ vals chvs, toks = toks vs @ toks chvs\<rparr>"

definition push_value :: "'v \<Rightarrow> 'v semantic_values \<Rightarrow> 'v semantic_values" where
  "push_value v vs = vs\<lparr>vals := vals vs @ [v]\<rparr>"

definition push_token :: "string \<Rightarrow> 'v semantic_values \<Rightarrow> 'v semantic_values" where
  "push_token t vs = vs\<lparr>toks := toks vs @ [t]\<rparr>"

text \<open>\<open>vs[i]\<close>; an index out of range is undefined behaviour.\<close>

definition value_at :: "'v semantic_values \<Rightarrow> nat \<Rightarrow> 'v result" where
  "value_at vs i = (if i < length (vals vs) then Inr (vals vs ! i) else Inl NullDeref)"

text \<open>
  The operators. \<open>Parameter i\<close> is a reference to the \<open>i\<close>th parameter of the macro; the arguments of a
  reference are empty for a rule that is not a macro.
\<close>

type_synonym assoc = char

datatype 'r ope =
    Sequence "'r ope list"
  | PrioritizedChoice "'r ope list"
  | Repetition "'r ope" nat "nat option"
  | LiteralString string
  | Dictionary "string list"
  | CharacterClass "(int \<times> int) list" bool
  | TokenBoundary "'r ope"
  | Reference 'r "'r ope list"
  | Parameter nat
  | PrecedenceClimbing "'r ope" "'r ope" "(string \<times> nat \<times> assoc) list" 'r

record 'r peg_rule =
  core :: "'r ope"
  is_macro :: bool

type_synonym ('v, 'd) action = "'v semantic_values \<Rightarrow> 'd \<Rightarrow> ('v \<times> 'd) result"

record ('r, 'v, 'd) parser =
  rule_of :: "'r \<Rightarrow> 'r peg_rule"
  action_of :: "'r \<Rightarrow> ('v, 'd) action option"
  whitespaceOpe :: "'r ope option"
  packrat :: bool
  empty_any :: 'v

text \<open>
  What a run changes: the data of the actions, the cache (by the length of the text that is left and
  the rule), and the stack of the operator rules whose action a running precedence climbing has wrapped,
  with the token each wrapper saw last.
\<close>

type_synonym ('r, 'v) cache = "((nat \<times> 'r) \<times> (string \<times> 'v) option) list"

record ('r, 'v, 'd) peg_state =
  user :: 'd
  cached :: "('r, 'v) cache"
  wraps :: "('r \<times> string) list"

type_synonym ('r, 'v, 'd) parsed_values = "((string \<times> 'v semantic_values) option \<times> ('r, 'v, 'd) peg_state) result"

subsection \<open>Terminals\<close>

text \<open>\<open>decode_codepoint\<close>: the number of bytes, 0 when they are not the beginning of a code point.\<close>

fun continuation :: "string \<Rightarrow> int" where
  "continuation [] = 0"
| "continuation (c # _) = of_char c mod 64"

definition decode_codepoint :: "string \<Rightarrow> nat \<times> int" where
  "decode_codepoint s =
     (case s of
        [] \<Rightarrow> (0, 0)
      | a # s1 \<Rightarrow>
          (let b = of_char a in
           if b < 128 then (1, b)
           else let s2 = tl s1; s3 = tl s2 in
             if b div 32 = 6 \<and> s1 \<noteq> [] then (2, b mod 32 * 64 + continuation s1)
             else if b div 16 = 14 \<and> s1 \<noteq> [] \<and> s2 \<noteq> []
             then (3, (b mod 16 * 64 + continuation s1) * 64 + continuation s2)
             else if b div 8 = 30 \<and> s1 \<noteq> [] \<and> s2 \<noteq> [] \<and> s3 \<noteq> []
             then (4, ((b mod 8 * 64 + continuation s1) * 64 + continuation s2) * 64 + continuation s3)
             else (0, 0)))"

definition match_class :: "(int \<times> int) list \<Rightarrow> bool \<Rightarrow> string \<Rightarrow> string option" where
  "match_class ranges negated s =
     (if s = [] then None
      else let (len, cp) = decode_codepoint s in
           if (\<exists>(lo, hi) \<in> set ranges. lo \<le> cp \<and> cp \<le> hi) \<noteq> negated then Some (drop len s) else None)"

fun match_literal :: "string \<Rightarrow> string \<Rightarrow> string option" where
  "match_literal [] s = Some s"
| "match_literal (c # lit) (a # s) = (if a = c then match_literal lit s else None)"
| "match_literal (c # lit) [] = None"

text \<open>\<open>Trie::match\<close>: the longest item the text begins with; 0 when there is none.\<close>

definition trie_match :: "string list \<Rightarrow> string \<Rightarrow> nat" where
  "trie_match items s =
     fold (\<lambda>item len. if match_literal item s \<noteq> None then max len (length item) else len) items 0"

subsection \<open>Loops of the operators\<close>

text \<open>The loop of a sequence, over the parsers of its operators.\<close>

type_synonym ('r, 'v, 'd) step = "string \<Rightarrow> 'v semantic_values \<Rightarrow> ('r, 'v, 'd) peg_state \<Rightarrow> ('r, 'v, 'd) parsed_values"

fun run_all :: "('r ope \<Rightarrow> ('r, 'v, 'd) step) \<Rightarrow> 'r ope list \<Rightarrow> ('r, 'v, 'd) step" where
  "run_all p [] s vs c = Inr (Some (s, vs), c)"
| "run_all p (ope # opes) s vs c =
     rbind (p ope s vs c) (\<lambda>(r, c1). case r of None \<Rightarrow> Inr (None, c1) | Some (s1, vs1) \<Rightarrow> run_all p opes s1 vs1 c1)"

fun run_first :: "('r ope \<Rightarrow> ('r, 'v, 'd) step) \<Rightarrow> 'r ope list \<Rightarrow> ('r, 'v, 'd) step" where
  "run_first p [] s vs c = Inr (None, c)"
| "run_first p (ope # opes) s vs c =
     rbind (p ope s no_values c) (\<lambda>(r, c1). case r of
       None \<Rightarrow> run_first p opes s vs c1
     | Some (s1, chvs) \<Rightarrow> Inr (Some (s1, append_values vs chvs), c1))"

fun run_times :: "('r, 'v, 'd) step \<Rightarrow> nat \<Rightarrow> ('r, 'v, 'd) step" where
  "run_times p 0 s vs c = Inr (Some (s, vs), c)"
| "run_times p (Suc n) s vs c =
     rbind (p s no_values c) (\<lambda>(r, c1). case r of
       None \<Rightarrow> Inr (None, c1)
     | Some (s1, chvs) \<Rightarrow> run_times p n s1 (append_values vs chvs) c1)"

text \<open>
  The second loop of a repetition. Without a maximum an operator that succeeds
  on no text would be repeated for ever.
\<close>

function run_more :: "('r, 'v, 'd) step \<Rightarrow> nat option \<Rightarrow> ('r, 'v, 'd) step" where
  "run_more p mx s vs c =
     (if mx = Some 0 then Inr (Some (s, vs), c)
      else rbind (p s no_values c) (\<lambda>(r, c1). case r of
             None \<Rightarrow> Inr (Some (s, vs), c1)
           | Some (s1, chvs) \<Rightarrow>
               (case mx of
                  Some m \<Rightarrow> run_more p (Some (m - 1)) s1 (append_values vs chvs) c1
                | None \<Rightarrow>
                    if length s1 < length s then run_more p None s1 (append_values vs chvs) c1
                    else Inl StackOverflow)))"
  by pat_completeness auto

termination
  by (relation "measure (\<lambda>(p, mx, s, vs, c). case mx of Some m \<Rightarrow> m | None \<Rightarrow> length s)") auto

declare run_more.simps [simp del]

subsection \<open>References\<close>

text \<open>
  \<open>FindReference\<close>: the arguments of a macro with the parameters of the calling macro replaced.
\<close>

fun find_reference :: "'r ope list \<Rightarrow> 'r ope \<Rightarrow> 'r ope" where
  "find_reference args (Sequence opes) = Sequence (map (find_reference args) opes)"
| "find_reference args (PrioritizedChoice opes) = PrioritizedChoice (map (find_reference args) opes)"
| "find_reference args (Repetition ope mn mx) = Repetition (find_reference args ope) mn mx"
| "find_reference args (TokenBoundary ope) = TokenBoundary (find_reference args ope)"
| "find_reference args (Parameter i) = (if i < length args then args ! i else Parameter i)"
| "find_reference args (PrecedenceClimbing atom binop info r) = find_reference args atom"
| "find_reference args ope = ope"

text \<open>\<open>get_reference_for_binop\<close>; a cast that fails raises \<open>std::bad_cast\<close>.\<close>

definition binop_rule :: "'r ope list \<Rightarrow> 'r ope \<Rightarrow> 'r result" where
  "binop_rule args binop =
     (case (case binop of Parameter i \<Rightarrow> if i < length args then args ! i else binop | _ \<Rightarrow> binop) of
        Reference r _ \<Rightarrow> Inr r
      | _ \<Rightarrow> Inl (RuntimeError ''std::bad_cast''))"

subsection \<open>Rules and their actions\<close>

text \<open>
  \<open>Holder::reduce\<close>: the value of a rule is what its action returns, or its first value. A wrapped action
  first stores the token in the wrappers of its rule.
\<close>

definition call_action :: "('r, 'v, 'd) parser \<Rightarrow> 'r \<Rightarrow> 'v semantic_values \<Rightarrow> ('r, 'v, 'd) peg_state \<Rightarrow>
    ('v \<times> ('r, 'v, 'd) peg_state) result" where
  "call_action P r vs c =
     (case action_of P r of
        Some act \<Rightarrow> rbind (act vs (user c)) (\<lambda>(v, dt). Inr (v, c\<lparr>user := dt\<rparr>))
      | None \<Rightarrow> Inr (case vals vs of [] \<Rightarrow> empty_any P | v # _ \<Rightarrow> v, c))"

definition see_token :: "'r \<Rightarrow> string \<Rightarrow> ('r \<times> string) list \<Rightarrow> ('r \<times> string) list" where
  "see_token r t = map (\<lambda>(r', t'). (r', if r' = r then t else t'))"

definition reduce :: "('r, 'v, 'd) parser \<Rightarrow> 'r \<Rightarrow> 'v semantic_values \<Rightarrow> ('r, 'v, 'd) peg_state \<Rightarrow>
    ('v \<times> ('r, 'v, 'd) peg_state) result" where
  "reduce P r vs c = call_action P r vs (c\<lparr>wraps := see_token r (token vs) (wraps c)\<rparr>)"

text \<open>\<open>Context::packrat\<close>, around the parser of the rule with its action.\<close>

definition remember :: "('r, 'v, 'd) parser \<Rightarrow> nat \<times> 'r \<Rightarrow> (string \<times> 'v) option \<Rightarrow>
    ('r, 'v, 'd) peg_state \<Rightarrow> ('r, 'v, 'd) peg_state" where
  "remember P k x c = (if packrat P then c\<lparr>cached := (k, x) # cached c\<rparr> else c)"

definition parse_uncached :: "('r, 'v, 'd) parser \<Rightarrow> 'r \<Rightarrow> ('r, 'v, 'd) step \<Rightarrow> ('r, 'v, 'd) step" where
  "parse_uncached P r body s vs c =
     rbind (body s no_values c) (\<lambda>(res, c1). case res of
       None \<Rightarrow> Inr (None, remember P (length s, r) None c1)
     | Some (s1, chvs) \<Rightarrow>
         rbind (reduce P r (chvs\<lparr>sv := take (length s - length s1) s\<rparr>) c1) (\<lambda>(v, c2).
           Inr (Some (s1, push_value v vs), remember P (length s, r) (Some (s1, v)) c2)))"

definition parse_holder :: "('r, 'v, 'd) parser \<Rightarrow> 'r \<Rightarrow> ('r, 'v, 'd) step \<Rightarrow> ('r, 'v, 'd) step" where
  "parse_holder P r body s vs c =
     (case (if packrat P then map_of (cached c) (length s, r) else None) of
        Some None \<Rightarrow> Inr (None, c)
      | Some (Some (s1, v)) \<Rightarrow> Inr (Some (s1, push_value v vs), c)
      | None \<Rightarrow> parse_uncached P r body s vs c)"

subsection \<open>Climbing precedences\<close>

text \<open>
  The precedence the expression after an operator must have; \<open>None\<close> when the operator is not in the table, or
  binds weaker than the frame.
\<close>

definition next_min_prec :: "(string \<times> nat \<times> assoc) list \<Rightarrow> nat \<Rightarrow> string \<Rightarrow> nat option" where
  "next_min_prec info min_prec tok =
     (case map_of info tok of
        None \<Rightarrow> None
      | Some (level, assoc) \<Rightarrow>
          if level < min_prec then None else Some (if assoc = CHR ''L'' then level + 1 else level))"

text \<open>
  The expression after an operator, parsed by \<open>pexp\<close>, and the action of the macro, with the values on both sides
  of the operator. \<open>start\<close> is the text the whole expression began with.
\<close>

definition climb_right :: "('r, 'v, 'd) parser \<Rightarrow> 'r \<Rightarrow> ('r, 'v, 'd) step \<Rightarrow> string \<Rightarrow> ('r, 'v, 'd) step" where
  "climb_right P rule pexp start s vs c =
     rbind (pexp s no_values c) (\<lambda>(r, c1). case r of
       None \<Rightarrow> Inr (None, c1)
     | Some (s1, chvs) \<Rightarrow>
         rbind (value_at chvs 0) (\<lambda>arg2.
           let vs1 = (push_value arg2 vs)\<lparr>sv := take (length start - length s1) start\<rparr> in
           rbind (call_action P rule vs1 c1) (\<lambda>(v, c2). Inr (Some (s1, vs1\<lparr>vals := [v]\<rparr>), c2))))"

text \<open>The loop of \<open>parse_expression\<close>; \<open>pop\<close> parses an operator.\<close>

function climb_operators :: "('r, 'v, 'd) parser \<Rightarrow> 'r \<Rightarrow> (string \<times> nat \<times> assoc) list \<Rightarrow> ('r, 'v, 'd) step \<Rightarrow>
    (nat \<Rightarrow> ('r, 'v, 'd) step) \<Rightarrow> nat \<Rightarrow> string \<Rightarrow> ('r, 'v, 'd) step" where
  "climb_operators P rule info pop pexp min_prec start s vs c =
     (if s = [] then Inr (Some (s, vs), c)
      else rbind (pop s no_values c) (\<lambda>(r, c1). case r of
        None \<Rightarrow> Inr (Some (s, vs), c1)
      | Some (s1, chvs) \<Rightarrow>
          (case next_min_prec info min_prec (snd (hd (wraps c1))) of
             None \<Rightarrow> Inr (Some (s, vs), c1)
           | Some prec \<Rightarrow>
               rbind (value_at chvs 0) (\<lambda>op.
                 rbind (climb_right P rule (pexp prec) start s1 (push_value op vs) c1) (\<lambda>(r2, c2). case r2 of
                   None \<Rightarrow> Inr (None, c2)
                 | Some (s2, vs2) \<Rightarrow>
                     if length s2 < length s then climb_operators P rule info pop pexp min_prec start s2 vs2 c2
                     else Inl StackOverflow)))))"
  by pat_completeness auto

termination
  by (relation "measure (\<lambda>(P, rule, info, pop, pexp, min_prec, start, s, vs, c). length s)") auto

declare climb_operators.simps [simp del]

text \<open>
  The frame of \<open>parse_expression\<close>: the atom, then the loop with the action of the operator rule wrapped,
  until the frame is left.
\<close>

definition climb_frame :: "('r, 'v, 'd) parser \<Rightarrow> 'r \<Rightarrow> 'r result \<Rightarrow> (string \<times> nat \<times> assoc) list \<Rightarrow> ('r, 'v, 'd) step \<Rightarrow> ('r, 'v, 'd) step \<Rightarrow>
    (nat \<Rightarrow> ('r, 'v, 'd) step) \<Rightarrow> nat \<Rightarrow> ('r, 'v, 'd) step" where
  "climb_frame P rule op_rule info patom pop pexp min_prec s vs c =
     rbind (patom s vs c) (\<lambda>(r, c1). case r of
       None \<Rightarrow> Inr (None, c1)
     | Some (s1, vs1) \<Rightarrow>
         rbind op_rule (\<lambda>r_op.
           rbind (climb_operators P rule info pop pexp min_prec s s1 vs1 (c1\<lparr>wraps := (r_op, []) # wraps c1\<rparr>)) (\<lambda>(r2, c2).
             Inr (r2, c2\<lparr>wraps := tl (wraps c2)\<rparr>))))"

text \<open>\<open>parse_expression\<close>: the expression after an operator is a nested frame.\<close>

fun parse_expression :: "nat \<Rightarrow> ('r, 'v, 'd) parser \<Rightarrow> 'r \<Rightarrow> 'r result \<Rightarrow> (string \<times> nat \<times> assoc) list \<Rightarrow>
    ('r, 'v, 'd) step \<Rightarrow> ('r, 'v, 'd) step \<Rightarrow> nat \<Rightarrow> ('r, 'v, 'd) step" where
  "parse_expression 0 P rule op_rule info patom pop min_prec s vs c = Inl StackOverflow"
| "parse_expression (Suc k) P rule op_rule info patom pop min_prec s vs c =
     climb_frame P rule op_rule info patom pop (parse_expression k P rule op_rule info patom pop) min_prec s vs c"

subsection \<open>The operators\<close>

text \<open>
  \<open>tb\<close> counts the token boundaries around the operator, \<open>ws\<close> says that whitespace is being skipped,
  \<open>args\<close> are the arguments of the macro being parsed.
\<close>

definition skip_whitespace :: "('r, 'v, 'd) parser \<Rightarrow> ('r ope \<Rightarrow> ('r, 'v, 'd) step) \<Rightarrow> nat \<Rightarrow> bool \<Rightarrow> ('r, 'v, 'd) step" where
  "skip_whitespace P p tb ws s vs c =
     (case whitespaceOpe P of
        Some ope \<Rightarrow> if tb = 0 \<and> \<not> ws then p ope s vs c else Inr (Some (s, vs), c)
      | None \<Rightarrow> Inr (Some (s, vs), c))"

fun parse :: "nat \<Rightarrow> ('r, 'v, 'd) parser \<Rightarrow> 'r ope list \<Rightarrow> nat \<Rightarrow> bool \<Rightarrow> 'r ope \<Rightarrow> ('r, 'v, 'd) step" where
  "parse 0 P args tb ws ope s vs c = Inl StackOverflow"
| "parse (Suc d) P args tb ws (Sequence opes) s vs c =
     rbind (run_all (parse d P args tb ws) opes s no_values c) (\<lambda>(r, c1).
       Inr (map_option (\<lambda>(s1, chvs). (s1, append_values vs chvs)) r, c1))"
| "parse (Suc d) P args tb ws (PrioritizedChoice opes) s vs c = run_first (parse d P args tb ws) opes s vs c"
| "parse (Suc d) P args tb ws (Repetition ope mn mx) s vs c =
     rbind (run_times (parse d P args tb ws ope) mn s vs c) (\<lambda>(r, c1). case r of
       None \<Rightarrow> Inr (None, c1)
     | Some (s1, vs1) \<Rightarrow> run_more (parse d P args tb ws ope) (map_option (\<lambda>m. m - mn) mx) s1 vs1 c1)"
| "parse (Suc d) P args tb ws (LiteralString lit) s vs c =
     (case match_literal lit s of
        None \<Rightarrow> Inr (None, c)
      | Some s1 \<Rightarrow> skip_whitespace P (parse d P args tb True) tb ws s1 vs c)"
| "parse (Suc d) P args tb ws (Dictionary items) s vs c =
     (let i = trie_match items s in
      if i = 0 then Inr (None, c)
      else skip_whitespace P (parse d P args tb True) tb ws (drop i s) vs c)"
| "parse (Suc d) P args tb ws (CharacterClass ranges negated) s vs c =
     Inr (map_option (\<lambda>s1. (s1, vs)) (match_class ranges negated s), c)"
| "parse (Suc d) P args tb ws (TokenBoundary ope) s vs c =
     rbind (parse d P args (Suc tb) ws ope s vs c) (\<lambda>(r, c1). case r of
       None \<Rightarrow> Inr (None, c1)
     | Some (s1, vs1) \<Rightarrow>
         skip_whitespace P (parse d P args tb True) tb ws s1 (push_token (take (length s - length s1) s) vs1) c1)"
| "parse (Suc d) P args tb ws (Reference r as) s vs c =
     (if is_macro (rule_of P r)
      then parse d P (map (find_reference args) as) tb ws (core (rule_of P r)) s vs c
      else parse_holder P r (parse d P [] tb ws (core (rule_of P r))) s vs c)"
| "parse (Suc d) P args tb ws (Parameter i) s vs c =
     (if i < length args then parse d P args tb ws (args ! i) s vs c else Inl NullDeref)"
| "parse (Suc d) P args tb ws (PrecedenceClimbing atom binop info rule) s vs c =
     parse_expression d P rule (binop_rule args binop) info (parse d P args tb ws atom) (parse d P args tb ws binop)
       0 s vs c"

text \<open>
  \<open>Definition::parse_core\<close>: whitespace, then the start rule; the answer is whether the whole text was used.
\<close>

definition run_parser :: "nat \<Rightarrow> ('r, 'v, 'd) parser \<Rightarrow> 'r \<Rightarrow> string \<Rightarrow> ('r, 'v, 'd) peg_state \<Rightarrow>
    (bool \<times> ('r, 'v, 'd) peg_state) result" where
  "run_parser d P start s c =
     rbind (skip_whitespace P (parse d P [] 0 True) 0 False s no_values c) (\<lambda>(r, c1). case r of
       None \<Rightarrow> Inr (False, c1)
     | Some (s1, vs) \<Rightarrow>
         rbind (parse d P [] 0 False (Reference start []) s1 vs c1) (\<lambda>(r1, c2).
           Inr (case r1 of None \<Rightarrow> False | Some (s2, vs2) \<Rightarrow> s2 = [], c2)))"

definition parse_core :: "nat \<Rightarrow> ('r, 'v, 'd) parser \<Rightarrow> 'r \<Rightarrow> string \<Rightarrow> 'd \<Rightarrow> (bool \<times> 'd) result" where
  "parse_core d P start s dt =
     rbind (run_parser d P start s \<lparr>user = dt, cached = [], wraps = []\<rparr>) (\<lambda>(ok, c). Inr (ok, user c))"

end
