(* ===== verification/Constraint_Actions.thy ===== *)
theory Constraint_Actions
  imports Peg XPaths Schema
begin

section \<open>The actions of constraint expressions\<close>

text \<open>
  The semantic actions of \<open>constraint_checking.cpp\<close>: what the checker does when a rule of the
  grammar of constraints has been parsed. They read the configuration and change two flags of
  the argument that all of them share.
\<close>

subsection \<open>The argument and the frame of an action\<close>

text \<open>
  \<open>ConfigMngr\<close> is used for the schema of a path only. Regular expressions are the parameters
  \<open>Match\<close> (\<open>std::regex_match\<close>) and \<open>Search\<close> (\<open>std::regex_search\<close> with the first match).
\<close>

record Argument =
  ConfigMngr :: "string \<Rightarrow> schema_node option result"
  Match :: regex
  Search :: "string \<Rightarrow> string \<Rightarrow> string option result"
  RootNodeConfig :: node
  CurrentProcessingNode :: handle
  ContinueProcessing :: bool
  ExpressionResult :: bool

text \<open>\<open>std::any\<close>: the types the actions of the program put in it.\<close>

datatype any =
    AEmpty
  | ABool bool
  | AInt "64 word"
  | ANumber number
  | AString string
  | AList "string list"

type_synonym handler = "any semantic_values \<Rightarrow> Argument \<Rightarrow> (any \<times> Argument) result"

abbreviation root_handle :: "Argument \<Rightarrow> handle" where
  "root_handle a \<equiv> ([], RootNodeConfig a)"

abbreviation exists_node :: "Argument \<Rightarrow> string \<Rightarrow> bool" where
  "exists_node a xpath \<equiv> XPath_select (root_handle a) xpath \<noteq> None"

text \<open>
  \<open>ACTION_PROLOG\<close> and \<open>ACTION_EPILOG\<close>: an action returns the default of its type when an earlier one
  has stopped the processing or a cast fails. \<open>STOP_PROCESSING\<close> sets the
  flag of a copy of the argument, so it has no effect but the return.
\<close>

definition acting :: "any \<Rightarrow> handler \<Rightarrow> handler" where
  "acting nothing body vs a =
     (if \<not> ContinueProcessing a then Inr (nothing, a)
      else case body vs a of
             Inl e \<Rightarrow> if e = BadAnyCast then Inr (nothing, a\<lparr>ExpressionResult := False\<rparr>) else Inl e
           | Inr r \<Rightarrow> Inr r)"

definition failing :: "any \<Rightarrow> Argument \<Rightarrow> (any \<times> Argument) result" where
  "failing nothing a = Inr (nothing, a\<lparr>ExpressionResult := False\<rparr>)"

definition as_bool :: "any \<Rightarrow> bool result" where
  "as_bool v = (case v of ABool b \<Rightarrow> Inr b | _ \<Rightarrow> Inl BadAnyCast)"

definition as_int :: "any \<Rightarrow> 64 word result" where
  "as_int v = (case v of AInt i \<Rightarrow> Inr i | _ \<Rightarrow> Inl BadAnyCast)"

definition as_string :: "any \<Rightarrow> string result" where
  "as_string v = (case v of AString t \<Rightarrow> Inr t | _ \<Rightarrow> Inl BadAnyCast)"

definition as_list :: "any \<Rightarrow> string list result" where
  "as_list v = (case v of AList l \<Rightarrow> Inr l | _ \<Rightarrow> Inl BadAnyCast)"

definition arg :: "(any \<Rightarrow> 'a result) \<Rightarrow> any semantic_values \<Rightarrow> nat \<Rightarrow> 'a result" where
  "arg cast vs i = rbind (value_at vs i) cast"

subsection \<open>Literals\<close>

definition BooleanHandle :: handler where
  "BooleanHandle = acting (ABool False) (\<lambda>vs a.
     if contains (token vs) ''true'' then Inr (ABool True, a)
     else if contains (token vs) ''false'' then Inr (ABool False, a)
     else failing (ABool False) a)"

text \<open>\<open>token_to_number\<close>: \<open>std::from_chars\<close> leaves the 0 when the number does not fit.\<close>

definition integer_of :: "string \<Rightarrow> int" where
  "integer_of s = foldl (\<lambda>n c. 10 * n + (of_char c - 48)) 0 s"

definition token_to_number :: "string \<Rightarrow> 64 word" where
  "token_to_number t =
     (let n = (case t of [] \<Rightarrow> 0 | c # s \<Rightarrow> if c = CHR ''-'' then - integer_of s else integer_of t) in
      if - (2 ^ 63) \<le> n \<and> n < 2 ^ 63 then word_of_int n else 0)"

definition NumberHandle :: handler where
  "NumberHandle = acting (AInt 0) (\<lambda>vs a. Inr (AInt (token_to_number (token vs)), a))"

definition RelativeOperatorHandle :: handler where
  "RelativeOperatorHandle = acting (AString []) (\<lambda>vs a. Inr (AString (Trim (token vs)), a))"

definition StringHandle :: handler where
  "StringHandle = acting (AString []) (\<lambda>vs a. Inr (AString (Trim (token vs)), a))"

text \<open>The references of the schema node, the first that selects a node of the configuration.\<close>

fun first_reference :: "Argument \<Rightarrow> string list \<Rightarrow> string result" where
  "first_reference a [] = Inr []"
| "first_reference a (ref # refs) =
     (let node_name = Name (snd (CurrentProcessingNode a));
          ref' = (if contains ref ''/@'' \<and> last ref = CHR ''@'' then replace_all ''/@'' (''/'' @ node_name) ref else ref) in
      rbind (XPath_evaluateXPath (CurrentProcessingNode a) ref') (\<lambda>evaluated_ref.
        if exists_node a evaluated_ref then Inr evaluated_ref else first_reference a refs))"

definition ReferenceHandle :: handler where
  "ReferenceHandle = acting (AString []) (\<lambda>vs a.
     if token vs \<noteq> REFERENCE_TOKEN then failing (AString []) a
     else rbind (ConfigMngr a (XPath_toString (CurrentProcessingNode a))) (\<lambda>schema_node.
       case schema_node of
         None \<Rightarrow> Inr (AString [], a)
       | Some n \<Rightarrow> rbind (first_reference a (FindAttr (snd n) REFERENCE)) (\<lambda>ref. Inr (AString ref, a))))"

subsection \<open>Counting, comparing, deciding\<close>

definition CountHandle :: handler where
  "CountHandle = acting (AInt 0) (\<lambda>vs a.
     rbind (arg as_list vs 0) (\<lambda>xpaths. Inr (AInt (of_nat (length (filter (exists_node a) xpaths))), a)))"

definition ExistsHandle :: handler where
  "ExistsHandle = acting (ABool False) (\<lambda>vs a.
     rbind (arg as_list vs 0) (\<lambda>xpaths. Inr (ABool (list_ex (exists_node a) xpaths), a)))"

text \<open>The two relative operators; \<open>None\<close> is an operator that is not recognized.\<close>

definition relate :: "string \<Rightarrow> bool \<Rightarrow> bool option" where
  "relate op equal = (if op = ''=='' then Some equal else if op = ''<>'' then Some (\<not> equal) else None)"

definition infix_result :: "(any \<Rightarrow> 'a result) \<Rightarrow> any semantic_values \<Rightarrow> 'a \<Rightarrow> bool \<Rightarrow> bool option result" where
  "infix_result cast vs arg1 alone =
     (if 1 < length (vals vs)
      then rbind (arg as_string vs 1) (\<lambda>op. rbind (arg cast vs 2) (\<lambda>arg2. Inr (relate op (arg1 = arg2))))
      else Inr (Some alone))"

definition InfixExpressionHandle :: handler where
  "InfixExpressionHandle = acting (ABool False) (\<lambda>vs a.
     rbind (value_at vs 0) (\<lambda>v.
     rbind (case v of
              ABool arg1 \<Rightarrow> infix_result as_bool vs arg1 arg1
            | AString arg1 \<Rightarrow> infix_result as_string vs arg1 (arg1 \<noteq> [])
            | AInt arg1 \<Rightarrow> infix_result as_int vs arg1 (arg1 \<noteq> 0)
            | _ \<Rightarrow> Inr None) (\<lambda>r.
       case r of
         None \<Rightarrow> failing (ABool False) a
       | Some result \<Rightarrow> Inr (ABool result, a\<lparr>ContinueProcessing := result\<rparr>))))"

definition MustHandle :: handler where
  "MustHandle vs a =
     (if \<not> ContinueProcessing a then Inr (ABool (ExpressionResult a), a)
      else case arg as_bool vs 0 of
             Inr b \<Rightarrow> Inr (ABool b, a\<lparr>ExpressionResult := b\<rparr>)
           | Inl e \<Rightarrow>
               if e = BadAnyCast
               then Inr (ABool False, a\<lparr>ContinueProcessing := False, ExpressionResult := False\<rparr>)
               else Inl e)"

definition ThenStatementHandle :: handler where
  "ThenStatementHandle vs a =
     Inr (AEmpty, if ContinueProcessing a then a else a\<lparr>ExpressionResult := True\<rparr>)"

subsection \<open>Paths\<close>

definition XPathHandle :: handler where
  "XPathHandle = acting (AList []) (\<lambda>vs a.
     rbind (arg as_string vs 0) (\<lambda>xpath.
       if xpath = [] then Inr (AList [], a)
       else rbind (XPath_evaluateXPath (CurrentProcessingNode a) xpath) (\<lambda>resolved_xpath.
         Inr (AList (if exists_node a resolved_xpath then [resolved_xpath] else []), a))))"

text \<open>
  The tokens of a path with \<open>[@key]\<close> replaced by what \<open>f\<close> makes of the token of the current node at the same
  position.
\<close>

fun rebuild :: "(string \<Rightarrow> string \<Rightarrow> string result) \<Rightarrow> string list \<Rightarrow> string list \<Rightarrow> string result" where
  "rebuild f [] resolved = Inr []"
| "rebuild f (t # ts) resolved =
     rbind (if t = ITEM_NAME_SUBSCRIPT \<and> resolved \<noteq> [] then f t (hd resolved) else Inr t) (\<lambda>t'.
       rbind (rebuild f ts (tl resolved)) (\<lambda>xpath. Inr (''/'' @ t' @ xpath)))"

definition rebuild_xpath :: "(string \<Rightarrow> string \<Rightarrow> string result) \<Rightarrow> Argument \<Rightarrow> string \<Rightarrow> string result" where
  "rebuild_xpath f a xpath =
     rebuild f (XPath_parse (replace_all ITEM_NAME_SUBSCRIPT (''/'' @ ITEM_NAME_SUBSCRIPT) xpath))
       (XPath_parse (XPath_toString (CurrentProcessingNode a)))"

text \<open>The value of a leaf; \<open>None\<close> is a type that is not supported.\<close>

definition leaf_value :: "value \<Rightarrow> any option result" where
  "leaf_value v =
     (if is_bool v then rbind (get_bool v) (\<lambda>b. Inr (Some (ABool b)))
      else if is_number v then rbind (get_number v) (\<lambda>n. Inr (Some (ANumber n)))
      else if is_string v then rbind (get_string v) (\<lambda>t. Inr (Some (AString t)))
      else Inr None)"

definition XPathValueHandle :: handler where
  "XPathValueHandle = acting AEmpty (\<lambda>vs a.
     rbind (arg as_string vs 0) (\<lambda>xpath.
       if xpath = [] then Inr (AEmpty, a)
       else rbind (rebuild_xpath (\<lambda>t current. Inr current) a xpath) (\<lambda>rebuilt.
         case XPath_select (root_handle a) rebuilt of
           None \<Rightarrow> Inr (AEmpty, a)
         | Some h \<Rightarrow>
             (case getValue (snd h) of
                None \<Rightarrow> failing AEmpty a
              | Some v \<Rightarrow> rbind (leaf_value v) (\<lambda>r. case r of None \<Rightarrow> failing AEmpty a | Some x \<Rightarrow> Inr (x, a))))))"

text \<open>The part of a path before the first wildcard.\<close>

definition wildcard_pos :: "string \<Rightarrow> nat option" where
  "wildcard_pos xpath = str_find xpath ''/*'' 0"

text \<open>
  \<open>xpath_match_regex(p, q, r)\<close>: of the paths \<open>q\<close> stands for, those that contain the path of the
  node at \<open>p\<close>, match \<open>r\<close> and select a node.
\<close>

definition match_candidates :: "Argument \<Rightarrow> string \<Rightarrow> string list result" where
  "match_candidates a xpath =
     (case wildcard_pos xpath of
        None \<Rightarrow> Inr [xpath]
      | Some pos \<Rightarrow>
          rbind (XPath_evaluateXPath (CurrentProcessingNode a) (take pos xpath)) (\<lambda>resolved_xpath.
            Inr (case XPath_select (root_handle a) resolved_xpath of None \<Rightarrow> [] | Some h \<Rightarrow> childs_only h)))"

fun keep_matching :: "Argument \<Rightarrow> string \<Rightarrow> string list \<Rightarrow> string list result" where
  "keep_matching a regex_expression [] = Inr []"
| "keep_matching a regex_expression (x # xs) =
     rbind (Match a x regex_expression) (\<lambda>m.
       rbind (keep_matching a regex_expression xs) (\<lambda>result.
         Inr (if m \<and> exists_node a x then x # result else result)))"

definition XPathMatchRegexHandle :: handler where
  "XPathMatchRegexHandle = acting (AList []) (\<lambda>vs a.
     if length (vals vs) < 3 then failing (AList []) a
     else rbind (arg as_string vs 2) (\<lambda>regex_expression.
       if regex_expression = [] then Inr (AList [], a)
       else rbind (arg as_string vs 1) (\<lambda>xpath1.
         if xpath1 = [] then Inr (AList [], a)
         else rbind (match_candidates a xpath1) (\<lambda>xpath_subnodes.
           rbind (arg as_string vs 0) (\<lambda>xpath0.
             if xpath0 = [] then Inr (AList [], a)
             else rbind (XPath_evaluateXPath (CurrentProcessingNode a) xpath0) (\<lambda>resolved_xpath.
               case XPath_select (root_handle a) resolved_xpath of
                 None \<Rightarrow> Inr (AList [], a)
               | Some h \<Rightarrow>
                   rbind (keep_matching a regex_expression
                       (rev (filter (\<lambda>x. contains x (XPath_toString h)) xpath_subnodes))) (\<lambda>result.
                     Inr (AList result, a))))))))"

text \<open>
  \<open>xpath_any\<close> and \<open>xpath_all\<close>: the wildcard stands for the children of the node before it. \<open>xpath_any\<close>
  stops at the first path that selects a node. A path without a wildcard has no candidates.
\<close>

definition replace_reference_mark :: "Argument \<Rightarrow> string \<Rightarrow> string" where
  "replace_reference_mark a xpath =
     (if last xpath = CHR ''@'' then take (length xpath - 1) xpath @ Name (snd (CurrentProcessingNode a)) else xpath)"

fun expand_wildcard :: "bool \<Rightarrow> Argument \<Rightarrow> string \<Rightarrow> nat \<Rightarrow> string list \<Rightarrow> string list result" where
  "expand_wildcard only_one a xpath pos [] = Inr []"
| "expand_wildcard only_one a xpath pos (x # xs) =
     rbind (substr xpath (pos + 3) None) (\<lambda>tail.
       let resolved = x @ ''/'' @ tail in
       if exists_node a resolved
       then if only_one then Inr [resolved]
            else rbind (expand_wildcard only_one a xpath pos xs) (\<lambda>result. Inr (resolved # result))
       else expand_wildcard only_one a xpath pos xs)"

definition wildcard_handle :: "bool \<Rightarrow> handler" where
  "wildcard_handle only_one = acting (AList []) (\<lambda>vs a.
     rbind (arg as_string vs 0) (\<lambda>xpath0.
       if xpath0 = [] then Inr (AList [], a)
       else let xpath = replace_reference_mark a xpath0 in
         case wildcard_pos xpath of
           None \<Rightarrow> Inr (AList [], a)
         | Some pos \<Rightarrow>
             (case XPath_select (root_handle a) (take pos xpath) of
                None \<Rightarrow> Inr (AList [], a)
              | Some h \<Rightarrow> rbind (expand_wildcard only_one a xpath pos (childs_only h)) (\<lambda>result. Inr (AList result, a)))))"

definition XPathAnyHandle :: handler where
  "XPathAnyHandle = wildcard_handle True"

definition XPathAllHandle :: handler where
  "XPathAllHandle = wildcard_handle False"

definition XPathKeyBasedHandle :: handler where
  "XPathKeyBasedHandle = acting (AList []) (\<lambda>vs a.
     if length (vals vs) < 2 then failing (AList []) a
     else rbind (arg as_string vs 1) (\<lambda>xpath_key_reference.
       if xpath_key_reference = [] then Inr (AList [], a)
       else rbind (arg as_string vs 0) (\<lambda>xpath.
         if xpath = [] then Inr (AList [], a)
         else rbind (XPath_evaluateXPath (CurrentProcessingNode a)
             (replace_all ITEM_NAME_SUBSCRIPT (''/'' @ ITEM_NAME_SUBSCRIPT) xpath_key_reference)) (\<lambda>resolved.
           if resolved = [] then Inr (AList [], a)
           else let xpath' = replace_all ITEM_NAME_SUBSCRIPT (''/'' @ resolved) xpath in
             Inr (AList (if exists_node a xpath' then [xpath'] else []), a)))))"

text \<open>The replacement of \<open>[@key]\<close> by the first match of the regular expression, when there is one.\<close>

definition search_token :: "Argument \<Rightarrow> string \<Rightarrow> string \<Rightarrow> string \<Rightarrow> string result" where
  "search_token a regex_expression t current =
     rbind (Search a current regex_expression) (\<lambda>m. Inr (case m of None \<Rightarrow> t | Some x \<Rightarrow> x))"

definition XPathKeyRegexReplaceHandle :: handler where
  "XPathKeyRegexReplaceHandle = acting (AList []) (\<lambda>vs a.
     if length (vals vs) < 2 then failing (AList []) a
     else rbind (arg as_string vs 1) (\<lambda>regex_expression.
       if regex_expression = [] then Inr (AList [], a)
       else rbind (arg as_string vs 0) (\<lambda>xpath.
         if xpath = [] then Inr (AList [], a)
         else rbind (rebuild_xpath (search_token a regex_expression) a xpath) (\<lambda>rebuilt.
           Inr (AList (if exists_node a rebuilt then [rebuilt] else []), a)))))"

definition XPathValueKeyRegexReplaceHandle :: handler where
  "XPathValueKeyRegexReplaceHandle = acting AEmpty (\<lambda>vs a.
     if length (vals vs) < 2 then failing AEmpty a
     else rbind (arg as_string vs 1) (\<lambda>regex_expression.
       if regex_expression = [] then Inr (AEmpty, a)
       else rbind (arg as_string vs 0) (\<lambda>xpath.
         if xpath = [] then Inr (AEmpty, a)
         else rbind (rebuild_xpath (search_token a regex_expression) a xpath) (\<lambda>rebuilt.
           case XPath_select (root_handle a) rebuilt of
             None \<Rightarrow> Inr (AEmpty, a)
           | Some h \<Rightarrow>
               (case getValue (snd h) of
                  None \<Rightarrow> Inr (AEmpty, a)
                | Some v \<Rightarrow> rbind (leaf_value v) (\<lambda>r. case r of None \<Rightarrow> failing AEmpty a | Some x \<Rightarrow> Inr (x, a)))))))"

end
