(* ===== verification/Peg_Runs.thy ===== *)
theory Peg_Runs
  imports Peg
begin

section \<open>What every run of the parser keeps\<close>

text \<open>
  A relation between the data of the user before and after an action, reflexive and transitive, holds between
  the data before and after every run of the parser. The operators are handled once, for
  the step functions their loops are made of.
\<close>

definition keeps :: "('d \<Rightarrow> 'd \<Rightarrow> bool) \<Rightarrow> 'd \<Rightarrow> ('a \<times> ('r, 'v, 'd) peg_state) result \<Rightarrow> bool" where
  "keeps R dt Q \<longleftrightarrow> (\<forall>x c. Q = Inr (x, c) \<longrightarrow> R dt (user c))"

definition moves :: "('d \<Rightarrow> 'd \<Rightarrow> bool) \<Rightarrow> ('r, 'v, 'd) step \<Rightarrow> bool" where
  "moves R p \<longleftrightarrow> (\<forall>s vs c. keeps R (user c) (p s vs c))"

lemma keeps_simps [simp]:
  "keeps R dt (Inl e)"
  "keeps R dt (Inr (x, c)) \<longleftrightarrow> R dt (user c)"
  by (simp_all add: keeps_def)

lemma keepsD: "keeps R dt Q \<Longrightarrow> Q = Inr (x, c) \<Longrightarrow> R dt (user c)"
  by (simp add: keeps_def)

lemma user_remember [simp]: "user (remember P k x c) = user c"
  by (simp add: remember_def)

locale user_relation =
  fixes P :: "('r, 'v, 'd) parser" and R :: "'d \<Rightarrow> 'd \<Rightarrow> bool"
  assumes same: "R dt dt"
    and chained: "R dt dt1 \<Longrightarrow> R dt1 dt2 \<Longrightarrow> R dt dt2"
    and acted: "action_of P r = Some act \<Longrightarrow> act vs dt = Inr (v, dt') \<Longrightarrow> R dt dt'"
begin

lemma keeps_rbind:
  assumes "keeps R dt Q" and "\<And>x c. keeps R (user c) (k (x, c))"
  shows "keeps R dt (rbind Q k)"
  using assms by (fastforce simp: keeps_def rbind_eq_Inr intro: chained)

lemmas keeping = keeps_rbind same

lemma run_all_moves:
  "(\<And>ope s vs c. keeps R (user c) (p ope s vs c)) \<Longrightarrow> keeps R (user c) (run_all p opes s vs c)"
  by (induction p opes s vs c rule: run_all.induct) (auto intro!: keeping split: option.splits)

lemma run_first_moves:
  "(\<And>ope s vs c. keeps R (user c) (p ope s vs c)) \<Longrightarrow> keeps R (user c) (run_first p opes s vs c)"
  by (induction p opes s vs c rule: run_first.induct) (auto intro!: keeping split: option.splits)

lemma run_times_moves:
  "(\<And>s vs c. keeps R (user c) (p s vs c)) \<Longrightarrow> keeps R (user c) (run_times p n s vs c)"
  by (induction p n s vs c rule: run_times.induct) (auto intro!: keeping split: option.splits)

lemma run_more_moves:
  "(\<And>s vs c. keeps R (user c) (p s vs c)) \<Longrightarrow> keeps R (user c) (run_more p mx s vs c)"
proof (induction p mx s vs c rule: run_more.induct)
  case (1 p mx s vs c)
  then show ?case
    by (subst run_more.simps) (auto intro!: keeping split: option.splits)
qed

lemma call_action_moves: "keeps R (user c) (call_action P r vs c)"
  by (auto simp: call_action_def keeps_def rbind_eq_Inr intro: same dest: acted split: option.splits)

lemma reduce_moves: "keeps R (user c) (reduce P r vs c)"
  using call_action_moves [of "c\<lparr>wraps := see_token r (token vs) (wraps c)\<rparr>"] by (simp add: reduce_def)

lemma parse_holder_moves:
  "(\<And>s vs c. keeps R (user c) (p s vs c)) \<Longrightarrow> keeps R (user c) (parse_holder P r p s vs c)"
  by (auto simp: parse_holder_def parse_uncached_def intro!: keeping reduce_moves split: option.splits)

lemma keeps_value_at: "(\<And>x. keeps R dt (k x)) \<Longrightarrow> keeps R dt (rbind (value_at vs i) k)"
  by (auto simp: keeps_def rbind_eq_Inr)

lemma climb_right_moves:
  "(\<And>s vs c. keeps R (user c) (pexp s vs c)) \<Longrightarrow> keeps R (user c) (climb_right P rule pexp start s vs c)"
  by (auto simp: climb_right_def Let_def intro!: keeps_value_at keeps_rbind same call_action_moves split: option.splits)

lemma climb_operators_moves:
  assumes pop: "\<And>s vs c. keeps R (user c) (pop s vs c)" and pexp: "\<And>prec s vs c. keeps R (user c) (pexp prec s vs c)"
  shows "keeps R (user c) (climb_operators P rule info pop pexp min_prec start s vs c)"
proof (induction "length s" arbitrary: s vs c rule: less_induct)
  case less
  show ?case
    by (subst climb_operators.simps)
      (auto simp: pop less intro!: keeps_value_at keeps_rbind same climb_right_moves pexp split: option.splits)
qed

lemma climb_moves:
  assumes "\<And>s vs c. keeps R (user c) (patom s vs c)" and "\<And>s vs c. keeps R (user c) (pop s vs c)"
    and "\<And>prec s vs c. keeps R (user c) (pexp prec s vs c)"
  shows "keeps R (user c) (climb_frame P rule op_rule info patom pop pexp min_prec s vs c)"
proof -
  have "keeps R (user c) (rbind (climb_operators P rule info pop pexp min_prec start s vs (c\<lparr>wraps := w\<rparr>))
      (\<lambda>(r2, c2). Inr (r2, c2\<lparr>wraps := tl (wraps c2)\<rparr>)))" for start s vs w and c :: "('r, 'v, 'd) peg_state"
    using climb_operators_moves [where c = "c\<lparr>wraps := w\<rparr>", of pop pexp] assms(2,3)
    by (auto intro!: keeps_rbind same)
  then show ?thesis
    by (cases op_rule) (auto simp: climb_frame_def assms(1) intro!: keeps_rbind same split: option.splits)
qed

lemma parse_expression_moves:
  assumes "\<And>s vs c. keeps R (user c) (patom s vs c)" and "\<And>s vs c. keeps R (user c) (pop s vs c)"
  shows "keeps R (user c) (parse_expression k P rule op_rule info patom pop min_prec s vs c)"
  by (induction k arbitrary: min_prec s vs c) (auto intro!: climb_moves assms)

lemma skip_whitespace_moves:
  "(\<And>ope s vs c. keeps R (user c) (p ope s vs c)) \<Longrightarrow> keeps R (user c) (skip_whitespace P p tb ws s vs c)"
  by (auto simp: skip_whitespace_def same split: option.splits)

lemma parse_moves: "keeps R (user c) (parse d P args tb ws ope s vs c)"
proof (induction d arbitrary: args tb ws ope s vs c)
  case (Suc d)
  note rest = run_all_moves run_first_moves run_times_moves run_more_moves skip_whitespace_moves
    parse_holder_moves parse_expression_moves
  show ?case
    by (cases ope) (auto simp: Suc Let_def intro!: keeps_rbind same rest split: option.splits)
qed simp

end

subsection \<open>More stack\<close>

text \<open>An answer does not depend on the stack: with more of it the answer is the same.\<close>

definition below :: "'a result \<Rightarrow> 'a result \<Rightarrow> bool" where
  "below Q Q' \<longleftrightarrow> (\<forall>x. Q = Inr x \<longrightarrow> Q' = Inr x)"

definition refines :: "('r, 'v, 'd) step \<Rightarrow> ('r, 'v, 'd) step \<Rightarrow> bool" where
  "refines p q \<longleftrightarrow> (\<forall>s vs c. below (p s vs c) (q s vs c))"

lemma below_simps [simp]: "below Q Q" "below (Inl e) Q"
  by (simp_all add: below_def)

lemma below_rbind: "below Q Q' \<Longrightarrow> (\<And>x. below (k x) (k' x)) \<Longrightarrow> below (rbind Q k) (rbind Q' k')"
  by (auto simp: below_def rbind_eq_Inr)

lemma refinesI: "(\<And>s vs c. below (p s vs c) (q s vs c)) \<Longrightarrow> refines p q"
  by (simp add: refines_def)

lemma refinesD: "refines p q \<Longrightarrow> below (p s vs c) (q s vs c)"
  by (simp add: refines_def)

lemma run_all_refines:
  assumes p: "\<And>ope. refines (p ope) (q ope)"
  shows "refines (run_all p opes) (run_all q opes)"
proof (rule refinesI)
  show "below (run_all p opes s vs c) (run_all q opes s vs c)" for s vs c
    by (induction opes arbitrary: s vs c) (auto intro!: below_rbind refinesD [OF p] split: option.splits)
qed

lemma run_first_refines:
  assumes p: "\<And>ope. refines (p ope) (q ope)"
  shows "refines (run_first p opes) (run_first q opes)"
proof (rule refinesI)
  show "below (run_first p opes s vs c) (run_first q opes s vs c)" for s vs c
    by (induction opes arbitrary: s vs c) (auto intro!: below_rbind refinesD [OF p] split: option.splits)
qed

lemma run_times_refines:
  assumes p: "refines p q"
  shows "refines (run_times p n) (run_times q n)"
proof (rule refinesI)
  show "below (run_times p n s vs c) (run_times q n s vs c)" for s vs c
    by (induction n arbitrary: s vs c) (auto intro!: below_rbind refinesD [OF p] split: option.splits)
qed

lemma run_more_refines:
  assumes p: "refines p q"
  shows "refines (run_more p mx) (run_more q mx)"
proof (rule refinesI)
  show "below (run_more p mx s vs c) (run_more q mx s vs c)" for s vs c
  proof (induction "case mx of Some m \<Rightarrow> m | None \<Rightarrow> length s" arbitrary: mx s vs c rule: less_induct)
    case less
    then show ?case
      by (subst (1 2) run_more.simps) (auto intro!: below_rbind refinesD [OF p] less split: option.splits)
  qed
qed

lemma parse_holder_refines:
  assumes p: "refines p q"
  shows "refines (parse_holder P r p) (parse_holder P r q)"
  by (auto simp: parse_holder_def parse_uncached_def intro!: refinesI below_rbind refinesD [OF p] split: option.splits)

lemma skip_whitespace_refines:
  assumes p: "\<And>ope. refines (p ope) (q ope)"
  shows "refines (skip_whitespace P p tb ws) (skip_whitespace P q tb ws)"
  by (auto simp: skip_whitespace_def intro!: refinesI refinesD [OF p] split: option.splits)

lemma climb_right_refines:
  assumes p: "refines p q"
  shows "refines (climb_right P rule p start) (climb_right P rule q start)"
  by (auto simp: climb_right_def Let_def intro!: refinesI below_rbind refinesD [OF p] split: option.splits)

lemma climb_operators_refines:
  assumes pop: "refines pop qop" and pexp: "\<And>prec. refines (pexp prec) (qexp prec)"
  shows "refines (climb_operators P rule info pop pexp min_prec start) (climb_operators P rule info qop qexp min_prec start)"
proof (rule refinesI)
  show "below (climb_operators P rule info pop pexp min_prec start s vs c)
      (climb_operators P rule info qop qexp min_prec start s vs c)" for s vs c
  proof (induction "length s" arbitrary: s vs c rule: less_induct)
    case less
    then show ?case
      by (subst (1 2) climb_operators.simps)
        (auto intro!: below_rbind refinesD [OF pop] refinesD [OF climb_right_refines [OF pexp]] split: option.splits)
  qed
qed

lemma climb_refines:
  assumes "refines patom qatom" and "refines pop qop" and "\<And>prec. refines (pexp prec) (qexp prec)"
  shows "refines (climb_frame P rule op_rule info patom pop pexp min_prec) (climb_frame P rule op_rule info qatom qop qexp min_prec)"
  unfolding climb_frame_def
  by (auto intro!: refinesI below_rbind refinesD [OF assms(1)] refinesD [OF climb_operators_refines [OF assms(2,3)]]
      split: option.splits)

lemma parse_expression_refines:
  assumes "refines patom qatom" and "refines pop qop"
  shows "k \<le> k' \<Longrightarrow> refines (parse_expression k P rule op_rule info patom pop min_prec)
    (parse_expression k' P rule op_rule info qatom qop min_prec)"
proof (induction k arbitrary: k' min_prec)
  case 0
  then show ?case by (simp add: refines_def)
next
  case (Suc k)
  then obtain l where "k' = Suc l" "k \<le> l" by (cases k') auto
  with climb_refines [OF assms Suc.IH [OF this(2)]] show ?case by (simp add: refines_def)
qed

lemma parse_refines: "d \<le> d' \<Longrightarrow> refines (parse d P args tb ws ope) (parse d' P args tb ws ope)"
proof (induction d arbitrary: d' args tb ws ope)
  case 0
  then show ?case by (simp add: refines_def)
next
  case (Suc d)
  then obtain e where d': "d' = Suc e" and e: "d \<le> e" by (cases d') auto
  note IH = Suc.IH [OF e]
  have "below (parse (Suc d) P args tb ws ope s vs c) (parse (Suc e) P args tb ws ope s vs c)" for s vs c
    by (cases ope)
      (auto simp: Let_def intro!: below_rbind refinesD [OF run_all_refines [OF IH]] refinesD [OF run_times_refines [OF IH]]
        refinesD [OF IH] refinesD [OF run_first_refines [OF IH]] refinesD [OF run_more_refines [OF IH]]
        refinesD [OF skip_whitespace_refines [OF IH]] refinesD [OF parse_holder_refines [OF IH]]
        refinesD [OF parse_expression_refines [OF IH IH e]]
        split: option.splits)
  then show ?case by (simp add: refines_def d')
qed

theorem more_stack:
  assumes "parse_core d P start s dt = Inr x" and "d \<le> d'"
  shows "parse_core d' P start s dt = Inr x"
proof -
  note more = parse_refines [OF assms(2)]
  have "below (parse_core d P start s dt) (parse_core d' P start s dt)"
    unfolding parse_core_def run_parser_def
    by (auto intro!: below_rbind refinesD [OF skip_whitespace_refines [OF more]] refinesD [OF more] split: option.splits)
  with assms(1) show ?thesis by (simp add: below_def)
qed

end
