(* ===== verification/Replay.thy ===== *)
theory Replay
  imports Peg_Runs
begin

section \<open>Parsing first, acting later\<close>

text \<open>
  What a run of the parser decides does not depend on what the actions compute: a run can be recorded,
  with the calls of the actions in order, and the calls can be made afterwards. The recorder is
  the same parser with actions that write down the call; a value is the number of the call
  that made it. This separates the syntax of a text, which is a closed computation, from
  its meaning for a configuration.
\<close>

subsection \<open>Recording and replaying\<close>

type_synonym 'r call = "'r \<times> nat option semantic_values"

definition record_action :: "'r \<Rightarrow> (nat option, 'r call list) action" where
  "record_action r vs calls = Inr (Some (length calls), calls @ [(r, vs)])"

definition recorder :: "('r, 'v, 'd) parser \<Rightarrow> ('r, nat option, 'r call list) parser" where
  "recorder P =
     \<lparr>rule_of = rule_of P, action_of = (\<lambda>r. map_option (\<lambda>_. record_action r) (action_of P r)),
      whitespaceOpe = whitespaceOpe P, packrat = packrat P, empty_any = None\<rparr>"

lemma recorder_simps [simp]:
  "rule_of (recorder P) = rule_of P" "whitespaceOpe (recorder P) = whitespaceOpe P" "packrat (recorder P) = packrat P"
  "empty_any (recorder P) = None" "action_of (recorder P) r = map_option (\<lambda>_. record_action r) (action_of P r)"
  by (simp_all add: recorder_def)

definition look :: "('r, 'v, 'd) parser \<Rightarrow> 'v list \<Rightarrow> nat option \<Rightarrow> 'v" where
  "look P res v = (case v of None \<Rightarrow> empty_any P | Some i \<Rightarrow> res ! i)"

definition look_values :: "('r, 'v, 'd) parser \<Rightarrow> 'v list \<Rightarrow> nat option semantic_values \<Rightarrow> 'v semantic_values" where
  "look_values P res vs = \<lparr>sv = sv vs, vals = map (look P res) (vals vs), toks = toks vs\<rparr>"

fun replay :: "('r, 'v, 'd) parser \<Rightarrow> 'r call list \<Rightarrow> 'v list \<Rightarrow> 'd \<Rightarrow> ('v list \<times> 'd) result" where
  "replay P [] res dt = Inr (res, dt)"
| "replay P ((r, vs) # calls) res dt =
     (case action_of P r of
        None \<Rightarrow> replay P calls res dt
      | Some act \<Rightarrow> rbind (act (look_values P res vs) dt) (\<lambda>(v, dt1). replay P calls (res @ [v]) dt1))"

lemma replay_append:
  "replay P (calls @ later) res dt = rbind (replay P calls res dt) (\<lambda>(res1, dt1). replay P later res1 dt1)"
proof (induction calls arbitrary: res dt)
  case (Cons call calls)
  then show ?case
    by (cases call) (auto simp: rbind_def split: option.splits sum.splits)
qed simp

subsection \<open>The simulation\<close>

text \<open>Values that refer to calls already made, and what they stand for.\<close>

definition known :: "'v list \<Rightarrow> nat option \<Rightarrow> bool" where
  "known res v = (case v of None \<Rightarrow> True | Some i \<Rightarrow> i < length res)"

definition stands :: "('r, 'v, 'd) parser \<Rightarrow> 'v list \<Rightarrow> nat option semantic_values \<Rightarrow> 'v semantic_values \<Rightarrow> bool" where
  "stands P res vsR vs \<longleftrightarrow> (\<forall>v \<in> set (vals vsR). known res v) \<and> vs = look_values P res vsR"

definition cache_stands :: "('r, 'v, 'd) parser \<Rightarrow> 'v list \<Rightarrow> ('r, nat option) cache \<Rightarrow> ('r, 'v) cache \<Rightarrow> bool" where
  "cache_stands P res cR c \<longleftrightarrow>
     (\<forall>(k, x) \<in> set cR. case x of None \<Rightarrow> True | Some (s, v) \<Rightarrow> known res v) \<and>
     c = map (\<lambda>(k, x). (k, map_option (\<lambda>(s, v). (s, look P res v)) x)) cR"

definition state_stands :: "('r, 'v, 'd) parser \<Rightarrow> 'd \<Rightarrow> 'v list \<Rightarrow> ('r, nat option, 'r call list) peg_state \<Rightarrow>
    ('r, 'v, 'd) peg_state \<Rightarrow> bool" where
  "state_stands P dt0 res cR c \<longleftrightarrow>
     replay P (user cR) [] dt0 = Inr (res, user c) \<and> length (user cR) = length res \<and>
     cache_stands P res (cached cR) (cached c) \<and> wraps c = wraps cR"

lemma look_append: "known res v \<Longrightarrow> look P (res @ ext) v = look P res v"
  by (auto simp: known_def look_def nth_append split: option.splits)

lemma known_append: "known res v \<Longrightarrow> known (res @ ext) v"
  by (auto simp: known_def split: option.splits)

lemma stands_append: "stands P res vsR vs \<Longrightarrow> stands P (res @ ext) vsR vs"
  by (auto simp: stands_def look_values_def look_append known_append)

lemma cache_stands_append:
  assumes "cache_stands P res cR c"
  shows "cache_stands P (res @ ext) cR c"
proof -
  have entry: "map_option (\<lambda>(s, v). (s, look P (res @ ext) v)) x = map_option (\<lambda>(s, v). (s, look P res v)) x"
    if "(k, x) \<in> set cR" for k x
    using that assms by (cases x) (auto simp: cache_stands_def look_append)
  have "map (\<lambda>(k, x). (k, map_option (\<lambda>(s, v). (s, look P (res @ ext) v)) x)) cR =
      map (\<lambda>(k, x). (k, map_option (\<lambda>(s, v). (s, look P res v)) x)) cR"
    by (rule map_cong) (auto simp: entry)
  with assms show ?thesis
    unfolding cache_stands_def by (fastforce intro: known_append split: option.splits)
qed

text \<open>Recorded calls are never taken back.\<close>

definition extends :: "'c list \<Rightarrow> 'c list \<Rightarrow> bool" where
  "extends calls calls' \<longleftrightarrow> (\<exists>later. calls' = calls @ later)"

lemma extends_refl [simp]: "extends calls calls"
  by (simp add: extends_def)

interpretation recorded: user_relation "recorder P" extends for P
  by unfold_locales (auto simp: extends_def recorder_def record_action_def)

text \<open>
  A recorded outcome and the real one: either the replay of the calls recorded so far raises, and the real
  run has raised the same, or the results correspond.
\<close>

definition follows :: "('r, 'v, 'd) parser \<Rightarrow> 'd \<Rightarrow> 'v list \<Rightarrow> ('v list \<Rightarrow> 'a \<Rightarrow> 'b \<Rightarrow> bool) \<Rightarrow>
    ('a \<times> ('r, nat option, 'r call list) peg_state) result \<Rightarrow> ('b \<times> ('r, 'v, 'd) peg_state) result \<Rightarrow> bool" where
  "follows P dt0 res V QR Q \<longleftrightarrow>
     (\<forall>aR cR. QR = Inr (aR, cR) \<longrightarrow>
        (case replay P (user cR) [] dt0 of
           Inl e \<Rightarrow> Q = Inl e
         | Inr (res', _) \<Rightarrow>
             (\<exists>ext. res' = res @ ext) \<and> (\<exists>b c. Q = Inr (b, c) \<and> state_stands P dt0 res' cR c \<and> V res' aR b)))"

lemma follows_Inl [simp]: "follows P dt0 res V (Inl e) Q"
  by (simp add: follows_def)

lemma follows_Inr:
  "state_stands P dt0 res cR c \<Longrightarrow> V res aR b \<Longrightarrow> follows P dt0 res V (Inr (aR, cR)) (Inr (b, c))"
  by (auto simp: follows_def state_stands_def)

lemma follows_weaken:
  "follows P dt0 (res @ ext) V QR Q \<Longrightarrow> follows P dt0 res V QR Q"
  by (fastforce simp: follows_def split: sum.splits prod.splits)

lemma follows_rbind:
  assumes first: "follows P dt0 res V QR Q"
    and later: "\<And>x cR. keeps extends (user cR) (kR (x, cR))"
    and rest: "\<And>ext aR cR b c. state_stands P dt0 (res @ ext) cR c \<Longrightarrow> V (res @ ext) aR b \<Longrightarrow>
      follows P dt0 (res @ ext) W (kR (aR, cR)) (k (b, c))"
  shows "follows P dt0 res W (rbind QR kR) (rbind Q k)"
proof (cases QR)
  case (Inr x)
  obtain aR cR where x: "x = (aR, cR)" by fastforce
  show ?thesis
  proof (cases "replay P (user cR) [] dt0")
    case (Inl e)
    with first Inr x have "Q = Inl e" by (auto simp: follows_def)
    moreover have "replay P (user c2) [] dt0 = Inl e" if "kR (aR, cR) = Inr (a2, c2)" for a2 c2
      using keepsD [OF later that] Inl by (auto simp: extends_def replay_append)
    ultimately show ?thesis using Inr x by (auto simp: follows_def)
  next
    case (Inr y)
    with first \<open>QR = Inr x\<close> x obtain ext b c where "Q = Inr (b, c)" "state_stands P dt0 (res @ ext) cR c" "V (res @ ext) aR b"
      by (cases y) (auto simp: follows_def)
    with rest [of ext cR c aR b] \<open>QR = Inr x\<close> x show ?thesis by (auto intro: follows_weaken)
  qed
qed simp

subsection \<open>Steps\<close>

definition rest_stands :: "('r, 'v, 'd) parser \<Rightarrow> 'v list \<Rightarrow> (string \<times> nat option semantic_values) option \<Rightarrow>
    (string \<times> 'v semantic_values) option \<Rightarrow> bool" where
  "rest_stands P res rR r \<longleftrightarrow> rel_option (\<lambda>(s, vR) (s', v). s = s' \<and> stands P res vR v) rR r"

lemma rest_stands_simps [simp]:
  "rest_stands P res None r \<longleftrightarrow> r = None"
  "rest_stands P res (Some (s, vR)) r \<longleftrightarrow> (\<exists>v. r = Some (s, v) \<and> stands P res vR v)"
  by (auto simp: rest_stands_def option_rel_Some1)

definition mirrors :: "('r, 'v, 'd) parser \<Rightarrow> 'd \<Rightarrow> ('r, nat option, 'r call list) step \<Rightarrow> ('r, 'v, 'd) step \<Rightarrow> bool" where
  "mirrors P dt0 pR p \<longleftrightarrow>
     (\<forall>s vR cR. keeps extends (user cR) (pR s vR cR)) \<and>
     (\<forall>res s vR v cR c. state_stands P dt0 res cR c \<longrightarrow> stands P res vR v \<longrightarrow>
        follows P dt0 res (rest_stands P) (pR s vR cR) (p s v c))"

lemma mirrors_follows:
  "mirrors P dt0 pR p \<Longrightarrow> state_stands P dt0 res cR c \<Longrightarrow> stands P res vR v \<Longrightarrow>
     follows P dt0 res (rest_stands P) (pR s vR cR) (p s v c)"
  by (simp add: mirrors_def)

lemma mirrors_keeps: "mirrors P dt0 pR p \<Longrightarrow> keeps extends (user cR) (pR s vR cR)"
  by (simp add: mirrors_def)

lemma stands_no_values [simp]: "stands P res no_values no_values"
  by (simp add: stands_def no_values_def look_values_def)

lemma stands_append_values:
  "stands P res vR v \<Longrightarrow> stands P res chR ch \<Longrightarrow> stands P res (append_values vR chR) (append_values v ch)"
  by (auto simp: stands_def append_values_def look_values_def)

lemma stands_push_value:
  "stands P res vR v \<Longrightarrow> known res x \<Longrightarrow> stands P res (push_value x vR) (push_value (look P res x) v)"
  by (auto simp: stands_def push_value_def look_values_def)

lemma stands_push_token: "stands P res vR v \<Longrightarrow> stands P res (push_token t vR) (push_token t v)"
  by (auto simp: stands_def push_token_def look_values_def)

lemma stands_sv: "stands P res vR v \<Longrightarrow> stands P res (vR\<lparr>sv := t\<rparr>) (v\<lparr>sv := t\<rparr>)"
  by (auto simp: stands_def look_values_def)

lemmas standing = stands_append_values stands_push_value stands_push_token stands_sv


lemmas following = follows_rbind [OF mirrors_follows] follows_Inr

lemma run_all_mirrors:
  assumes p: "\<And>ope. mirrors P dt0 (pR ope) (p ope)"
  shows "state_stands P dt0 res cR c \<Longrightarrow> stands P res vR v \<Longrightarrow>
    follows P dt0 res (rest_stands P) (run_all pR opes s vR cR) (run_all p opes s v c)"
proof (induction opes arbitrary: res s vR v cR c)
  case (Cons ope opes)
  have "keeps extends (user cR) (run_all pR opes s vR cR)" for s vR cR
    by (rule recorded.run_all_moves) (rule mirrors_keeps [OF p])
  with p Cons.prems show ?case
    by (auto intro!: following Cons.IH split: option.splits)
qed (auto intro: follows_Inr)

lemma run_first_mirrors:
  assumes p: "\<And>ope. mirrors P dt0 (pR ope) (p ope)"
  shows "state_stands P dt0 res cR c \<Longrightarrow> stands P res vR v \<Longrightarrow>
    follows P dt0 res (rest_stands P) (run_first pR opes s vR cR) (run_first p opes s v c)"
proof (induction opes arbitrary: res s vR v cR c)
  case (Cons ope opes)
  have "keeps extends (user cR) (run_first pR opes s vR cR)" for s vR cR
    by (rule recorded.run_first_moves) (rule mirrors_keeps [OF p])
  with p Cons.prems show ?case
    by (auto intro!: following Cons.IH standing simp: stands_append split: option.splits)
qed (auto intro: follows_Inr)

lemma run_times_mirrors:
  assumes p: "mirrors P dt0 pR p"
  shows "state_stands P dt0 res cR c \<Longrightarrow> stands P res vR v \<Longrightarrow>
    follows P dt0 res (rest_stands P) (run_times pR n s vR cR) (run_times p n s v c)"
proof (induction n arbitrary: res s vR v cR c)
  case (Suc n)
  have "keeps extends (user cR) (run_times pR n s vR cR)" for s vR cR
    by (rule recorded.run_times_moves) (rule mirrors_keeps [OF p])
  with p Suc.prems show ?case
    by (auto intro!: following Suc.IH standing simp: stands_append split: option.splits)
qed (auto intro: follows_Inr)

lemma run_more_mirrors:
  assumes p: "mirrors P dt0 pR p"
  shows "state_stands P dt0 res cR c \<Longrightarrow> stands P res vR v \<Longrightarrow>
    follows P dt0 res (rest_stands P) (run_more pR mx s vR cR) (run_more p mx s v c)"
proof (induction "case mx of Some m \<Rightarrow> m | None \<Rightarrow> length s" arbitrary: mx res s vR v cR c rule: less_induct)
  case less
  have "keeps extends (user cR) (run_more pR mx s vR cR)" for mx s vR cR
    by (rule recorded.run_more_moves) (rule mirrors_keeps [OF p])
  with p less.prems show ?case
    by (subst (1 2) run_more.simps)
      (auto intro!: following less.hyps standing simp: stands_append split: option.splits)
qed

lemma skip_whitespace_mirrors:
  assumes p: "\<And>ope. mirrors P dt0 (pR ope) (p ope)"
  shows "state_stands P dt0 res cR c \<Longrightarrow> stands P res vR v \<Longrightarrow>
    follows P dt0 res (rest_stands P) (skip_whitespace (recorder P) pR tb ws s vR cR) (skip_whitespace P p tb ws s v c)"
  using p by (auto simp: skip_whitespace_def recorder_def intro!: mirrors_follows follows_Inr split: option.splits)

subsection \<open>Rules\<close>

lemma token_look [simp]: "token (look_values P res vR) = token vR"
  by (simp add: token_def look_values_def split: list.splits)

lemma state_stands_wraps:
  "state_stands P dt0 res cR c \<Longrightarrow> w = w' \<Longrightarrow> state_stands P dt0 res (cR\<lparr>wraps := w\<rparr>) (c\<lparr>wraps := w'\<rparr>)"
  by (simp add: state_stands_def)

lemma state_stands_remember:
  assumes "state_stands P dt0 res cR c"
    and "case xR of None \<Rightarrow> True | Some (s, v) \<Rightarrow> known res v"
    and "x = map_option (\<lambda>(s, v). (s, look P res v)) xR"
  shows "state_stands P dt0 res (remember (recorder P) k xR cR) (remember P k x c)"
  using assms by (auto simp: state_stands_def remember_def recorder_def cache_stands_def)

lemma map_of_map_values: "map_of (map (\<lambda>(k, x). (k, f x)) xs) k = map_option f (map_of xs k)"
  by (induction xs) auto

lemma cache_lookup:
  "cache_stands P res cR c \<Longrightarrow> map_of c k = map_option (map_option (\<lambda>(s, v). (s, look P res v))) (map_of cR k)"
  by (simp add: cache_stands_def map_of_map_values)

lemma cache_known:
  "cache_stands P res cR c \<Longrightarrow> map_of cR k = Some (Some (s, v)) \<Longrightarrow> known res v"
  by (fastforce simp: cache_stands_def dest: map_of_SomeD)

definition value_stands :: "('r, 'v, 'd) parser \<Rightarrow> 'v list \<Rightarrow> nat option \<Rightarrow> 'v \<Rightarrow> bool" where
  "value_stands P res xR x \<longleftrightarrow> known res xR \<and> x = look P res xR"

text \<open>An action called for real and the recorded call.\<close>

lemma call_action_follows:
  assumes st: "state_stands P dt0 res cR c" and vs: "stands P res vR v"
  shows "follows P dt0 res (value_stands P) (call_action (recorder P) r vR cR) (call_action P r v c)"
proof -
  have v: "v = look_values P res vR" and known: "\<forall>x \<in> set (vals vR). known res x"
    using vs by (auto simp: stands_def)
  show ?thesis
  proof (cases "action_of P r")
    case None
    have "value_stands P res (case vals vR of [] \<Rightarrow> None | x # _ \<Rightarrow> x) (case vals v of [] \<Rightarrow> empty_any P | x # _ \<Rightarrow> x)"
      using known by (cases "vals vR") (auto simp: v value_stands_def known_def look_def look_values_def)
    with st None show ?thesis by (auto simp: call_action_def intro!: follows_Inr split: list.splits)
  next
    case (Some act)
    have "follows P dt0 res (value_stands P) (Inr (Some (length (user cR)), cR\<lparr>user := user cR @ [(r, vR)]\<rparr>))
        (rbind (act v (user c)) (\<lambda>(x, dt). Inr (x, c\<lparr>user := dt\<rparr>)))"
    proof (cases "act v (user c)")
      case (Inl e)
      with assms Some show ?thesis by (auto simp: follows_def state_stands_def stands_def replay_append)
    next
      case (Inr y)
      obtain x dt where y: "y = (x, dt)" by fastforce
      have "cache_stands P (res @ [x]) (cached cR) (cached c)"
        using st by (auto simp: state_stands_def intro: cache_stands_append)
      with Inr y assms Some show ?thesis
        by (auto simp: follows_def state_stands_def stands_def replay_append value_stands_def known_def look_def nth_append)
    qed
    with Some show ?thesis by (simp add: call_action_def record_action_def)
  qed
qed

lemma reduce_follows:
  assumes "state_stands P dt0 res cR c" and "stands P res vR v"
  shows "follows P dt0 res (value_stands P) (reduce (recorder P) r vR cR) (reduce P r v c)"
  unfolding reduce_def
  using assms by (intro call_action_follows) (auto simp: stands_def state_stands_def)

lemma parse_uncached_follows:
  assumes p: "mirrors P dt0 pR p" and st: "state_stands P dt0 res cR c" and vs: "stands P res vR v"
  shows "follows P dt0 res (rest_stands P) (parse_uncached (recorder P) r pR s vR cR) (parse_uncached P r p s v c)"
  unfolding parse_uncached_def
  using assms
  by (auto intro!: following follows_rbind [OF reduce_follows] recorded.keeping recorded.reduce_moves
      state_stands_remember standing simp: stands_append value_stands_def split: option.splits)

lemma parse_holder_follows:
  assumes p: "mirrors P dt0 pR p" and st: "state_stands P dt0 res cR c" and vs: "stands P res vR v"
  shows "follows P dt0 res (rest_stands P) (parse_holder (recorder P) r pR s vR cR) (parse_holder P r p s v c)"
proof (cases "packrat P")
  case False
  with parse_uncached_follows [OF p st vs] show ?thesis by (simp add: parse_holder_def)
next
  case True
  have hit: "known res y" if "map_of (cached cR) (length s, r) = Some (Some (s1, y))" for s1 y
    using st that by (auto simp: state_stands_def intro: cache_known)
  have look: "map_of (cached c) (length s, r) =
      map_option (map_option (\<lambda>(s, v). (s, look P res v))) (map_of (cached cR) (length s, r))"
    using st by (auto simp: state_stands_def intro: cache_lookup)
  show ?thesis
  proof (cases "map_of (cached cR) (length s, r)")
    case None
    with parse_uncached_follows [OF p st vs] look True show ?thesis by (simp add: parse_holder_def)
  next
    case (Some x)
    with st vs look True hit show ?thesis
      by (cases x) (auto simp: parse_holder_def intro!: follows_Inr standing)
  qed
qed

subsection \<open>Climbing\<close>

lemma value_at_follows:
  "stands P res vR v \<Longrightarrow>
    (case value_at vR i of Inl e \<Rightarrow> value_at v i = Inl e | Inr xR \<Rightarrow> value_at v i = Inr (look P res xR) \<and> known res xR)"
  by (auto simp: stands_def look_values_def value_at_def)

lemma follows_value_at:
  assumes "stands P res vR v" and "\<And>xR. known res xR \<Longrightarrow> follows P dt0 res W (kR xR) (k (look P res xR))"
  shows "follows P dt0 res W (rbind (value_at vR i) kR) (rbind (value_at v i) k)"
  using value_at_follows [OF assms(1), of i] assms(2) by (cases "value_at vR i") auto

lemma stands_vals: "stands P res vR v \<Longrightarrow> value_stands P res xR x \<Longrightarrow> stands P res (vR\<lparr>vals := [xR]\<rparr>) (v\<lparr>vals := [x]\<rparr>)"
  by (auto simp: stands_def look_values_def value_stands_def)

lemma climb_right_follows:
  assumes "mirrors P dt0 pexpR pexp" and "state_stands P dt0 res cR c" and "stands P res vR v"
  shows "follows P dt0 res (rest_stands P) (climb_right (recorder P) rule pexpR start s vR cR)
      (climb_right P rule pexp start s v c)"
  unfolding climb_right_def Let_def
  using assms
  by (auto intro!: following follows_value_at follows_rbind [OF call_action_follows] stands_vals
      recorded.keeps_value_at recorded.keeping recorded.call_action_moves stands_sv
      simp: stands_append stands_push_value simp del: append_assoc split: option.splits)

lemma climb_operators_follows:
  assumes pop: "mirrors P dt0 popR pop" and pexp: "\<And>prec. mirrors P dt0 (pexpR prec) (pexp prec)"
  shows "state_stands P dt0 res cR c \<Longrightarrow> stands P res vR v \<Longrightarrow>
    follows P dt0 res (rest_stands P) (climb_operators (recorder P) rule info popR pexpR min_prec start s vR cR)
      (climb_operators P rule info pop pexp min_prec start s v c)"
proof (induction "length s" arbitrary: res s vR v cR c rule: less_induct)
  case less
  have moving: "keeps extends (user cR) (climb_operators (recorder P) rule info popR pexpR min_prec start s vR cR)" for s vR cR
    by (rule recorded.climb_operators_moves) (rule mirrors_keeps [OF pop], rule mirrors_keeps [OF pexp])
  have right: "keeps extends (user cR) (climb_right (recorder P) rule (pexpR prec) start s vR cR)" for prec s vR cR
    by (rule recorded.climb_right_moves) (rule mirrors_keeps [OF pexp])
  have tok: "wraps c = wraps cR" if "state_stands P dt0 res cR c" for res cR and c :: "('a, 'b, 'c) peg_state"
    using that by (simp add: state_stands_def)
  show ?case
    using less.prems
    by (subst (1 2) climb_operators.simps)
      (auto simp: moving right tok stands_append
        intro!: follows_rbind [OF mirrors_follows [OF pop]] follows_Inr follows_value_at
          follows_rbind [OF climb_right_follows [OF pexp]] less.hyps recorded.keeping recorded.keeps_value_at standing
        split: option.splits)
qed

lemma climb_follows:
  assumes atom: "mirrors P dt0 patomR patom" and pop: "mirrors P dt0 popR pop"
    and pexp: "\<And>prec. mirrors P dt0 (pexpR prec) (pexp prec)"
    and st: "state_stands P dt0 res cR c" and vs: "stands P res vR v"
  shows "follows P dt0 res (rest_stands P) (climb_frame (recorder P) rule op_rule info patomR popR pexpR min_prec s vR cR)
      (climb_frame P rule op_rule info patom pop pexp min_prec s v c)"
proof (cases op_rule)
  case (Inl e)
  then show ?thesis
    using st vs by (auto simp: climb_frame_def intro!: follows_rbind [OF mirrors_follows [OF atom]] follows_Inr recorded.keeping split: option.splits)
next
  case (Inr r_op)
  have frame: "state_stands P dt0 res cR c \<Longrightarrow> stands P res vR v \<Longrightarrow>
      follows P dt0 res (rest_stands P)
        (rbind (climb_operators (recorder P) rule info popR pexpR min_prec start s vR (cR\<lparr>wraps := (r_op, []) # wraps cR\<rparr>))
          (\<lambda>(r2, c2). Inr (r2, c2\<lparr>wraps := tl (wraps c2)\<rparr>)))
        (rbind (climb_operators P rule info pop pexp min_prec start s v (c\<lparr>wraps := (r_op, []) # wraps c\<rparr>))
          (\<lambda>(r2, c2). Inr (r2, c2\<lparr>wraps := tl (wraps c2)\<rparr>)))" for res start s vR v cR c
    by (rule follows_rbind [OF climb_operators_follows [OF pop pexp]])
      (auto simp: state_stands_def intro!: follows_Inr)
  have moving: "keeps extends (user cR)
      (rbind (climb_operators (recorder P) rule info popR pexpR min_prec start s vR (cR\<lparr>wraps := w\<rparr>))
        (\<lambda>(r2, c2). Inr (r2, c2\<lparr>wraps := tl (wraps c2)\<rparr>)))" for start s vR cR w
    using recorded.climb_operators_moves [OF mirrors_keeps [OF pop] mirrors_keeps [OF pexp], of "cR\<lparr>wraps := w\<rparr>"]
    by (auto intro!: recorded.keeping)
  show ?thesis
    using st vs unfolding climb_frame_def Inr rbind_simps
    by (auto intro!: follows_rbind [OF mirrors_follows [OF atom]] follows_Inr frame recorded.keeping simp: moving split: option.splits)
qed

lemma parse_expression_follows:
  assumes atom: "mirrors P dt0 patomR patom" and pop: "mirrors P dt0 popR pop"
  shows "mirrors P dt0 (parse_expression k (recorder P) rule op_rule info patomR popR min_prec)
      (parse_expression k P rule op_rule info patom pop min_prec)"
proof (induction k arbitrary: min_prec)
  case 0
  then show ?case by (auto simp: mirrors_def)
next
  case (Suc k)
  have "follows P dt0 res (rest_stands P)
      (parse_expression (Suc k) (recorder P) rule op_rule info patomR popR min_prec s vR cR)
      (parse_expression (Suc k) P rule op_rule info patom pop min_prec s v c)"
    if "state_stands P dt0 res cR c" "stands P res vR v" for res s vR v cR c
    using that by (auto intro!: climb_follows [OF atom pop] Suc)
  moreover have "keeps extends (user cR) (parse_expression (Suc k) (recorder P) rule op_rule info patomR popR min_prec s vR cR)"
    for s vR cR
    by (rule recorded.parse_expression_moves) (rule mirrors_keeps [OF atom], rule mirrors_keeps [OF pop])
  ultimately show ?case by (simp add: mirrors_def)
qed

lemma rest_stands_append:
  "rest_stands P res aR a \<Longrightarrow> stands P res vR v \<Longrightarrow>
     rest_stands P res (map_option (\<lambda>(s, ch). (s, append_values vR ch)) aR) (map_option (\<lambda>(s, ch). (s, append_values v ch)) a)"
  by (cases aR) (auto simp: stands_append_values)

lemma rest_stands_same:
  "stands P res vR v \<Longrightarrow> rest_stands P res (map_option (\<lambda>s. (s, vR)) x) (map_option (\<lambda>s. (s, v)) x)"
  by (cases x) auto

subsection \<open>The operators\<close>

lemma parse_mirrors: "mirrors P dt0 (parse d (recorder P) args tb ws ope) (parse d P args tb ws ope)"
proof (induction d arbitrary: args tb ws ope)
  case 0
  then show ?case by (auto simp: mirrors_def)
next
  case (Suc d)
  note IH = mirrors_follows [OF Suc]
  have skip: "keeps extends (user cR) (skip_whitespace (recorder P) (parse d (recorder P) args tb ws) tb' ws' s vR cR)"
    for args tb ws tb' ws' s vR cR
    by (rule recorded.skip_whitespace_moves) (rule recorded.parse_moves)
  have more: "keeps extends (user cR) (run_more (parse d (recorder P) args tb ws ope) mx s vR cR)" for args tb ws ope mx s vR cR
    by (rule recorded.run_more_moves) (rule recorded.parse_moves)
  have "follows P dt0 res (rest_stands P) (parse (Suc d) (recorder P) args tb ws ope s vR cR) (parse (Suc d) P args tb ws ope s v c)"
    if "state_stands P dt0 res cR c" "stands P res vR v" for res s vR v cR c
    using that
    by (cases ope)
      (auto simp: Let_def skip more stands_append
        intro!: IH follows_rbind [OF run_all_mirrors [OF Suc]] run_first_mirrors [OF Suc]
          follows_rbind [OF run_times_mirrors [OF Suc]] run_more_mirrors [OF Suc] skip_whitespace_mirrors [OF Suc]
          follows_rbind [OF IH] parse_holder_follows [OF Suc] mirrors_follows [OF parse_expression_follows [OF Suc Suc]]
          follows_Inr standing recorded.keeping rest_stands_append rest_stands_same
        split: option.splits)
  then show ?case by (auto simp: mirrors_def recorded.parse_moves)
qed

text \<open>
  A recorded run that gave an answer: the run with the actions makes the recorded calls in order and gives the same
  answer, or raises what the first of them raises.
\<close>

theorem run_is_replay:
  assumes "parse_core d (recorder P) start s [] = Inr (ok, calls)"
  shows "parse_core d P start s dt = rbind (replay P calls [] dt) (\<lambda>(res, dt'). Inr (ok, dt'))"
proof -
  let ?cR = "\<lparr>user = [], cached = [], wraps = []\<rparr> :: ('a, nat option, 'a call list) peg_state"
    and ?c = "\<lparr>user = dt, cached = [], wraps = []\<rparr> :: ('a, 'b, 'c) peg_state"
  have st: "state_stands P dt [] ?cR ?c"
    by (simp add: state_stands_def cache_stands_def)
  have ends: "(case aR of None \<Rightarrow> False | Some (s2, vs2) \<Rightarrow> s2 = []) = (case a of None \<Rightarrow> False | Some (s2, vs2) \<Rightarrow> s2 = [])"
    if "rest_stands P res aR a" for res aR a
    using that by (cases aR) auto
  have "follows P dt [] (\<lambda>res aR b. aR = b) (run_parser d (recorder P) start s ?cR) (run_parser d P start s ?c)"
    unfolding run_parser_def
    by (rule follows_rbind [OF skip_whitespace_mirrors [OF parse_mirrors st stands_no_values]])
      (auto intro!: recorded.keeping recorded.parse_moves follows_Inr follows_rbind [OF mirrors_follows [OF parse_mirrors]]
        simp: ends split: option.splits)
  moreover obtain cR where "run_parser d (recorder P) start s ?cR = Inr (ok, cR)" "calls = user cR"
    using assms by (auto simp: parse_core_def rbind_eq_Inr)
  ultimately show ?thesis
    by (cases "replay P calls [] dt") (auto simp: parse_core_def follows_def state_stands_def)
qed

end
