(* ===== verification/Peg_Progress.thy ===== *)
theory Peg_Progress
  imports Peg
begin

section \<open>Grammars whose parser comes to an end\<close>

text \<open>
  A grammar that can be ranked: along references that can be reached without consuming text the rank of
  the rules goes down. Its parser always gives an answer, on every text of code points: no loop stands still, and the
  stack it needs is linear in the length of the text.
\<close>

subsection \<open>Texts of code points\<close>

function decodable :: "string \<Rightarrow> bool" where
  "decodable s =
     (if s = [] then True
      else if fst (decode_codepoint s) = 0 then False
      else decodable (drop (fst (decode_codepoint s)) s))"
  by pat_completeness auto

termination
  by (relation "measure length") auto

declare decodable.simps [simp del]

lemma decodable_Nil [simp]: "decodable []"
  by (simp add: decodable.simps)

lemma decodable_ascii: "of_char c < (128 :: int) \<Longrightarrow> decodable (c # s) \<longleftrightarrow> decodable s"
  by (subst decodable.simps) (simp add: decode_codepoint_def)

definition ascii :: "string \<Rightarrow> bool" where
  "ascii s = list_all (\<lambda>c. of_char c < (128 :: int)) s"

lemma ascii_decodable: "ascii s \<Longrightarrow> decodable s"
  by (induction s) (auto simp: ascii_def decodable_ascii)

lemma match_literal_Some: "match_literal lit s = Some s1 \<longleftrightarrow> s = lit @ s1"
  by (induction lit s rule: match_literal.induct) auto

lemma decodable_append: "ascii lit \<Longrightarrow> decodable (lit @ s) \<longleftrightarrow> decodable s"
  by (induction lit) (auto simp: ascii_def decodable_ascii)

lemma trie_match_cases:
  "trie_match items s = 0 \<or> (\<exists>item \<in> set items. trie_match items s = length item \<and> (\<exists>s1. s = item @ s1))"
proof -
  have "P (fold (\<lambda>item len. if match_literal item s \<noteq> None then max len (length item) else len) items len)"
    if "P len" and "\<And>item. item \<in> set items \<Longrightarrow> match_literal item s \<noteq> None \<Longrightarrow> P (length item)" for P len
    using that by (induction items arbitrary: len) (auto simp: max_def)
  from this [where len = 0 and P = "\<lambda>n. n = 0 \<or> (\<exists>item \<in> set items. n = length item \<and> (\<exists>s1. s = item @ s1))"]
  show ?thesis by (auto simp: trie_match_def match_literal_Some)
qed

subsection \<open>Steps that come back\<close>

text \<open>
  A step works on texts up to a length: it answers, keeps the cache sound, and what it leaves is
  no longer, shorter when it consumes, with a value when it is one of the steps that push one.
\<close>

definition sound_cache :: "('r, 'v, 'd) peg_state \<Rightarrow> bool" where
  "sound_cache c \<longleftrightarrow> (\<forall>((m, r), x) \<in> set (cached c). \<forall>s1 v. x = Some (s1, v) \<longrightarrow> decodable s1 \<and> length s1 < m)"

definition answers :: "bool \<Rightarrow> bool \<Rightarrow> string \<Rightarrow> ('r, 'v, 'd) parsed_values \<Rightarrow> bool" where
  "answers cons pushes s Q \<longleftrightarrow>
     (\<exists>r c. Q = Inr (r, c) \<and> sound_cache c \<and>
       (\<forall>s1 vs1. r = Some (s1, vs1) \<longrightarrow> decodable s1 \<and> length s1 \<le> length s \<and> (cons \<longrightarrow> length s1 < length s) \<and>
          (pushes \<longrightarrow> vals vs1 \<noteq> [])))"

definition works :: "nat \<Rightarrow> bool \<Rightarrow> bool \<Rightarrow> ('r, 'v, 'd) step \<Rightarrow> bool" where
  "works n cons pushes p \<longleftrightarrow>
     (\<forall>s vs c. length s \<le> n \<longrightarrow> decodable s \<longrightarrow> sound_cache c \<longrightarrow> answers cons pushes s (p s vs c))"

lemma worksI:
  "(\<And>s vs c. length s \<le> n \<Longrightarrow> decodable s \<Longrightarrow> sound_cache c \<Longrightarrow> answers cons pushes s (p s vs c)) \<Longrightarrow>
     works n cons pushes p"
  by (simp add: works_def)

lemma worksD: "works n cons pushes p \<Longrightarrow> length s \<le> n \<Longrightarrow> decodable s \<Longrightarrow> sound_cache c \<Longrightarrow> answers cons pushes s (p s vs c)"
  by (simp add: works_def)

lemma answers_Inr [simp]:
  "answers cons pushes s (Inr (None, c)) \<longleftrightarrow> sound_cache c"
  "answers cons pushes s (Inr (Some (s1, vs1), c)) \<longleftrightarrow>
     sound_cache c \<and> decodable s1 \<and> length s1 \<le> length s \<and> (cons \<longrightarrow> length s1 < length s) \<and> (pushes \<longrightarrow> vals vs1 \<noteq> [])"
  by (auto simp: answers_def)

lemma answers_rbind:
  assumes "answers cons pushes s Q"
    and "\<And>c. sound_cache c \<Longrightarrow> answers cons' pushes' s' (k (None, c))"
    and "\<And>s1 vs1 c. sound_cache c \<Longrightarrow> decodable s1 \<Longrightarrow> length s1 \<le> length s \<Longrightarrow> (cons \<longrightarrow> length s1 < length s) \<Longrightarrow>
      (pushes \<longrightarrow> vals vs1 \<noteq> []) \<Longrightarrow> answers cons' pushes' s' (k (Some (s1, vs1), c))"
  shows "answers cons' pushes' s' (rbind Q k)"
proof -
  obtain r c where "Q = Inr (r, c)" using assms(1) by (auto simp: answers_def)
  with assms show ?thesis by (cases r) auto
qed

lemma answers_weaken: "answers cons pushes s Q \<Longrightarrow> length s \<le> length s' \<Longrightarrow> answers False False s' Q"
  by (fastforce simp: answers_def)

lemma answers_longer:
  assumes "answers False False s1 Q" and "length s1 \<le> length s" and "cons \<longrightarrow> length s1 < length s"
  shows "answers cons False s Q"
proof -
  obtain r c where "Q = Inr (r, c)" using assms(1) by (auto simp: answers_def)
  with assms show ?thesis by (cases r) auto
qed

lemma answers_mono:
  "answers cons pushes s Q \<Longrightarrow> (cons' \<longrightarrow> cons) \<Longrightarrow> (pushes' \<longrightarrow> pushes) \<Longrightarrow> answers cons' pushes' s Q"
  unfolding answers_def by blast

lemma works_mono: "works n cons pushes p \<Longrightarrow> (cons' \<longrightarrow> cons) \<Longrightarrow> (pushes' \<longrightarrow> pushes) \<Longrightarrow> works n cons' pushes' p"
  unfolding works_def by (blast intro: answers_mono)

lemma works_shorter: "works n cons pushes p \<Longrightarrow> m \<le> n \<Longrightarrow> works m cons pushes p"
  by (simp add: works_def)

subsection \<open>The loops\<close>

text \<open>Operators that consume text when they succeed; every rule does.\<close>

fun consumes :: "'r ope \<Rightarrow> bool" where
  "consumes (Sequence opes) = list_ex consumes opes"
| "consumes (PrioritizedChoice opes) = list_all consumes opes"
| "consumes (Repetition ope mn mx) = (0 < mn \<and> consumes ope)"
| "consumes (LiteralString lit) = (lit \<noteq> [])"
| "consumes (TokenBoundary ope) = consumes ope"
| "consumes (Parameter i) = False"
| "consumes (PrecedenceClimbing atom binop info r) = False"
| "consumes ope = True"

text \<open>The operators of a sequence that can be reached before text is consumed.\<close>

fun left_part :: "'r ope list \<Rightarrow> 'r ope list" where
  "left_part [] = []"
| "left_part (ope # opes) = ope # (if consumes ope then [] else left_part opes)"

lemma run_all_later:
  assumes "\<And>ope. ope \<in> set opes \<Longrightarrow> works n (consumes ope) False (p ope)"
  shows "length s \<le> n \<Longrightarrow> decodable s \<Longrightarrow> sound_cache c \<Longrightarrow> answers (list_ex consumes opes) False s (run_all p opes s vs c)"
  using assms
proof (induction opes arbitrary: s vs c)
  case (Cons ope opes)
  have "answers (consumes ope \<or> list_ex consumes opes) False s (run_all p opes s1 vs1 c1)"
    if "sound_cache c1" "decodable s1" "length s1 \<le> length s" "consumes ope \<longrightarrow> length s1 < length s" for s1 vs1 c1
    using Cons.IH [of s1 c1 vs1] Cons.prems that by (fastforce simp: answers_def)
  with Cons.prems show ?case
    by (auto intro!: answers_rbind [OF worksD [OF Cons.prems(4)]])
qed simp

lemma run_all_works:
  assumes "\<And>ope. ope \<in> set (left_part opes) \<Longrightarrow> works n (consumes ope) False (p ope)"
    and "\<And>ope m. ope \<in> set opes \<Longrightarrow> m < n \<Longrightarrow> works m (consumes ope) False (p ope)"
  shows "length s \<le> n \<Longrightarrow> decodable s \<Longrightarrow> sound_cache c \<Longrightarrow> answers (list_ex consumes opes) False s (run_all p opes s vs c)"
  using assms
proof (induction opes arbitrary: s vs c)
  case (Cons ope opes)
  have "answers (consumes ope \<or> list_ex consumes opes) False s (run_all p opes s1 vs1 c1)"
    if "sound_cache c1" "decodable s1" "length s1 \<le> length s" "consumes ope \<longrightarrow> length s1 < length s" for s1 vs1 c1
  proof (cases "consumes ope")
    case True
    with that Cons.prems(1) have "length s1 < n" by simp
    then have "answers (list_ex consumes opes) False s1 (run_all p opes s1 vs1 c1)"
      using that Cons.prems(5) by (intro run_all_later [where n = "length s1"]) auto
    with that True show ?thesis by (fastforce simp: answers_def)
  next
    case False
    with Cons.IH [of s1 c1 vs1] Cons.prems that show ?thesis by (fastforce simp: answers_def)
  qed
  with Cons.prems show ?case
    by (auto intro!: answers_rbind [OF worksD [OF Cons.prems(4)]])
qed simp

lemma run_first_works:
  assumes "\<And>ope. ope \<in> set opes \<Longrightarrow> works n (consumes ope) False (p ope)"
  shows "works n (list_all consumes opes) False (run_first p opes)"
  using assms
proof (induction opes)
  case Nil
  then show ?case by (auto intro: worksI)
next
  case (Cons ope opes)
  then have tail: "works n (list_all consumes opes) False (run_first p opes)" by simp
  show ?case
  proof (rule worksI, goal_cases)
    case s: (1 s vs c)
    have "answers (consumes ope \<and> list_all consumes opes) False s (run_first p opes s vs c1)" if "sound_cache c1" for c1
      using worksD [OF tail s(1,2) that] by (fastforce simp: answers_def)
    with s Cons.prems show ?case
      by (auto intro!: answers_rbind [OF worksD [OF Cons.prems]])
  qed
qed

lemma run_times_works:
  assumes p: "works n cons False p"
  shows "works n (0 < k \<and> cons) False (run_times p k)"
proof (induction k)
  case 0
  then show ?case by (auto intro: worksI)
next
  case (Suc k)
  show ?case
  proof (rule worksI, goal_cases)
    case s: (1 s vs c)
    have "answers cons False s (run_times p k s1 vs1 c1)"
      if "sound_cache c1" "decodable s1" "length s1 \<le> length s" "cons \<longrightarrow> length s1 < length s" for s1 vs1 c1
      using worksD [OF Suc, of s1 c1 vs1] that s by (fastforce simp: answers_def)
    with s show ?case
      by (auto intro!: answers_rbind [OF worksD [OF p]])
  qed
qed

lemma run_more_works:
  assumes p: "works n cons False p" and "mx = None \<longrightarrow> cons"
  shows "works n False False (run_more p mx)"
proof -
  have "answers False False s (run_more p mx s vs c)"
    if "length s \<le> n" "decodable s" "sound_cache c" "mx = None \<longrightarrow> cons" for s vs c mx
    using that
  proof (induction "case mx of Some m \<Rightarrow> m | None \<Rightarrow> length s" arbitrary: mx s vs c rule: less_induct)
    case less
    have "answers False False s (run_more p mx' s1 vs1 c1)"
      if "sound_cache c1" "decodable s1" "length s1 \<le> length s" "mx' = None \<longrightarrow> cons"
        "(case mx' of Some m \<Rightarrow> m | None \<Rightarrow> length s1) < (case mx of Some m \<Rightarrow> m | None \<Rightarrow> length s)" for mx' s1 vs1 c1
      using that less.prems(1) by (intro answers_weaken [OF less.hyps]) auto
    note smaller = this
    show ?case
    proof (cases "mx = Some 0")
      case True
      with less.prems show ?thesis by (simp add: run_more.simps)
    next
      case False
      have "answers False False s
          (case mx of Some m \<Rightarrow> run_more p (Some (m - 1)) s1 (append_values vs chvs) c1
           | None \<Rightarrow> if length s1 < length s then run_more p None s1 (append_values vs chvs) c1 else Inl StackOverflow)"
        if "sound_cache c1" "decodable s1" "length s1 \<le> length s" "cons \<longrightarrow> length s1 < length s" for s1 chvs c1
        using that False less.prems(4) by (cases mx) (auto intro!: smaller)
      with False less.prems show ?thesis
        by (subst run_more.simps) (auto intro!: answers_rbind [OF worksD [OF p]])
    qed
  qed
  with assms(2) show ?thesis by (auto intro: worksI)
qed

subsection \<open>Terminals\<close>

lemma decode_length: "fst (decode_codepoint s) \<le> length s"
proof (cases s)
  case (Cons a s1)
  have "s1 \<noteq> [] \<Longrightarrow> 2 \<le> length s" "s1 \<noteq> [] \<Longrightarrow> tl s1 \<noteq> [] \<Longrightarrow> 3 \<le> length s" "s1 \<noteq> [] \<Longrightarrow> tl s1 \<noteq> [] \<Longrightarrow> tl (tl s1) \<noteq> [] \<Longrightarrow> 4 \<le> length s"
    unfolding Cons by (cases s1; cases "tl s1"; cases "tl (tl s1)"; simp)+
  with Cons show ?thesis by (auto simp: decode_codepoint_def Let_def Suc_le_eq)
qed (simp add: decode_codepoint_def)

lemma match_class_works:
  assumes "match_class ranges negated s = Some s1" and "decodable s"
  shows "decodable s1 \<and> length s1 < length s"
proof -
  have "s \<noteq> []" and s1: "s1 = drop (fst (decode_codepoint s)) s"
    using assms(1) by (auto simp: match_class_def split: if_splits prod.splits)
  with assms(2) have "fst (decode_codepoint s) \<noteq> 0 \<and> decodable s1"
    by (simp add: decodable.simps [of s] split: if_splits)
  with s1 \<open>s \<noteq> []\<close> show ?thesis by (simp add: decode_length)
qed

lemma skip_whitespace_works:
  assumes "\<And>ope. whitespaceOpe P = Some ope \<Longrightarrow> works n False False (p ope)"
  shows "works n False False (skip_whitespace P p tb ws)"
  by (rule worksI) (auto simp: skip_whitespace_def intro: worksD [OF assms] split: option.splits)

subsection \<open>Rules\<close>

definition total_actions :: "('r, 'v, 'd) parser \<Rightarrow> bool" where
  "total_actions P \<longleftrightarrow> (\<forall>r act vs dt. action_of P r = Some act \<longrightarrow> (\<exists>v dt'. act vs dt = Inr (v, dt')))"

lemma call_action_answers:
  assumes "total_actions P"
  shows "\<exists>v c'. call_action P r vs c = Inr (v, c') \<and> cached c' = cached c"
proof (cases "action_of P r")
  case (Some act)
  with assms obtain v dt where "act vs (user c) = Inr (v, dt)"
    unfolding total_actions_def by blast
  with Some show ?thesis by (simp add: call_action_def)
qed (simp add: call_action_def)

lemma reduce_answers:
  assumes "total_actions P" and "sound_cache c"
  shows "\<exists>v c'. reduce P r vs c = Inr (v, c') \<and> sound_cache c'"
proof -
  obtain v c' where "reduce P r vs c = Inr (v, c')" "cached c' = cached c"
    using call_action_answers [OF assms(1), of r vs "c\<lparr>wraps := see_token r (token vs) (wraps c)\<rparr>"]
    by (auto simp: reduce_def)
  with assms(2) show ?thesis by (auto simp: sound_cache_def)
qed

lemma sound_remember:
  "sound_cache c \<Longrightarrow> (\<And>s1 v. x = Some (s1, v) \<Longrightarrow> decodable s1 \<and> length s1 < m) \<Longrightarrow> sound_cache (remember P (m, r) x c)"
  by (auto simp: sound_cache_def remember_def)

lemma parse_uncached_works:
  assumes P: "total_actions P" and body: "works n True False body"
  shows "works n True True (parse_uncached P r body)"
proof (rule worksI, goal_cases)
  case s: (1 s vs c)
  show ?case
    unfolding parse_uncached_def
  proof (rule answers_rbind [OF worksD [OF body s]], goal_cases)
    case (2 s1 vs1 c1)
    then obtain v c2 where "reduce P r (vs1\<lparr>sv := take (length s - length s1) s\<rparr>) c1 = Inr (v, c2)" "sound_cache c2"
      using reduce_answers [OF P] by blast
    with 2 show ?case by (auto intro: sound_remember simp: push_value_def)
  qed (auto intro: sound_remember)
qed

lemma parse_holder_works:
  assumes P: "total_actions P" and body: "works n True False body"
  shows "works n True True (parse_holder P r body)"
proof (rule worksI, goal_cases)
  case s: (1 s vs c)
  have hit: "decodable s1 \<and> length s1 < length s" if "map_of (cached c) (length s, r) = Some (Some (s1, v))" for s1 v
    using s(3) map_of_SomeD [OF that] by (fastforce simp: sound_cache_def)
  show ?case
    using s worksD [OF parse_uncached_works [OF P body] s]
    by (auto simp: parse_holder_def push_value_def split: option.splits dest: hit)
qed

subsection \<open>Climbing\<close>

lemma climb_right_works:
  assumes P: "total_actions P" and pexp: "works n True True pexp"
  shows "works n True False (climb_right P rule pexp start)"
proof (rule worksI, goal_cases)
  case s: (1 s vs c)
  show ?case
    unfolding climb_right_def
  proof (rule answers_rbind [OF worksD [OF pexp s]], goal_cases)
    case (2 s1 vs1 c1)
    then obtain arg2 where arg2: "value_at vs1 0 = Inr arg2" by (auto simp: value_at_def)
    let ?vs = "(push_value arg2 vs)\<lparr>sv := take (length start - length s1) start\<rparr>"
    obtain v c2 where "call_action P rule ?vs c1 = Inr (v, c2)" "cached c2 = cached c1"
      using call_action_answers [OF P] by blast
    with 2 arg2 show ?case by (auto simp: Let_def sound_cache_def)
  qed simp
qed

lemma climb_right_pushes:
  "climb_right P rule pexp start s vs c = Inr (Some (s1, vs1), c1) \<Longrightarrow> vals vs1 \<noteq> []"
  by (auto simp: climb_right_def rbind_eq_Inr Let_def split: option.splits)

lemma climb_operators_works:
  assumes P: "total_actions P" and pop: "works n True True pop"
    and pexp: "\<And>prec m. m < n \<Longrightarrow> works m True True (pexp prec)"
  shows "length s \<le> n \<Longrightarrow> decodable s \<Longrightarrow> sound_cache c \<Longrightarrow> vals vs \<noteq> [] \<Longrightarrow>
    answers False True s (climb_operators P rule info pop pexp min_prec start s vs c)"
proof (induction "length s" arbitrary: s vs c rule: less_induct)
  case less
  show ?case
  proof (cases "s = []")
    case True
    with less.prems show ?thesis by (simp add: climb_operators.simps)
  next
    case False
    have right: "answers False True s (rbind (climb_right P rule (pexp prec) start s1 vs1 c1) (\<lambda>(r2, c2). case r2 of
          None \<Rightarrow> Inr (None, c2)
        | Some (s2, vs2) \<Rightarrow>
            if length s2 < length s then climb_operators P rule info pop pexp min_prec start s2 vs2 c2
            else Inl StackOverflow))"
      if "length s1 < length s" "decodable s1" "sound_cache c1" for prec s1 vs1 c1
    proof -
      have "works (length s1) True False (climb_right P rule (pexp prec) start)"
        using that less.prems(1) by (intro climb_right_works P pexp) simp
      from worksD [OF this _ that(2,3), of vs1] obtain r c2 where
        r: "climb_right P rule (pexp prec) start s1 vs1 c1 = Inr (r, c2)" "sound_cache c2"
          "\<forall>s2 vs2. r = Some (s2, vs2) \<longrightarrow> decodable s2 \<and> length s2 < length s1"
        by (auto simp: answers_def)
      show ?thesis
      proof (cases r)
        case (Some x)
        obtain s2 vs2 where x: "x = (s2, vs2)" by fastforce
        have "vals vs2 \<noteq> []" by (rule climb_right_pushes [OF r(1) [unfolded Some x]])
        with r Some x that less.prems have "answers False True s2 (climb_operators P rule info pop pexp min_prec start s2 vs2 c2)"
          by (intro less.hyps) auto
        with r Some x that show ?thesis by (fastforce simp: answers_def)
      qed (use r in simp)
    qed
    show ?thesis
      using False less.prems
      by (subst climb_operators.simps)
        (auto intro!: answers_rbind [OF worksD [OF pop]] right simp: value_at_def split: option.splits)
  qed
qed

lemma climb_works:
  assumes P: "total_actions P" and atom: "works n True True patom" and pop: "\<And>m. m < n \<Longrightarrow> works m True True pop"
    and pexp: "\<And>prec m. m < n \<Longrightarrow> works m True True (pexp prec)"
  shows "works n True True (climb_frame P rule (Inr r_op) info patom pop pexp min_prec)"
proof (rule worksI, goal_cases)
  case s: (1 s vs c)
  show ?case
    unfolding climb_frame_def
  proof (rule answers_rbind [OF worksD [OF atom s]], goal_cases)
    case (2 s1 vs1 c1)
    then have "answers False True s1 (climb_operators P rule info pop pexp min_prec s s1 vs1 (c1\<lparr>wraps := (r_op, []) # wraps c1\<rparr>))"
      using s(1) by (intro climb_operators_works [where n = "length s1"] P pop pexp) (auto simp: sound_cache_def)
    with 2 show ?case by (fastforce simp: answers_def sound_cache_def)
  qed simp
qed

lemma parse_expression_works:
  assumes P: "total_actions P"
  shows "n < k \<Longrightarrow> works n True True patom \<Longrightarrow> (\<And>m. m < n \<Longrightarrow> works m True True pop) \<Longrightarrow>
    works n True True (parse_expression k P rule (Inr r_op) info patom pop min_prec)"
proof (induction k arbitrary: n min_prec)
  case (Suc k)
  have "works n True True (climb_frame P rule (Inr r_op) info patom pop (parse_expression k P rule (Inr r_op) info patom pop) min_prec)"
    using Suc.prems by (intro climb_works P Suc.IH) (auto intro: works_shorter [of n, OF Suc.prems(2)])
  then show ?case by (simp add: works_def)
qed simp

subsection \<open>Ranked grammars\<close>

text \<open>
  \<open>left_ok k ope\<close>: the references of \<open>ope\<close> that can be reached without consuming text have a rank
  below \<open>k\<close>, those behind consumed text one below \<open>K\<close>. A macro has to be an infix expression
  over two rules. \<open>height\<close> is the stack an operator needs until it comes to a rule.
\<close>

lemma left_part_subset: "ope \<in> set (left_part opes) \<Longrightarrow> ope \<in> set opes"
  by (induction opes) (auto split: if_splits)

function left_ok :: "('r \<Rightarrow> 'r peg_rule) \<Rightarrow> ('r \<Rightarrow> nat) \<Rightarrow> nat \<Rightarrow> nat \<Rightarrow> 'r ope \<Rightarrow> bool" where
  "left_ok G rank K k (Sequence opes) \<longleftrightarrow>
     (\<forall>ope \<in> set (left_part opes). left_ok G rank K k ope) \<and> (\<forall>ope \<in> set opes. left_ok G rank K K ope)"
| "left_ok G rank K k (PrioritizedChoice opes) \<longleftrightarrow> (\<forall>ope \<in> set opes. left_ok G rank K k ope)"
| "left_ok G rank K k (Repetition ope mn mx) \<longleftrightarrow> left_ok G rank K k ope \<and> (mx = None \<longrightarrow> consumes ope)"
| "left_ok G rank K k (LiteralString lit) \<longleftrightarrow> ascii lit"
| "left_ok G rank K k (Dictionary items) \<longleftrightarrow> list_all ascii items"
| "left_ok G rank K k (CharacterClass ranges negated) \<longleftrightarrow> True"
| "left_ok G rank K k (TokenBoundary ope) \<longleftrightarrow> left_ok G rank K k ope"
| "left_ok G rank K k (Reference r as) \<longleftrightarrow>
     (if is_macro (G r)
      then (\<exists>info rule. core (G r) = PrecedenceClimbing (Parameter 0) (Parameter 1) info rule) \<and>
        (\<exists>a b. as = [Reference a [], Reference b []] \<and> rank a < k \<and> \<not> is_macro (G a) \<and> \<not> is_macro (G b))
      else as = [] \<and> rank r < k)"
| "left_ok G rank K k (Parameter i) \<longleftrightarrow> False"
| "left_ok G rank K k (PrecedenceClimbing atom binop info r) \<longleftrightarrow> False"
  by pat_completeness auto

termination
  by (relation "measure (\<lambda>(G, rank, K, k, ope). size ope)")
    (auto dest!: left_part_subset simp: less_Suc_eq_le size_list_estimation')

fun height :: "'r ope \<Rightarrow> nat" where
  "height (Sequence opes) = Suc (foldr max (map height opes) 0)"
| "height (PrioritizedChoice opes) = Suc (foldr max (map height opes) 0)"
| "height (Repetition ope mn mx) = Suc (height ope)"
| "height (LiteralString lit) = 3"
| "height (Dictionary items) = 3"
| "height (TokenBoundary ope) = Suc (max (height ope) 2)"
| "height (Reference r as) = (if as = [] then 1 else 4)"
| "height ope = 1"

lemma height_pos: "0 < height ope"
  by (cases ope) auto

lemma height_member: "ope \<in> set opes \<Longrightarrow> height ope \<le> foldr max (map height opes) 0"
  by (induction opes) auto

locale ranked_grammar =
  fixes P :: "('r, 'v, 'd) parser" and rank :: "'r \<Rightarrow> nat" and K H :: nat
  assumes total: "total_actions P"
    and ranks: "rank r < K"
    and rules: "\<not> is_macro (rule_of P r) \<Longrightarrow>
      left_ok (rule_of P) rank K (rank r) (core (rule_of P r)) \<and> consumes (core (rule_of P r)) \<and> height (core (rule_of P r)) \<le> H"
    and spaces: "whitespaceOpe P = Some ope \<Longrightarrow> left_ok (rule_of P) rank K 0 ope \<and> height ope \<le> 2"
begin

abbreviation ok :: "nat \<Rightarrow> 'r ope \<Rightarrow> bool" where
  "ok \<equiv> left_ok (rule_of P) rank K"

text \<open>The stack for an operator on texts up to the length \<open>n\<close>.\<close>

abbreviation stack :: "nat \<Rightarrow> nat \<Rightarrow> nat" where
  "stack n k \<equiv> (n * K + k) * H"

lemma stack_less: "k' < k \<Longrightarrow> stack n k' + H \<le> stack n k"
  by (metis add_mult_distrib add_le_mono1 mult_1 mult_le_mono1 add.assoc nat_add_left_cancel_le Suc_eq_plus1 Suc_leI)

lemma stack_shorter: "m < n \<Longrightarrow> stack m K \<le> stack n k"
proof -
  assume "m < n"
  then have "m * K + K \<le> n * K"
    by (metis Suc_leI add.commute mult_Suc mult_le_mono1)
  then show ?thesis by (intro mult_le_mono1) simp
qed

definition pushes :: "'r ope \<Rightarrow> bool" where
  "pushes ope \<longleftrightarrow> (\<exists>r. ope = Reference r [] \<and> \<not> is_macro (rule_of P r))"

lemma parse_works:
  "ok k ope \<Longrightarrow> k \<le> K \<Longrightarrow> stack n k + height ope \<le> d \<Longrightarrow> works n (consumes ope) (pushes ope) (parse d P args tb ws ope)"
proof (induction d arbitrary: n k ope args tb ws rule: less_induct)
  case (less d0)
  obtain d where d0: "d0 = Suc d"
    using less.prems(3) height_pos [of ope] by (cases d0) auto
  note prems = less.prems [unfolded d0]
  have IH: "works n (consumes ope) False (parse d P args tb ws ope)"
    if "ok k ope" "k \<le> K" "stack n k + height ope \<le> d" for n k ope args tb ws
    by (rule works_mono [OF less.IH [OF _ that]]) (simp_all add: d0)
  have later: "works m (consumes ope) False (parse d P args tb ws ope)"
    if "ok K ope" "stack n k + height ope \<le> d" "m < n" for m n k ope args tb ws
    by (rule IH [OF that(1) order_refl order_trans [OF add_right_mono [OF stack_shorter [OF that(3)]] that(2)]])
  have skip: "answers False False s (skip_whitespace P (parse d P args tb' True) tb ws s vs c)"
    if "stack n k + 2 \<le> d" "length s \<le> n" "decodable s" "sound_cache c" for n k args tb tb' ws s vs c
  proof (rule worksD [OF skip_whitespace_works that(2-4)])
    fix ope assume "whitespaceOpe P = Some ope"
    then have ope: "ok 0 ope" "height ope \<le> 2" using spaces by auto
    have "stack n 0 \<le> stack n k" by (intro mult_le_mono1) simp
    have "works n (consumes ope) False (parse d P args tb' True ope)"
      by (rule IH [OF ope(1) le0 order_trans [OF add_mono [OF \<open>stack n 0 \<le> stack n k\<close> ope(2)] that(1)]])
    then show "works n False False (parse d P args tb' True ope)" by (rule works_mono) auto
  qed
  have "works n (consumes ope) (pushes ope) (parse (Suc d) P args tb ws ope)"
  proof (cases ope)
    case (Sequence opes)
    have left: "works n (consumes o1) False (parse d P args tb ws o1)" if "o1 \<in> set (left_part opes)" for o1
      using prems Sequence that height_member [OF left_part_subset [OF that]] by (intro IH [of k]) auto
    have right: "works m (consumes o1) False (parse d P args tb ws o1)" if "o1 \<in> set opes" "m < n" for o1 m
      using prems Sequence that height_member [of o1 opes] by (intro later [of _ n k]) auto
    have all: "works n (list_ex consumes opes) False (run_all (parse d P args tb ws) opes)"
      by (rule worksI, rule run_all_works [OF left right])
    show ?thesis
      unfolding Sequence
      by (auto simp: pushes_def intro!: worksI answers_rbind [OF worksD [OF all]])
  next
    case (PrioritizedChoice opes)
    have "works n (consumes o1) False (parse d P args tb ws o1)" if "o1 \<in> set opes" for o1
      using prems PrioritizedChoice that height_member [OF that] by (intro IH [of k]) auto
    then have "works n (list_all consumes opes) False (run_first (parse d P args tb ws) opes)"
      by (rule run_first_works)
    then show ?thesis
      unfolding PrioritizedChoice by (auto simp: pushes_def works_def)
  next
    case (Repetition o1 mn mx)
    have one: "works n (consumes o1) False (parse d P args tb ws o1)"
      using prems Repetition by (intro IH [of k]) auto
    have "mx = None \<longrightarrow> consumes o1" using prems(1) Repetition by simp
    then have more: "works n False False (run_more (parse d P args tb ws o1) (map_option (\<lambda>m. m - mn) mx))"
      by (intro run_more_works [OF one]) auto
    show ?thesis
      unfolding Repetition
    proof (rule worksI, goal_cases)
      case s: (1 s vs c)
      have "answers (0 < mn \<and> consumes o1) False s (run_more (parse d P args tb ws o1) (map_option (\<lambda>m. m - mn) mx) s1 vs1 c1)"
        if "sound_cache c1" "decodable s1" "length s1 \<le> length s" "0 < mn \<and> consumes o1 \<longrightarrow> length s1 < length s" for s1 vs1 c1
        using worksD [OF more, of s1 c1 vs1] that s by (fastforce simp: answers_def)
      note after = this
      show ?case
        unfolding parse.simps consumes.simps
      proof (rule answers_rbind [OF worksD [OF run_times_works [OF one] s]], goal_cases)
        case (2 s1 vs1 c1)
        with after [of c1 s1 vs1] show ?case by (simp add: pushes_def)
      qed (simp add: pushes_def)
    qed
  next
    case (LiteralString lit)
    have "answers (lit \<noteq> []) False s (skip_whitespace P (parse d P args tb True) tb ws s1 vs c)"
      if "length s \<le> n" "decodable s" "sound_cache c" "s = lit @ s1" for s s1 vs c
    proof -
      have "decodable s1" using that prems(1) LiteralString by (simp add: decodable_append)
      with that prems(3) LiteralString have "answers False False s1 (skip_whitespace P (parse d P args tb True) tb ws s1 vs c)"
        by (intro skip [of n k]) auto
      then show ?thesis by (rule answers_longer) (use that in auto)
    qed
    then show ?thesis
      unfolding LiteralString by (auto simp: pushes_def match_literal_Some intro!: worksI split: option.splits)
  next
    case (Dictionary items)
    have "answers True False s (skip_whitespace P (parse d P args tb True) tb ws (drop (trie_match items s) s) vs c)"
      if s: "length s \<le> n" "decodable s" "sound_cache c" "0 < trie_match items s" for s vs c
    proof -
      obtain item s1 where item: "item \<in> set items" "trie_match items s = length item" "s = item @ s1"
        using trie_match_cases [of items s] s(4) by auto
      then have "decodable s1" using s prems(1) Dictionary by (simp add: decodable_append list_all_iff)
      with s item prems(3) Dictionary have "answers False False s1 (skip_whitespace P (parse d P args tb True) tb ws s1 vs c)"
        by (intro skip [of n k]) auto
      with item have "answers False False s1 (skip_whitespace P (parse d P args tb True) tb ws (drop (trie_match items s) s) vs c)"
        by simp
      then show ?thesis by (rule answers_longer) (use s item in auto)
    qed
    then show ?thesis
      unfolding Dictionary by (auto simp: pushes_def Let_def intro!: worksI)
  next
    case (CharacterClass ranges negated)
    then show ?thesis
      by (auto simp: pushes_def answers_def dest: match_class_works intro!: worksI less_imp_le)
  next
    case (TokenBoundary o1)
    have one: "works n (consumes o1) False (parse d P args (Suc tb) ws o1)"
      using prems TokenBoundary by (intro IH [of k]) auto
    show ?thesis
      unfolding TokenBoundary
    proof (rule worksI, goal_cases)
      case s: (1 s vs c)
      have "answers (consumes o1) False s (skip_whitespace P (parse d P args tb True) tb ws s1 vs1 c1)"
        if "sound_cache c1" "decodable s1" "length s1 \<le> length s" "consumes o1 \<longrightarrow> length s1 < length s" for s1 vs1 c1
      proof -
        have "answers False False s1 (skip_whitespace P (parse d P args tb True) tb ws s1 vs1 c1)"
          using that s prems(3) TokenBoundary by (intro skip [of n k]) auto
        then show ?thesis by (rule answers_longer) (use that in auto)
      qed
      note after = this
      show ?case
        unfolding parse.simps consumes.simps
      proof (rule answers_rbind [OF worksD [OF one s]], goal_cases)
        case (2 s1 vs1 c1)
        with after [of c1 s1 "push_token (take (length s - length s1) s) vs1"] show ?case by (simp add: pushes_def)
      qed (simp add: pushes_def)
    qed
  next
    case (Reference r as)
    show ?thesis
    proof (cases "is_macro (rule_of P r)")
      case False
      with prems(1) Reference have as: "as = []" "rank r < k" by auto
      with prems(3) Reference have "stack n (rank r) + height (core (rule_of P r)) \<le> d"
        using stack_less [OF as(2), of n] rules [OF False] by simp
      then have "works n True False (parse d P [] tb ws (core (rule_of P r)))"
        using IH [of "rank r" "core (rule_of P r)" n "[]" tb ws] rules [OF False] ranks [of r] by simp
      from parse_holder_works [OF total this] show ?thesis
        unfolding Reference as(1) using False by (auto simp: pushes_def works_def)
    next
      case True
      with prems(1) Reference obtain a b info rule where as: "as = [Reference a [], Reference b []]"
        and r: "core (rule_of P r) = PrecedenceClimbing (Parameter 0) (Parameter 1) info rule"
        and ab: "rank a < k" "\<not> is_macro (rule_of P a)" "\<not> is_macro (rule_of P b)"
        by auto
      from prems(3) Reference as obtain d2 where d: "d = Suc (Suc d2)" and d2: "stack n k + 1 \<le> d2"
        by (intro that [of "d - 2"]) auto
      let ?args = "[Reference a [], Reference b []]"
      have atom: "works n True True (parse (Suc d2) P ?args tb ws (Parameter 0))"
        using less.IH [of d2 k "Reference a []" n ?args tb ws] d2 prems(2) ab by (simp add: d0 d pushes_def works_def)
      have pop: "works m True True (parse (Suc d2) P ?args tb ws (Parameter 1))" if "m < n" for m
        using less.IH [of d2 K "Reference b []" m ?args tb ws] d2 stack_shorter [OF that, of k] ab ranks [of b]
        by (simp add: d0 d pushes_def works_def)
      have "0 < H" using rules [OF ab(2)] height_pos [of "core (rule_of P a)"] by linarith
      moreover have "0 < K" using ranks [of a] by simp
      ultimately have "n \<le> n * K * H" by simp
      also have "\<dots> \<le> stack n k" by (intro mult_le_mono1) simp
      finally have "n < Suc d2" using d2 by simp
      from parse_expression_works [OF total this atom pop, of rule b info 0]
      have "works n True False (parse_expression (Suc d2) P rule (Inr b) info (parse (Suc d2) P ?args tb ws (Parameter 0))
          (parse (Suc d2) P ?args tb ws (Parameter 1)) 0)"
        by (rule works_mono) simp_all
      then show ?thesis
        unfolding Reference as d using True r
        by (simp add: pushes_def works_def binop_rule_def del: parse_expression.simps)
    qed
  qed (use prems in auto)
  then show ?case by (simp add: d0)
qed

theorem run_answers:
  assumes "decodable s" and "stack (length s) K + 2 \<le> d" and "\<not> is_macro (rule_of P start)"
  shows "\<exists>ok dt'. parse_core d P start s dt = Inr (ok, dt')"
proof -
  have start: "works (length s) True True (parse d P [] 0 False (Reference start []))"
    using parse_works [of K "Reference start []" "length s" d "[]" 0 False] assms(2,3) ranks [of start]
    by (simp add: pushes_def)
  have spaces_work: "works (length s) False False (skip_whitespace P (parse d P [] 0 True) 0 False)"
  proof (rule skip_whitespace_works)
    fix ope assume "whitespaceOpe P = Some ope"
    then have ope: "ok 0 ope" "height ope \<le> 2" using spaces by auto
    have "stack (length s) 0 \<le> stack (length s) K" by (intro mult_le_mono1) simp
    have "works (length s) (consumes ope) (pushes ope) (parse d P [] 0 True ope)"
      by (rule parse_works [OF ope(1) le0
          order_trans [OF add_mono [OF \<open>stack (length s) 0 \<le> stack (length s) K\<close> ope(2)] assms(2)]])
    then show "works (length s) False False (parse d P [] 0 True ope)" by (rule works_mono) auto
  qed
  let ?c = "\<lparr>user = dt, cached = [], wraps = []\<rparr> :: ('r, 'v, 'd) peg_state"
  have "answers False False s (skip_whitespace P (parse d P [] 0 True) 0 False s no_values ?c)"
    by (rule worksD [OF spaces_work order_refl assms(1)]) (simp add: sound_cache_def)
  then obtain r c1 where r: "skip_whitespace P (parse d P [] 0 True) 0 False s no_values ?c = Inr (r, c1)" "sound_cache c1"
    "\<And>s1 vs1. r = Some (s1, vs1) \<Longrightarrow> decodable s1 \<and> length s1 \<le> length s"
    unfolding answers_def by blast
  show ?thesis
  proof (cases r)
    case (Some x)
    obtain s1 vs1 where "x = (s1, vs1)" by fastforce
    with Some r worksD [OF start, of s1 c1 vs1] show ?thesis
      by (auto simp: parse_core_def run_parser_def answers_def)
  qed (use r in \<open>auto simp: parse_core_def run_parser_def\<close>)
qed

end

end
