(* ===== verification/Constraint_Checker.thy ===== *)
theory Constraint_Checker
  imports Constraint_Actions Replay Peg_Progress
begin

section \<open>The constraint checker\<close>

text \<open>
  \<open>ConstraintChecker::validate\<close> of \<open>constraint_checking.cpp\<close>: the grammar of constraint
  expressions, the table of its actions and the run of the parser on a constraint. The grammar is the
  structure the generator of the parser builds from the text: rules of literals only become tokens, since
  the grammar skips whitespace, and the macro \<open>INFIX_EXPRESSION\<close> with its precedence
  instruction becomes a precedence climbing.
\<close>

subsection \<open>The grammar\<close>

datatype rule =
    PROGRAM | IF_STATEMENT | THEN_STATEMENT | LOGICAL_EXPRESSION | EXPRESSION | MUST_FUNC | COUNT_FUNC
  | EXISTS_FUNC | XPATH_FUNC_FAMILY | XPATH_FUNC | XPATH_VALUE_FUNC | XPATH_ANY_FUNC | XPATH_ALL_FUNC
  | XPATH_MATCH_REGEX_FUNC | XPATH_KEY_BASED_FUNC | XPATH_KEY_REGEX_REPLACE_FUNC
  | XPATH_VALUE_KEY_REGEX_REPLACE_FUNC | PRINT_FUNC | Additive | Subtractive | Multitive | Divisive | PRIMARY
  | REFERENCE_RULE | RELATIVE_OPERATOR | STRING_RULE | NUMBER_RULE | BOOLEAN | INFIX_EXPRESSION

abbreviation ref :: "rule \<Rightarrow> rule ope" where
  "ref r \<equiv> Reference r []"

abbreviation comparison :: "rule ope" where
  "comparison \<equiv> Reference INFIX_EXPRESSION [ref LOGICAL_EXPRESSION, ref RELATIVE_OPERATOR]"

abbreviation quote_char :: char where
  "quote_char \<equiv> CHR 0x27"

fun syntax_of :: "rule \<Rightarrow> rule ope" where
  "syntax_of PROGRAM = PrioritizedChoice [ref IF_STATEMENT, ref EXPRESSION, ref LOGICAL_EXPRESSION]"
| "syntax_of IF_STATEMENT =
     Sequence [LiteralString ''if'', LiteralString ''('', comparison, LiteralString '')'', ref THEN_STATEMENT,
       ref EXPRESSION, Repetition (Sequence [LiteralString ''else'', ref EXPRESSION]) 0 (Some 1)]"
| "syntax_of THEN_STATEMENT = TokenBoundary (LiteralString ''then'')"
| "syntax_of LOGICAL_EXPRESSION =
     PrioritizedChoice [ref MUST_FUNC, ref COUNT_FUNC, ref EXISTS_FUNC, ref XPATH_FUNC_FAMILY, ref STRING_RULE,
       ref NUMBER_RULE, ref BOOLEAN]"
| "syntax_of EXPRESSION =
     PrioritizedChoice [ref Additive, ref MUST_FUNC, ref COUNT_FUNC, ref EXISTS_FUNC, ref XPATH_FUNC_FAMILY,
       ref PRINT_FUNC, ref PRIMARY]"
| "syntax_of MUST_FUNC = Sequence [LiteralString ''must'', LiteralString ''('', comparison, LiteralString '')'']"
| "syntax_of COUNT_FUNC = Sequence [LiteralString ''count'', LiteralString ''('', ref XPATH_FUNC_FAMILY, LiteralString '')'']"
| "syntax_of EXISTS_FUNC = Sequence [LiteralString ''exists'', LiteralString ''('', ref XPATH_FUNC_FAMILY, LiteralString '')'']"
| "syntax_of XPATH_FUNC_FAMILY =
     PrioritizedChoice [ref XPATH_FUNC, ref XPATH_VALUE_FUNC, ref XPATH_ALL_FUNC, ref XPATH_ANY_FUNC,
       ref XPATH_MATCH_REGEX_FUNC, ref XPATH_KEY_BASED_FUNC, ref XPATH_KEY_REGEX_REPLACE_FUNC,
       ref XPATH_VALUE_KEY_REGEX_REPLACE_FUNC]"
| "syntax_of XPATH_FUNC =
     Sequence [LiteralString ''xpath'', LiteralString ''('', PrioritizedChoice [ref STRING_RULE, ref REFERENCE_RULE], LiteralString '')'']"
| "syntax_of XPATH_VALUE_FUNC =
     Sequence [LiteralString ''xpath_value'', LiteralString ''('', PrioritizedChoice [ref STRING_RULE, ref REFERENCE_RULE], LiteralString '')'']"
| "syntax_of XPATH_ANY_FUNC = Sequence [LiteralString ''xpath_any'', LiteralString ''('', ref STRING_RULE, LiteralString '')'']"
| "syntax_of XPATH_ALL_FUNC = Sequence [LiteralString ''xpath_all'', LiteralString ''('', ref STRING_RULE, LiteralString '')'']"
| "syntax_of XPATH_MATCH_REGEX_FUNC =
     Sequence [LiteralString ''xpath_match_regex'', LiteralString ''('', ref STRING_RULE,
       Repetition (Sequence [LiteralString '','', ref STRING_RULE]) 2 (Some 2), LiteralString '')'']"
| "syntax_of XPATH_KEY_BASED_FUNC =
     Sequence [LiteralString ''xpath_key_based'', LiteralString ''('', ref STRING_RULE, LiteralString '','', ref STRING_RULE,
       LiteralString '')'']"
| "syntax_of XPATH_KEY_REGEX_REPLACE_FUNC =
     Sequence [LiteralString ''xpath_key_regex_replace'', LiteralString ''('', ref STRING_RULE, LiteralString '','',
       ref STRING_RULE, LiteralString '')'']"
| "syntax_of XPATH_VALUE_KEY_REGEX_REPLACE_FUNC =
     Sequence [LiteralString ''xpath_value_key_regex_replace'', LiteralString ''('', ref STRING_RULE, LiteralString '','',
       ref STRING_RULE, LiteralString '')'']"
| "syntax_of PRINT_FUNC = Sequence [LiteralString ''print'', LiteralString ''('', ref EXPRESSION, LiteralString '')'']"
| "syntax_of Additive =
     PrioritizedChoice [Sequence [ref Multitive, LiteralString ''+'', ref Additive],
       Sequence [ref Divisive, LiteralString ''+'', ref Additive], ref Subtractive]"
| "syntax_of Subtractive =
     PrioritizedChoice [Sequence [ref Multitive, LiteralString ''-'', ref Subtractive],
       Sequence [ref Divisive, LiteralString ''-'', ref Subtractive], ref Multitive, ref Divisive]"
| "syntax_of Multitive = PrioritizedChoice [Sequence [ref PRIMARY, LiteralString ''*'', ref Multitive], ref PRIMARY]"
| "syntax_of Divisive = PrioritizedChoice [Sequence [ref PRIMARY, LiteralString ''/'', ref Divisive], ref PRIMARY]"
| "syntax_of PRIMARY =
     PrioritizedChoice [Sequence [LiteralString ''('', ref EXPRESSION, LiteralString '')''], ref STRING_RULE, ref NUMBER_RULE,
       ref BOOLEAN]"
| "syntax_of REFERENCE_RULE = TokenBoundary (LiteralString ''@'')"
| "syntax_of RELATIVE_OPERATOR = TokenBoundary (Dictionary [''=='', ''<>''])"
| "syntax_of STRING_RULE =
     Sequence [LiteralString [quote_char], TokenBoundary (Repetition (CharacterClass [(39, 39)] True) 0 None),
       LiteralString [quote_char]]"
| "syntax_of NUMBER_RULE =
     TokenBoundary (Sequence [Repetition (LiteralString ''-'') 0 (Some 1), Repetition (CharacterClass [(48, 57)] False) 1 None])"
| "syntax_of BOOLEAN = TokenBoundary (PrioritizedChoice [LiteralString ''true'', LiteralString ''false''])"
| "syntax_of INFIX_EXPRESSION =
     PrecedenceClimbing (Parameter 0) (Parameter 1) [(''=='', 1, CHR ''L''), (''<>'', 1, CHR ''L'')] INFIX_EXPRESSION"

definition whitespace :: "rule ope" where
  "whitespace = Repetition (CharacterClass [(32, 32), (9, 9), (13, 13), (10, 10)] False) 0 None"

subsection \<open>The actions\<close>

fun action_table :: "rule \<Rightarrow> handler option" where
  "action_table BOOLEAN = Some BooleanHandle"
| "action_table COUNT_FUNC = Some CountHandle"
| "action_table EXISTS_FUNC = Some ExistsHandle"
| "action_table INFIX_EXPRESSION = Some InfixExpressionHandle"
| "action_table MUST_FUNC = Some MustHandle"
| "action_table NUMBER_RULE = Some NumberHandle"
| "action_table REFERENCE_RULE = Some ReferenceHandle"
| "action_table RELATIVE_OPERATOR = Some RelativeOperatorHandle"
| "action_table STRING_RULE = Some StringHandle"
| "action_table THEN_STATEMENT = Some ThenStatementHandle"
| "action_table XPATH_FUNC = Some XPathHandle"
| "action_table XPATH_KEY_BASED_FUNC = Some XPathKeyBasedHandle"
| "action_table XPATH_KEY_REGEX_REPLACE_FUNC = Some XPathKeyRegexReplaceHandle"
| "action_table XPATH_MATCH_REGEX_FUNC = Some XPathMatchRegexHandle"
| "action_table XPATH_ALL_FUNC = Some XPathAllHandle"
| "action_table XPATH_ANY_FUNC = Some XPathAnyHandle"
| "action_table XPATH_VALUE_FUNC = Some XPathValueHandle"
| "action_table XPATH_VALUE_KEY_REGEX_REPLACE_FUNC = Some XPathValueKeyRegexReplaceHandle"
| "action_table _ = None"

definition constraint_parser :: "(rule, any, Argument) parser" where
  "constraint_parser =
     \<lparr>rule_of = (\<lambda>r. \<lparr>core = syntax_of r, is_macro = (r = INFIX_EXPRESSION)\<rparr>), action_of = action_table,
      whitespaceOpe = Some whitespace, packrat = True, empty_any = AEmpty\<rparr>"

subsection \<open>Validation\<close>

text \<open>
  What the parser answers is not used: the flag of the argument decides, whether the text was parsed or not.
\<close>

definition validate :: "nat \<Rightarrow> (string \<Rightarrow> schema_node option result) \<Rightarrow> regex \<Rightarrow>
    (string \<Rightarrow> string \<Rightarrow> string option result) \<Rightarrow> node \<Rightarrow> handle \<Rightarrow> string \<Rightarrow> bool result" where
  "validate d config_mngr rx_match rx_search root_config node_to_validate constraint_definition =
     rbind (parse_core d constraint_parser PROGRAM constraint_definition
       \<lparr>ConfigMngr = config_mngr, Match = rx_match, Search = rx_search, RootNodeConfig = root_config,
        CurrentProcessingNode = node_to_validate, ContinueProcessing = True, ExpressionResult = False\<rparr>) (\<lambda>(ok, a).
       Inr (ExpressionResult a))"

subsection \<open>Every constraint is decided\<close>

text \<open>The grammar is ranked, so the recorded run of every text has an answer.\<close>

fun rule_rank :: "rule \<Rightarrow> nat" where
  "rule_rank PROGRAM = 6"
| "rule_rank EXPRESSION = 5"
| "rule_rank Additive = 4"
| "rule_rank Subtractive = 3"
| "rule_rank Multitive = 2"
| "rule_rank Divisive = 2"
| "rule_rank LOGICAL_EXPRESSION = 2"
| "rule_rank PRIMARY = 1"
| "rule_rank XPATH_FUNC_FAMILY = 1"
| "rule_rank _ = 0"

abbreviation constraint_recorder :: "(rule, nat option, rule call list) parser" where
  "constraint_recorder \<equiv> recorder constraint_parser"

lemma constraint_parser_simps [simp]:
  "core (rule_of constraint_parser r) = syntax_of r" "is_macro (rule_of constraint_parser r) \<longleftrightarrow> r = INFIX_EXPRESSION"
  "action_of constraint_parser = action_table" "whitespaceOpe constraint_parser = Some whitespace"
  "packrat constraint_parser" "empty_any constraint_parser = AEmpty"
  by (simp_all add: constraint_parser_def)

lemma constraint_rules:
  "r \<noteq> INFIX_EXPRESSION \<Longrightarrow>
     left_ok (rule_of constraint_parser) rule_rank 7 (rule_rank r) (syntax_of r) \<and> consumes (syntax_of r) \<and> height (syntax_of r) \<le> 6"
  by (cases r) (simp_all add: ascii_def)

interpretation constraints: ranked_grammar constraint_recorder rule_rank 7 6
proof unfold_locales
  show "total_actions constraint_recorder"
    by (auto simp: total_actions_def record_action_def)
  show "rule_rank r < 7" for r by (cases r) auto
qed (use constraint_rules in \<open>auto simp: whitespace_def\<close>)

lemma recorded_run:
  assumes "decodable text" and "42 * (length text + 1) + 2 \<le> d"
  shows "\<exists>ok calls. parse_core d constraint_recorder PROGRAM text [] = Inr (ok, calls)"
  by (rule constraints.run_answers) (use assms in auto)

end
