(* ===== verification/Make_Candidate.thy ===== *)
theory Make_Candidate
  imports Candidate Constraint_Checker
begin

section \<open>The phases of making a candidate\<close>

text \<open>
  The phases of \<open>fMakeCandidateConfigInternal\<close> in their order, each on the record \<open>build\<close>, and the two
  lambdas that roll back. A loader that raises leaves the tree as it was here; in the code the part
  already loaded stays in a tree that the callers drop or that was only prepared.
\<close>

subsection \<open>What is removed\<close>

text \<open>How the loops over the patch begin: the operation and the path of the item, and its value.\<close>

definition with_item :: "json \<Rightarrow> (json \<Rightarrow> json \<Rightarrow> phase) \<Rightarrow> phase" where
  "with_item item k =
     of_result (item_op item) (\<lambda>op. of_result (item_path item) (\<lambda>path b.
       of_result (item_value item (json_config b)) (\<lambda>j b1. k op path (b1\<lparr>json_config := j\<rparr>)) b))"

definition mark_removal :: "string \<Rightarrow> phase" where
  "mark_removal xpath_node_to_remove b =
     (let xpath_tokens = XPath_parse xpath_node_to_remove in
      if xpath_tokens = [] then fail b
      else
        let nodes = fold ss_insert (path_prefixes ROOT_TOKEN xpath_tokens) (path_nodes b);
            b1 = b\<lparr>path_nodes := nodes\<rparr>
        in case XPath_select ([], node_config b1) xpath_node_to_remove of
             None \<Rightarrow> fail b1
           | Some node_to_remove \<Rightarrow>
               let subnodes = ss_insert xpath_node_to_remove
                     (fold ss_insert (subnodes_xpaths node_to_remove) (subnodes_xpath b1))
               in succeed (b1\<lparr>subnodes_xpath := subnodes,
                     xpaths_to_remove := fold ss_insert subnodes (fold ss_insert nodes (xpaths_to_remove b1))\<rparr>))"

definition removal_item :: "json \<Rightarrow> phase" where
  "removal_item item = with_item item (\<lambda>op path.
     if op \<noteq> OP_REMOVE then succeed else of_result (json_get_string path) mark_removal)"

definition removals :: "json \<Rightarrow> phase" where
  "removals patch = each removal_item (json_elements patch)"

definition check_removals :: phase where
  "check_removals b =
     (if \<forall>subnode \<in> set (xpaths_to_remove b). XPath_select ([], node_config b) subnode \<noteq> None
      then succeed b else fail b)"

definition is_removal :: "json \<Rightarrow> bool" where
  "is_removal op \<longleftrightarrow> op = OP_REMOVE"

definition order_removals :: "env \<Rightarrow> json \<Rightarrow> phase" where
  "order_removals env patch b =
     (let root = collect_nodes (xpaths_to_remove b) (node_config b) in
      of_result (resolve (env_regex env) (env_depth env) (json_schema (mngr b)) root) (\<lambda>(ok, ordered).
        if \<not> ok then fail
        else of_result (keep_marked is_removal (json_elements patch)
               (filter (\<lambda>xpath. xpath \<notin> set (path_nodes b)) ordered)) (\<lambda>kept b1.
          succeed (b1\<lparr>ordered_nodes := rev kept\<rparr>))) (b\<lparr>config_to_remove := root\<rparr>))"

text \<open>The constraints of a node, up to the first that fails.\<close>

fun all_constraints :: "env \<Rightarrow> json \<Rightarrow> node \<Rightarrow> handle \<Rightarrow> string list \<Rightarrow> bool result" where
  "all_constraints env jschema root h [] = Inr True"
| "all_constraints env jschema root h (c # cs) =
     rbind (validate (env_depth env) (getSchemaByXPath (env_regex env) jschema) (env_regex env) (env_regex_search env) root h c) (\<lambda>ok.
       if ok then all_constraints env jschema root h cs else Inr False)"

definition check_removal :: "env \<Rightarrow> string \<Rightarrow> phase" where
  "check_removal env xpath b =
     of_result (schema_of env (mngr b) xpath) (\<lambda>s.
       case s of
         None \<Rightarrow> fail
       | Some schema_node \<Rightarrow>
           (case XPath_select ([], config_to_remove b) xpath of
              None \<Rightarrow> fail
            | Some node_to_remove \<Rightarrow>
                of_result (all_constraints env (json_schema (mngr b)) (config_to_remove b) node_to_remove
                    (FindAttr (snd schema_node) DELETE_CONSTRAINTS)) (\<lambda>ok.
                  if \<not> ok then fail
                  else if \<not> has_parent node_to_remove then of_result (Inl NullDeref) (\<lambda>_ :: unit. succeed)
                  else (\<lambda>b1. case remove_at node_to_remove (config_to_remove b1) of
                          (removed, root) \<Rightarrow>
                            if removed then succeed (b1\<lparr>config_to_remove := root\<rparr>) else fail b1)))) b"

definition check_delete_constraints :: "env \<Rightarrow> phase" where
  "check_delete_constraints env b = each (check_removal env) (ordered_nodes b) b"

definition remove_references :: phase where
  "remove_references b =
     (case removeXPathReference (ordered_nodes b) (mngr b) of (r, m) \<Rightarrow> (r, b\<lparr>mngr := m\<rparr>))"

subsection \<open>Messages\<close>

definition send :: "env \<Rightarrow> string list \<Rightarrow> string list \<Rightarrow> json \<Rightarrow> (bool \<Rightarrow> phase) \<Rightarrow> phase" where
  "send env server_addr_attr action_attr body k b =
     (case post env (hd server_addr_attr) (hd action_attr) body (mngr b) of
        (Inl e, m) \<Rightarrow> (Inl e, b\<lparr>mngr := m\<rparr>)
      | (Inr ok, m) \<Rightarrow> k ok (b\<lparr>mngr := m\<rparr>))"

definition exit_process :: phase where
  "exit_process b = (Inl ProcessExit, b)"

definition null_deref :: phase where
  "null_deref b = (Inl NullDeref, b)"

text \<open>\<open>find(TYPE)\<close> and the comparison with \<open>object\<close> and \<open>null\<close>.\<close>

definition object_or_null :: "json \<Rightarrow> bool" where
  "object_or_null jschema \<longleftrightarrow>
     (case json_find jschema SCHEMA_TYPE of None \<Rightarrow> False | Some t \<Rightarrow> t = TYPE_OBJECT \<or> t = TYPE_NIL)"

definition action_object :: "json \<Rightarrow> string \<Rightarrow> json \<Rightarrow> json" where
  "action_object op path value = JObj [(OPERATION, op), (PATH, JStr path), (VALUE, value)]"

text \<open>
  The item is addressed by its parent with its name as the value: the last token of the pointer, and
  the pointer without it.
\<close>

definition split_pointer :: "string \<Rightarrow> (string \<times> string) result" where
  "split_pointer xpath =
     rbind (pointer_parse xpath) (\<lambda>p. rbind (pointer_back p) (\<lambda>back. rbind (pointer_pop_back p) (\<lambda>up.
       Inr (back, pointer_to_string up))))"

definition item_action :: "manager \<Rightarrow> json \<Rightarrow> string \<Rightarrow> json \<Rightarrow> string \<Rightarrow> json result" where
  "item_action m op xpath xpath_jschema param =
     rbind (split_pointer xpath) (\<lambda>(back, up).
       rbind (getConfigNode m xpath) (\<lambda>xpath_jconfig.
         rbind (fFindAndAppendParamAction xpath_jschema xpath_jconfig param) (\<lambda>params.
           json_set_0 PARAMETERS params (action_object op up (JStr back)))))"

subsection \<open>Rolling back removed nodes\<close>

definition rollback_removed_action :: "env \<Rightarrow> manager \<Rightarrow> string \<Rightarrow> json \<Rightarrow> node \<Rightarrow> json result" where
  "rollback_removed_action env m xpath jnode n =
     (if \<not> is_composite n then Inr (action_object OP_ADD xpath jnode)
      else rbind (pointer_parse xpath) (\<lambda>p.
        rbind (json_schema_of env m (pointer_to_string p)) (\<lambda>xpath_jschema.
          if object_or_null xpath_jschema
          then item_action m OP_ADD xpath xpath_jschema ACTION_PARAM_ON_UPDATE
          else Inr (action_object OP_ADD xpath JNull))))"

definition select_running :: "manager \<Rightarrow> string \<Rightarrow> handle option result" where
  "select_running m xpath =
     (case getRunningConfig m of None \<Rightarrow> Inl NullDeref | Some c \<Rightarrow> Inr (XPath_select ([], c) xpath))"

definition rollback_removed_node :: "env \<Rightarrow> string \<Rightarrow> phase" where
  "rollback_removed_node env xpath b =
     of_result (rbind (RunningJsonConfig_get (mngr b)) (\<lambda>j. rbind (pointer_parse xpath) (\<lambda>p. json_ref_value p j)))
       (\<lambda>jnode. of_result (schema_of env (mngr b) xpath) (\<lambda>s.
         case s of
           None \<Rightarrow> null_deref
         | Some schema_node \<Rightarrow>
             let action_attr = FindAttr (snd schema_node) ACTION_ON_UPDATE_PATH;
                 server_addr_attr = FindAttr (snd schema_node) ACTION_SERVER_ADDRESS in
             if action_attr = [] \<or> server_addr_attr = [] then succeed
             else of_result (select_running (mngr b) xpath) (\<lambda>found.
               case found of
                 None \<Rightarrow> succeed
               | Some h \<Rightarrow>
                   of_result (rollback_removed_action env (mngr b) xpath jnode (snd h)) (\<lambda>action.
                     send env server_addr_attr action_attr action (\<lambda>ok.
                       if ok then succeed else exit_process))))) b"

definition rollback_removed_nodes :: "env \<Rightarrow> phase" where
  "rollback_removed_nodes env b =
     each (rollback_removed_node env) (removed_nodes b) (b\<lparr>removed_nodes := []\<rparr>)"

definition rollback_removed :: "env \<Rightarrow> phase" where
  "rollback_removed env = and_then (rollback_removed_nodes env) fail"

subsection \<open>Deleting\<close>

definition delete_message :: "env \<Rightarrow> manager \<Rightarrow> string \<Rightarrow> json result" where
  "delete_message env m xpath =
     rbind (getConfigNode m xpath) (\<lambda>json_node2.
     rbind (json_set_0 OPERATION OP_REMOVE (diff_from_null json_node2)) (\<lambda>diff1.
     rbind (json_set_0 PATH (JStr xpath) diff1) (\<lambda>diff2.
     rbind (pointer_parse xpath) (\<lambda>p.
     rbind (json_schema_of env m (pointer_to_string (parent_pointer p))) (\<lambda>xpath_jschema.
     rbind
       (if object_or_null xpath_jschema
        then rbind (split_pointer xpath) (\<lambda>(back, up).
             rbind (json_set_0 VALUE (JStr back) diff2) (\<lambda>diff3.
             rbind (json_set_0 PATH (JStr up) diff3) (\<lambda>diff4.
             rbind (fFindAndAppendParamAction xpath_jschema json_node2 ACTION_PARAM_ON_DELETE) (\<lambda>params.
               json_set_0 PARAMETERS params diff4))))
        else Inr diff2) (\<lambda>diff. rbind (json_nth diff 0) (\<lambda>(message, diff'). Inr message)))))))"

definition delete_node :: "env \<Rightarrow> string \<Rightarrow> phase" where
  "delete_node env xpath b =
     of_result (schema_of env (mngr b) xpath) (\<lambda>s.
       case s of
         None \<Rightarrow> null_deref
       | Some schema_node \<Rightarrow>
           let action_attr = FindAttr (snd schema_node) ACTION_ON_DELETE_PATH;
               server_addr_attr = FindAttr (snd schema_node) ACTION_SERVER_ADDRESS in
           if action_attr = [] \<or> server_addr_attr = []
           then (\<lambda>b1. succeed (b1\<lparr>removed_nodes := xpath # removed_nodes b1\<rparr>))
           else of_result (delete_message env (mngr b) xpath) (\<lambda>message.
             send env server_addr_attr action_attr message (\<lambda>ok b1.
               if ok then succeed (b1\<lparr>removed_nodes := xpath # removed_nodes b1\<rparr>)
               else rollback_removed env b1))) b"

definition send_deletes :: "env \<Rightarrow> phase" where
  "send_deletes env b = each (delete_node env) (ordered_nodes b) b"

definition remove_node :: "env \<Rightarrow> string \<Rightarrow> phase" where
  "remove_node env xpath b =
     (case XPath_select ([], node_config b) xpath of
        None \<Rightarrow> rollback_removed env b
      | Some h \<Rightarrow>
          if \<not> has_parent h then succeed b
          else (case remove_at h (node_config b) of
                  (removed, root) \<Rightarrow>
                    if removed then succeed (b\<lparr>node_config := root\<rparr>) else rollback_removed env b))"

definition remove_nodes :: "env \<Rightarrow> phase" where
  "remove_nodes env b = each (remove_node env) (ordered_nodes b) b"

end
