(* ===== verification/Additions.thy ===== *)
theory Additions
  imports Make_Candidate
begin

section \<open>Additions, and the whole of making a candidate\<close>

text \<open>
  The second half of \<open>fMakeCandidateConfigInternal\<close>: what the patch adds or replaces is loaded into the
  tree, checked and sent; then the phases are put together. A failure after the deletions sends the
  messages that undo them.
\<close>

subsection \<open>Loading\<close>

text \<open>The schema decides which loader gets the part of the document; a leaf would give it a null pointer.\<close>

definition load_with :: "(json \<Rightarrow> node \<Rightarrow> (bool \<times> node) result) \<Rightarrow> phase \<Rightarrow> string \<Rightarrow> handle \<Rightarrow> phase" where
  "load_with load on_failure xpath h b =
     of_result (rbind (pointer_parse xpath) (\<lambda>p. json_ref p (json_config b))) (\<lambda>(part, j) b1.
       let b2 = b1\<lparr>json_config := j\<rparr> in
       if \<not> is_composite (snd h) then null_deref b2
       else of_result (load part (snd h)) (\<lambda>(ok, n) b3.
         let b4 = b3\<lparr>node_config := replace_at_handle h n (node_config b3)\<rparr> in
         if ok then succeed b4 else on_failure b4) b2) b"

definition load_part :: "env \<Rightarrow> json \<Rightarrow> string \<Rightarrow> handle \<Rightarrow> phase" where
  "load_part env jschema xpath h =
     (case json_find jschema PROPERTIES of
        Some properties \<Rightarrow>
          load_with (\<lambda>part. fParseAndLoadConfig (env_regex env) part properties)
            (\<lambda>b. rollback_removed env (b\<lparr>json_config := JNull\<rparr>)) xpath h
      | None \<Rightarrow>
          (case json_find jschema PATTERN_PROPERTIES of
             None \<Rightarrow> succeed
           | Some patterns \<Rightarrow>
               load_with (\<lambda>part. load_patterns (env_regex env) (json_items part) patterns)
                 (rollback_removed env) xpath h))"

text \<open>The path of the parent of a path, as the loop composes it from the tokens.\<close>

definition parent_xpath :: "string list \<Rightarrow> string" where
  "parent_xpath tokens = last (ROOT_TOKEN # path_prefixes ROOT_TOKEN tokens)"

definition load_addition :: "env \<Rightarrow> string \<Rightarrow> phase" where
  "load_addition env path b =
     (let xpath_tokens = XPath_parse path in
      if xpath_tokens = [] then rollback_removed env b
      else
        let xpath = parent_xpath xpath_tokens;
            b1 = b\<lparr>path_nodes := fold ss_insert (path_prefixes ROOT_TOKEN xpath_tokens) (path_nodes b)\<rparr>
        in of_result (json_schema_of env (mngr b1) xpath) (\<lambda>jschema b2.
             if jschema = JObj [] then rollback_removed env b2
             else case XPath_select ([], node_config b2) xpath of
                    None \<Rightarrow> rollback_removed env b2
                  | Some root_node \<Rightarrow> load_part env jschema xpath root_node b2) b1)"

definition addition_item :: "env \<Rightarrow> json \<Rightarrow> phase" where
  "addition_item env item = with_item item (\<lambda>op path.
     if op = OP_REMOVE then succeed else of_result (json_get_string path) (load_addition env))"

definition additions :: "env \<Rightarrow> json \<Rightarrow> phase" where
  "additions env patch b = each (addition_item env) (json_elements patch) (b\<lparr>path_nodes := []\<rparr>)"

subsection \<open>Checking\<close>

definition is_no_removal :: "json \<Rightarrow> bool" where
  "is_no_removal op \<longleftrightarrow> op \<noteq> OP_REMOVE"

definition order_additions :: "env \<Rightarrow> json \<Rightarrow> phase" where
  "order_additions env patch b =
     of_result (resolve (env_regex env) (env_depth env) (json_schema (mngr b)) (node_config b)) (\<lambda>(ok, ordered).
       if \<not> ok then rollback_removed env
       else of_result (keep_marked is_no_removal (json_elements patch) ordered) (\<lambda>kept b1.
         succeed (b1\<lparr>ordered_nodes := kept\<rparr>))) b"

definition check_addition :: "env \<Rightarrow> string \<Rightarrow> phase" where
  "check_addition env xpath b =
     of_result (schema_of env (mngr b) xpath) (\<lambda>s.
       case s of
         None \<Rightarrow> rollback_removed env
       | Some schema_node \<Rightarrow>
           (case XPath_select ([], node_config b) xpath of
              None \<Rightarrow> rollback_removed env
            | Some node_to_check \<Rightarrow>
                of_result (all_constraints env (json_schema (mngr b)) (node_config b) node_to_check
                    (FindAttr (snd schema_node) UPDATE_CONSTRAINTS)) (\<lambda>ok.
                  if ok then succeed else rollback_removed env))) b"

definition check_update_constraints :: "env \<Rightarrow> phase" where
  "check_update_constraints env b = each (check_addition env) (ordered_nodes b) b"

definition save_candidate_references :: "env \<Rightarrow> phase" where
  "save_candidate_references env b =
     (case saveXPathReference env (ordered_nodes b) (node_config b) (mngr b) of
        (Inl e, m) \<Rightarrow> (Inl e, b\<lparr>mngr := m\<rparr>)
      | (Inr ok, m) \<Rightarrow> if ok then succeed (b\<lparr>mngr := m\<rparr>) else rollback_removed env (b\<lparr>mngr := m\<rparr>))"

subsection \<open>Rolling back added nodes\<close>

text \<open>
  The test for an object looks for a member named \<open>object\<close> of the schema, with \<open>at\<close>, which raises when there
  is none.
\<close>

definition is_added_object :: "json \<Rightarrow> bool result" where
  "is_added_object jschema =
     (case json_find jschema SCHEMA_TYPE of
        None \<Rightarrow> Inr False
      | Some t \<Rightarrow> rbind (json_at jschema ''object'') (\<lambda>v. Inr (v = TYPE_NIL \<or> t = TYPE_NIL)))"

definition rollback_added_action :: "env \<Rightarrow> manager \<Rightarrow> string \<Rightarrow> json result" where
  "rollback_added_action env m xpath =
     rbind (pointer_parse xpath) (\<lambda>p.
     rbind (json_schema_of env m (pointer_to_string (parent_pointer p))) (\<lambda>xpath_jschema.
     rbind (is_added_object xpath_jschema) (\<lambda>object.
       if object then item_action m OP_REMOVE xpath xpath_jschema ACTION_PARAM_ON_DELETE
       else Inr (action_object OP_REMOVE xpath JNull))))"

definition rollback_added_node :: "env \<Rightarrow> string \<Rightarrow> phase" where
  "rollback_added_node env xpath b =
     of_result (schema_of env (mngr b) xpath) (\<lambda>s.
       case s of
         None \<Rightarrow> null_deref
       | Some schema_node \<Rightarrow>
           let action_attr = FindAttr (snd schema_node) ACTION_ON_DELETE_PATH;
               server_addr_attr = FindAttr (snd schema_node) ACTION_SERVER_ADDRESS in
           if action_attr = [] \<or> server_addr_attr = [] then succeed
           else if XPath_select ([], node_config b) xpath = None then succeed
           else of_result (rollback_added_action env (mngr b) xpath) (\<lambda>action.
             send env server_addr_attr action_attr action (\<lambda>ok. if ok then succeed else exit_process))) b"

definition rollback_added_nodes :: "env \<Rightarrow> phase" where
  "rollback_added_nodes env b = each (rollback_added_node env) (added_nodes b) (b\<lparr>added_nodes := []\<rparr>)"

subsection \<open>Sending updates\<close>

definition update_op :: "json \<Rightarrow> pointer \<Rightarrow> json result" where
  "update_op old p = rbind (json_contains p old) (\<lambda>present. Inr (if present then OP_REPLACE else OP_ADD))"

text \<open>An item is always added to its parent: \<open>replace\<close> becomes \<open>add\<close>.\<close>

definition update_message :: "env \<Rightarrow> manager \<Rightarrow> json \<Rightarrow> json \<Rightarrow> string \<Rightarrow> json result" where
  "update_message env m old_json new_json xpath =
     rbind (pointer_parse xpath) (\<lambda>p.
     rbind (json_ref_value p new_json) (\<lambda>json_node2.
     rbind (update_op old_json p) (\<lambda>op.
     rbind (json_set_0 OPERATION op (diff_from_null json_node2)) (\<lambda>diff1.
     rbind (json_set_0 PATH (JStr xpath) diff1) (\<lambda>diff2.
     rbind (json_schema_of env m (pointer_to_string p)) (\<lambda>xpath_jschema.
     rbind
       (if object_or_null xpath_jschema
        then rbind (split_pointer xpath) (\<lambda>(back, up).
             rbind (json_set_0 VALUE (JStr back) diff2) (\<lambda>diff3.
             rbind (json_set_0 PATH (JStr up) diff3) (\<lambda>diff4.
             rbind (if op = OP_REPLACE then json_set_0 OPERATION OP_ADD diff4 else Inr diff4) (\<lambda>diff5.
             rbind (fFindAndAppendParamAction xpath_jschema json_node2 ACTION_PARAM_ON_UPDATE) (\<lambda>params.
               json_set_0 PARAMETERS params diff5)))))
        else Inr diff2) (\<lambda>diff. rbind (json_nth diff 0) (\<lambda>(message, diff'). Inr message))))))))"

definition update_node :: "env \<Rightarrow> string \<Rightarrow> phase" where
  "update_node env xpath b =
     of_result (schema_of env (mngr b) xpath) (\<lambda>s.
       case s of
         None \<Rightarrow> null_deref
       | Some schema_node \<Rightarrow>
           let action_attr = FindAttr (snd schema_node) ACTION_ON_UPDATE_PATH;
               server_addr_attr = FindAttr (snd schema_node) ACTION_SERVER_ADDRESS in
           if action_attr = [] \<or> server_addr_attr = []
           then (\<lambda>b1. succeed (b1\<lparr>added_nodes := xpath # added_nodes b1\<rparr>))
           else of_result (update_message env (mngr b) (jconfig b) (json_config b) xpath) (\<lambda>message.
             send env server_addr_attr action_attr message (\<lambda>ok b1.
               if ok then succeed (b1\<lparr>added_nodes := xpath # added_nodes b1\<rparr>)
               else and_then (rollback_added_nodes env) (rollback_removed env) b1))) b"

definition send_updates :: "env \<Rightarrow> phase" where
  "send_updates env b = each (update_node env) (ordered_nodes b) b"

subsection \<open>The whole\<close>

definition publish :: phase where
  "publish b = succeed (b\<lparr>jconfig := json_config b\<rparr>)"

definition removal_phases :: "env \<Rightarrow> json \<Rightarrow> phase" where
  "removal_phases env patch =
     and_then (removals patch) (and_then check_removals (and_then (order_removals env patch)
       (and_then (check_delete_constraints env) (and_then remove_references
         (and_then (send_deletes env) (remove_nodes env))))))"

definition addition_phases :: "env \<Rightarrow> json \<Rightarrow> phase" where
  "addition_phases env patch =
     and_then (additions env patch) (and_then (order_additions env patch)
       (and_then (check_update_constraints env) (and_then (save_candidate_references env)
         (and_then (send_updates env) publish))))"

definition build_init :: "json \<Rightarrow> json \<Rightarrow> node \<Rightarrow> manager \<Rightarrow> build" where
  "build_init patched j config m =
     \<lparr>node_config = config, json_config = patched, jconfig = j, mngr = m, config_to_remove = Composite ROOT_TOKEN [],
      xpaths_to_remove = [], path_nodes = [], subnodes_xpath = [], ordered_nodes = [], removed_nodes = [],
      added_nodes = []\<rparr>"

definition fMakeCandidateConfigInternal ::
  "env \<Rightarrow> json \<Rightarrow> json \<Rightarrow> node \<Rightarrow> manager \<Rightarrow> (bool, build) outcome" where
  "fMakeCandidateConfigInternal env patch j config m =
     of_result (json_patch j patch) (\<lambda>patched b.
       of_result (JsonSchema_get (json_schema m)) (\<lambda>jschema.
         if \<not> validateJsonConfig env patched jschema then fail
         else and_then (removal_phases env patch) (addition_phases env patch)) (b\<lparr>json_config := patched\<rparr>))
       (build_init j j config m)"

end
