(* ===== verification/Request_Handlers.thy ===== *)
theory Request_Handlers
  imports Connection
begin

section \<open>The request handlers of the daemon\<close>

text \<open>
  \<open>setupRequestHandlersF\<close> of \<open>src/main.cpp\<close>: six handlers that answer only on their own path and
  call the configuration manager. The methods of the manager they call are the fields of \<open>manager_ops\<close>.

  \<open>return_data = config_mngr->applyCandidateConfig()\<close> assigns a \<open>bool\<close> to a \<open>std::string\<close>: the string
  becomes the one character whose code is the value.
\<close>

record 'm manager_ops =
  op_makeCandidateConfig :: "string \<Rightarrow> 'm \<Rightarrow> (bool, 'm) outcome"
  op_dumpRunningConfig :: "'m \<Rightarrow> (string, 'm) outcome"
  op_getConfigDiff :: "string \<Rightarrow> 'm \<Rightarrow> (string, 'm) outcome"
  op_dumpCandidateConfig :: "'m \<Rightarrow> (string, 'm) outcome"
  op_applyCandidateConfig :: "'m \<Rightarrow> (bool, 'm) outcome"
  op_cancelCandidateConfig :: "'m \<Rightarrow> (bool, 'm) outcome"

definition string_of_bool :: "bool \<Rightarrow> string" where
  "string_of_bool b = [if b then CHR 0x01 else CHR 0x00]"

definition on_path :: "string \<Rightarrow> 'm handler \<Rightarrow> 'm handler" where
  "on_path expected h path data ret m =
     (if path \<noteq> expected then (Inr (INTERNAL_SUCCESS, ret), m) else h path data ret m)"

definition config_running_update :: "'m manager_ops \<Rightarrow> 'm handler" where
  "config_running_update ops = on_path RUNNING_UPDATE (\<lambda>path data ret m.
     sbind (op_makeCandidateConfig ops data m) (\<lambda>ok m'.
       (Inr (if ok then OK else INTERNAL_SERVER_ERROR, ret), m')))"

definition config_running_get :: "'m manager_ops \<Rightarrow> 'm handler" where
  "config_running_get ops = on_path RUNNING (\<lambda>path data ret m.
     sbind (op_dumpRunningConfig ops m) (\<lambda>text m'. (Inr (OK, text), m')))"

definition config_running_diff :: "'m manager_ops \<Rightarrow> 'm handler" where
  "config_running_diff ops = on_path RUNNING_DIFF (\<lambda>path data ret m.
     sbind (op_getConfigDiff ops data m) (\<lambda>text m'. (Inr (OK, text), m')))"

definition config_candidate_get :: "'m manager_ops \<Rightarrow> 'm handler" where
  "config_candidate_get ops = on_path CANDIDATE (\<lambda>path data ret m.
     sbind (op_dumpCandidateConfig ops m) (\<lambda>text m'. (Inr (OK, text), m')))"

definition config_candidate_apply :: "'m manager_ops \<Rightarrow> 'm handler" where
  "config_candidate_apply ops = on_path CANDIDATE (\<lambda>path data ret m.
     sbind (op_applyCandidateConfig ops m) (\<lambda>ok m'. (Inr (OK, string_of_bool ok), m')))"

definition config_candidate_delete :: "'m manager_ops \<Rightarrow> 'm handler" where
  "config_candidate_delete ops = on_path CANDIDATE (\<lambda>path data ret m.
     sbind (op_cancelCandidateConfig ops m) (\<lambda>ok m'. (Inr (OK, string_of_bool ok), m')))"

definition setupRequestHandlersF :: "'m manager_ops \<Rightarrow> 'm server \<Rightarrow> 'm server" where
  "setupRequestHandlersF ops = (\<lambda>(w, s).
     (addOnDeleteConnectionHandler ''config_candidate_delete'' (config_candidate_delete ops)
       (addOnPutConnectionHandler ''config_candidate_apply'' (config_candidate_apply ops)
         (addOnGetConnectionHandler ''config_candidate_get'' (config_candidate_get ops)
           (addOnPostConnectionHandler ''config_running_diff'' (config_running_diff ops)
             (addOnGetConnectionHandler ''config_running_get'' (config_running_get ops)
               (addOnPostConnectionHandler ''config_running_update'' (config_running_update ops) w))))),
      s))"

lemmas handler_defs =
  config_running_update_def config_running_get_def config_running_diff_def
  config_candidate_get_def config_candidate_apply_def config_candidate_delete_def

text \<open>The server the daemon runs, and the handlers it finds for each method.\<close>

definition daemon :: "'m manager_ops \<Rightarrow> 'm \<Rightarrow> 'm server" where
  "daemon ops m = setupRequestHandlersF ops (Server_init m)"

definition has_handlers :: "'m manager_ops \<Rightarrow> 'm routing \<Rightarrow> bool" where
  "has_handlers ops w \<longleftrightarrow>
     on_get w = [(''config_candidate_get'', config_candidate_get ops),
                 (''config_running_get'', config_running_get ops)] \<and>
     on_post w = [(''config_running_diff'', config_running_diff ops),
                  (''config_running_update'', config_running_update ops)] \<and>
     on_put w = [(''config_candidate_apply'', config_candidate_apply ops)] \<and>
     on_delete w = [(''config_candidate_delete'', config_candidate_delete ops)]"

lemma daemon_handlers: "has_handlers ops (fst (daemon ops m))"
  by (simp add: daemon_def setupRequestHandlersF_def Server_init_def has_handlers_def
      addOnDeleteConnectionHandler_def addOnPutConnectionHandler_def addOnGetConnectionHandler_def
      addOnPostConnectionHandler_def addConnectionHandler_def)

lemma daemon_initial: "initial_server (daemon ops m)"
  unfolding initial_server_def
  by (rule exI [of _ m]) (simp add: daemon_def setupRequestHandlersF_def split: prod.splits)

lemma daemon_manager [simp]: "manager (fst (daemon ops m)) = m"
  by (simp add: daemon_def setupRequestHandlersF_def Server_init_def
      addOnDeleteConnectionHandler_def addOnPutConnectionHandler_def addOnGetConnectionHandler_def
      addOnPostConnectionHandler_def)

subsection \<open>Every request reaches the operation it names\<close>

text \<open>\<open>through\<close> gives the answer of a handler from the answer of the manager.\<close>

definition through :: "('a \<Rightarrow> http_status \<times> string) \<Rightarrow> 'm routing \<Rightarrow> ('a, 'm) outcome \<Rightarrow>
    (http_status \<times> string, 'm routing) outcome" where
  "through f w = (\<lambda>(r, m). (case r of Inl e \<Rightarrow> Inl e | Inr x \<Rightarrow> Inr (f x), w\<lparr>manager := m\<rparr>))"

lemma through_sbind:
  "sbind r (\<lambda>x m. (Inr (f x), m)) = (case r of (Inl e, m) \<Rightarrow> (Inl e, m) | (Inr x, m) \<Rightarrow> (Inr (f x), m))"
  by (simp add: sbind_def)

lemma processRequest_dispatch:
  assumes "has_handlers ops w"
  shows "processRequest POST RUNNING_UPDATE d ret w =
           through (\<lambda>ok. (if ok then OK else INTERNAL_SERVER_ERROR, ret)) w (op_makeCandidateConfig ops d (manager w))"
    and "processRequest GET RUNNING d ret w = through (\<lambda>t. (OK, t)) w (op_dumpRunningConfig ops (manager w))"
    and "processRequest POST RUNNING_DIFF d ret w = through (\<lambda>t. (OK, t)) w (op_getConfigDiff ops d (manager w))"
    and "processRequest GET CANDIDATE d ret w = through (\<lambda>t. (OK, t)) w (op_dumpCandidateConfig ops (manager w))"
    and "processRequest PUT CANDIDATE d ret w =
           through (\<lambda>ok. (OK, string_of_bool ok)) w (op_applyCandidateConfig ops (manager w))"
    and "processRequest DEL CANDIDATE d ret w =
           through (\<lambda>ok. (OK, string_of_bool ok)) w (op_cancelCandidateConfig ops (manager w))"
  using assms
  by (simp_all add: processRequest_def handlers_of_def has_handlers_def handler_defs on_path_def
      through_def sbind_def split: prod.splits sum.splits)

text \<open>On the daemon's server each of the six requests runs exactly the one operation of the manager it
  names, once, and answers with its result; the other handlers of the method let it pass.\<close>

theorem requests_reach_the_manager:
  "processRequest POST RUNNING_UPDATE d ret (fst (daemon ops m)) =
     through (\<lambda>ok. (if ok then OK else INTERNAL_SERVER_ERROR, ret)) (fst (daemon ops m)) (op_makeCandidateConfig ops d m) \<and>
   processRequest GET RUNNING d ret (fst (daemon ops m)) = through (\<lambda>t. (OK, t)) (fst (daemon ops m)) (op_dumpRunningConfig ops m) \<and>
   processRequest POST RUNNING_DIFF d ret (fst (daemon ops m)) = through (\<lambda>t. (OK, t)) (fst (daemon ops m)) (op_getConfigDiff ops d m) \<and>
   processRequest GET CANDIDATE d ret (fst (daemon ops m)) = through (\<lambda>t. (OK, t)) (fst (daemon ops m)) (op_dumpCandidateConfig ops m) \<and>
   processRequest PUT CANDIDATE d ret (fst (daemon ops m)) =
     through (\<lambda>ok. (OK, string_of_bool ok)) (fst (daemon ops m)) (op_applyCandidateConfig ops m) \<and>
   processRequest DEL CANDIDATE d ret (fst (daemon ops m)) =
     through (\<lambda>ok. (OK, string_of_bool ok)) (fst (daemon ops m)) (op_cancelCandidateConfig ops m)"
  using processRequest_dispatch [OF daemon_handlers [of ops m]] by simp

text \<open>A request of the active session to apply the candidate is answered with the status OK whether or not
  the manager applied it: the result is only in the content, one character that is 1 or 0.\<close>

theorem refused_apply_is_answered_ok:
  assumes "has_handlers ops w" "bearer_token req = Inr t" "sm_contains (leased s) t" "active s = Some t"
    and "t \<noteq> []" "op_applyCandidateConfig ops (manager w) = (Inr ok, m')"
  shows "\<exists>s'. serve now PUT CANDIDATE req (w, s) =
           Some (\<lparr>res_status = Some OK, res_content = string_of_bool ok\<rparr>, (w\<lparr>manager := m'\<rparr>, s')) \<and>
         active s' = Some t"
proof -
  note auth = bearer_token_authorized [OF assms(2)]
  obtain b s1 where c: "CancelSessionTokenTimerOnce req s = Inr (b, s1)"
    using assms(2,3,5) auth
    by (cases "sm_find (timers s) t") (auto simp: CancelSessionTokenTimerOnce_def GetSessionToken_def)
  from cancel_timer_timers_only [OF c] have "active s1 = active s" by (rule timers_only_fields)
  with assms auth c show ?thesis
    by (simp add: serve_def route_def put_candidate_def guarded_def CheckActiveSessionToken_def
        cancel_timer_then_def forward_def processRequest_dispatch through_def answer_def IsSuccess_cases
        empty_response_def)
qed

text \<open>A manager that refuses everything, for the witness.\<close>

definition refusing_ops :: "unit manager_ops" where
  "refusing_ops = \<lparr>op_makeCandidateConfig = \<lambda>d m. (Inr False, m), op_dumpRunningConfig = \<lambda>m. (Inr [], m),
     op_getConfigDiff = \<lambda>d m. (Inr [], m), op_dumpCandidateConfig = \<lambda>m. (Inr [], m),
     op_applyCandidateConfig = \<lambda>m. (Inr False, m), op_cancelCandidateConfig = \<lambda>m. (Inr False, m)\<rparr>"

theorem refused_apply_is_answered_ok_witness:
  "\<exists>s'. serve 0 PUT CANDIDATE (bearer_request ''a'' [])
      (fst (daemon refusing_ops ()), small_sessions [''a''] (Some ''a'') []) =
    Some (\<lparr>res_status = Some OK, res_content = [CHR 0x00]\<rparr>,
          ((fst (daemon refusing_ops ()))\<lparr>manager := ()\<rparr>, s')) \<and> active s' = Some ''a''"
proof -
  have "op_applyCandidateConfig refusing_ops (manager (fst (daemon refusing_ops ()))) = (Inr False, ())"
    by (simp add: refusing_ops_def)
  from refused_apply_is_answered_ok [OF daemon_handlers, of _ "''a''", OF _ _ _ _ this,
      of "bearer_request ''a'' []" "small_sessions [''a''] (Some ''a'') []" 0]
  show ?thesis by (simp add: sm_contains_def string_of_bool_def)
qed

end
