(* ===== verification/Manager.thy ===== *)
theory Manager
  imports Additions Request_Handlers
begin

section \<open>The configuration manager\<close>

text \<open>
  The public methods of \<open>Config::Manager\<close> in \<open>src/config.cpp\<close>, on the state of the theory References:
  loading at the start, making, applying and cancelling a candidate, differences and dumps. What the
  file system answers is an argument.
\<close>

subsection \<open>The schema\<close>

definition is_addition :: "json \<Rightarrow> bool result" where
  "is_addition item = rbind (item_op item) (\<lambda>op. Inr (op = OP_ADD))"

fun only_additions :: "json list \<Rightarrow> json list result" where
  "only_additions [] = Inr []"
| "only_additions (item # items) =
     rbind (is_addition item) (\<lambda>a. rbind (only_additions items) (\<lambda>rest. Inr (if a then item # rest else rest)))"

fun merge_subschemas :: "json result list \<Rightarrow> json \<Rightarrow> json result" where
  "merge_subschemas [] jschema = Inr jschema"
| "merge_subschemas (f # fs) jschema =
     rbind f (\<lambda>jsubschema. rbind (only_additions (json_elements (json_diff jschema jsubschema))) (\<lambda>parsed_patch.
       rbind (json_patch jschema (JArr parsed_patch)) (merge_subschemas fs)))"

text \<open>
  \<open>JsonSchema::load\<close>: the schema file, if it can be opened, and the other files of its directory in the
  order of the iterator; the text of each gives a document or a parse error.
\<close>

definition JsonSchema_load :: "json result option \<Rightarrow> json result list \<Rightarrow> manager \<Rightarrow> (bool, manager) outcome" where
  "JsonSchema_load schema_file subschemas m =
     (case schema_file of
        None \<Rightarrow> (Inr False, m)
      | Some f \<Rightarrow>
          (case rbind f (merge_subschemas subschemas) of
             Inl e \<Rightarrow> (Inl e, m)
           | Inr jschema \<Rightarrow> if jschema = JNull then (Inr False, m) else (Inr True, m\<lparr>json_schema := jschema\<rparr>)))"

subsection \<open>Loading a document into a tree\<close>

definition load_tree :: "env \<Rightarrow> json \<Rightarrow> json \<Rightarrow> (bool \<times> node) option result" where
  "load_tree env jschema j =
     (case json_find jschema PROPERTIES of
        Some properties \<Rightarrow>
          rbind (fParseAndLoadConfig (env_regex env) j properties (Composite ROOT_TOKEN [])) (\<lambda>r. Inr (Some r))
      | None \<Rightarrow>
          (case json_find jschema PATTERN_PROPERTIES of
             Some patterns \<Rightarrow>
               rbind (load_patterns (env_regex env) (json_items j) patterns (Composite ROOT_TOKEN [])) (\<lambda>r. Inr (Some r))
           | None \<Rightarrow> Inr None))"

text \<open>
  What \<open>load\<close> and \<open>fReloadNodeConfig\<close> do alike: the tree, its order, its references. The answer of
  \<open>saveXPathReference\<close> is not looked at.
\<close>

definition load_and_save :: "env \<Rightarrow> json \<Rightarrow> json \<Rightarrow> manager \<Rightarrow> (node option, manager) outcome" where
  "load_and_save env jschema j m =
     (case load_tree env jschema j of
        Inl e \<Rightarrow> (Inl e, m)
      | Inr None \<Rightarrow> (Inr None, m)
      | Inr (Some (ok, root_config)) \<Rightarrow>
          if \<not> ok then (Inr None, m)
          else (case resolve (env_regex env) (env_depth env) (json_schema m) root_config of
                  Inl e \<Rightarrow> (Inl e, m)
                | Inr (resolved, ordered) \<Rightarrow>
                    if \<not> resolved then (Inr None, m)
                    else sbind (saveXPathReference env ordered root_config m) (\<lambda>saved m'. (Inr (Some root_config), m'))))"

definition fReloadNodeConfig :: "env \<Rightarrow> json \<Rightarrow> json \<Rightarrow> manager \<Rightarrow> (node option, manager) outcome" where
  "fReloadNodeConfig env jschema j m =
     (if \<not> validateJsonConfig env j jschema then (Inr None, m) else load_and_save env jschema j m)"

subsection \<open>Actions at the start\<close>

definition start_constraints :: "env \<Rightarrow> node \<Rightarrow> string \<Rightarrow> manager \<Rightarrow> (bool, manager) outcome" where
  "start_constraints env config xpath m =
     (rbind (schema_of env m xpath) (\<lambda>s.
        case s of
          None \<Rightarrow> Inr True
        | Some schema_node \<Rightarrow>
            (case XPath_select ([], config) xpath of
               None \<Rightarrow> Inr True
             | Some h \<Rightarrow> all_constraints env (json_schema m) config h (FindAttr (snd schema_node) UPDATE_CONSTRAINTS))), m)"

text \<open>
  The message of a node, with the documents a rollback uses again. The parameters are set for every
  schema that has a type.
\<close>

definition start_message :: "env \<Rightarrow> manager \<Rightarrow> string \<Rightarrow> (json \<times> json \<times> json) result" where
  "start_message env m xpath =
     rbind (getConfigNode m xpath) (\<lambda>json_node2.
     rbind (json_set_0 OPERATION OP_ADD (diff_from_null json_node2)) (\<lambda>diff1.
     rbind (json_set_0 PATH (JStr xpath) diff1) (\<lambda>diff2.
     rbind (json_schema_of env m xpath) (\<lambda>xpath_jschema.
     rbind
       (if json_has xpath_jschema SCHEMA_TYPE
        then
          rbind
            (if object_or_null xpath_jschema
             then rbind (split_pointer xpath) (\<lambda>(back, up).
                  rbind (json_set_0 VALUE (JStr back) diff2) (json_set_0 PATH (JStr up)))
             else Inr diff2) (\<lambda>diff3.
          rbind (fFindAndAppendParamAction xpath_jschema json_node2 ACTION_PARAM_ON_UPDATE) (\<lambda>params.
            json_set_0 PARAMETERS params diff3))
        else Inr diff2) (\<lambda>diff.
     rbind (json_nth diff 0) (\<lambda>(message, diff'). Inr (message, xpath_jschema, json_node2)))))))"

text \<open>
  Undoing the actions done sets the parameters of an object as if it was an array, which raises before
  anything is sent.
\<close>

definition start_rollback_action :: "json \<Rightarrow> json \<Rightarrow> json \<Rightarrow> json result" where
  "start_rollback_action xpath_jschema json_node2 action =
     rbind (json_set OPERATION OP_REMOVE action) (\<lambda>action1.
     rbind (fFindAndAppendParamAction xpath_jschema json_node2 ACTION_PARAM_ON_DELETE) (\<lambda>params.
       json_set_0 PARAMETERS params action1))"

fun start_rollback ::
  "env \<Rightarrow> string \<Rightarrow> string \<Rightarrow> json \<Rightarrow> json \<Rightarrow> json list \<Rightarrow> manager \<Rightarrow> (bool, manager) outcome" where
  "start_rollback env addr path xpath_jschema json_node2 [] m = (Inr False, m)"
| "start_rollback env addr path xpath_jschema json_node2 (action # actions) m =
     (case start_rollback_action xpath_jschema json_node2 action of
        Inl e \<Rightarrow> (Inl e, m)
      | Inr body \<Rightarrow>
          (case post env addr path body m of
             (Inl e, m') \<Rightarrow> (Inl e, m')
           | (Inr ok, m') \<Rightarrow> start_rollback env addr path xpath_jschema json_node2 actions m'))"

type_synonym started = "json list \<times> manager"

definition start_action :: "env \<Rightarrow> string \<Rightarrow> started \<Rightarrow> (bool, started) outcome" where
  "start_action env xpath st =
     (case schema_of env (snd st) xpath of
        Inl e \<Rightarrow> (Inl e, st)
      | Inr None \<Rightarrow> (Inl NullDeref, st)
      | Inr (Some schema_node) \<Rightarrow>
          let action_attr = FindAttr (snd schema_node) ACTION_ON_UPDATE_PATH;
              server_addr_attr = FindAttr (snd schema_node) ACTION_SERVER_ADDRESS in
          if action_attr = [] \<or> server_addr_attr = [] then (Inr True, st)
          else
            (case start_message env (snd st) xpath of
               Inl e \<Rightarrow> (Inl e, st)
             | Inr (message, xpath_jschema, json_node2) \<Rightarrow>
                 (case post env (hd server_addr_attr) (hd action_attr) message (snd st) of
                    (Inl e, m) \<Rightarrow> (Inl e, (fst st, m))
                  | (Inr True, m) \<Rightarrow> (Inr True, (message # fst st, m))
                  | (Inr False, m) \<Rightarrow>
                      (case start_rollback env (hd server_addr_attr) (hd action_attr) xpath_jschema json_node2 (fst st) m of
                         (r, m') \<Rightarrow> (r, ([], m'))))))"

definition catch_bad_any_cast :: "(bool, manager) outcome \<Rightarrow> (bool, manager) outcome" where
  "catch_bad_any_cast = (\<lambda>(r, m). (if r = Inl BadAnyCast then Inr False else r, m))"

definition fPerformAction :: "env \<Rightarrow> node \<Rightarrow> manager \<Rightarrow> (bool, manager) outcome" where
  "fPerformAction env config m =
     (case resolve (env_regex env) (env_depth env) (json_schema m) config of
        Inl e \<Rightarrow> (Inl e, m)
      | Inr (resolved, ordered) \<Rightarrow>
          if \<not> resolved then (Inr False, m)
          else catch_bad_any_cast
            (sbind (each (start_constraints env config) ordered m) (\<lambda>ok m1.
               if \<not> ok then (Inr False, m1)
               else (case each (start_action env) ordered ([], m1) of (r, actions, m2) \<Rightarrow> (r, m2)))))"

subsection \<open>load\<close>

definition Manager_load :: "env \<Rightarrow> json result option \<Rightarrow> json result list \<Rightarrow> manager \<Rightarrow> (bool, manager) outcome" where
  "Manager_load env schema_file subschemas m =
     sbind (JsonSchema_load schema_file subschemas m) (\<lambda>loaded m1.
       if \<not> loaded then (Inr False, m1)
       else
         case rbind (JsonSchema_get (json_schema m1)) (\<lambda>jschema.
                case config_file m1 of
                  None \<Rightarrow> Inl (JsonError 101)
                | Some text \<Rightarrow>
                    rbind (CheckIfThereIsDuplicatedKey text) (\<lambda>duplicated.
                      if duplicated then Inr None else rbind (json_parse text) (\<lambda>j. Inr (Some (jschema, j))))) of
           Inl e \<Rightarrow> (Inl e, m1)
         | Inr None \<Rightarrow> (Inr False, m1)
         | Inr (Some (jschema, j)) \<Rightarrow>
             if \<not> validateJsonConfig env j jschema then (Inr False, m1)
             else sbind (load_and_save env jschema j m1) (\<lambda>r m2.
               case r of
                 None \<Rightarrow> (Inr False, m2)
               | Some root_config \<Rightarrow>
                   sbind (fPerformAction env root_config m2) (\<lambda>ok m3.
                     if \<not> ok then (Inr False, m3)
                     else (Inr True, m3\<lparr>running_references := candidate_references m3,
                             running_config := Some root_config, running_json := j\<rparr>))))"

subsection \<open>Differences\<close>

text \<open>The difference to the merged copy that \<open>getConfigDiff\<close> makes besides is not used.\<close>

definition getConfigDiff :: "env \<Rightarrow> string \<Rightarrow> manager \<Rightarrow> (string, manager) outcome" where
  "getConfigDiff env patch m =
     (rbind (JsonSchema_get (json_schema m)) (\<lambda>jschema. rbind (json_parse patch) (\<lambda>new_jconfig.
        if \<not> validateJsonConfig env new_jconfig jschema then Inr []
        else rbind (RunningJsonConfig_get m) (\<lambda>running.
          let diff2 = json_diff running new_jconfig in
          rbind (json_patch running diff2) (\<lambda>diff_patch.
            let copy_jconfig = merge_patch diff_patch running;
                diff = json_diff running copy_jconfig in
            json_dump diff2)))), m)"

text \<open>\<open>fValidatePatch\<close> answers true for a patch that is not the difference it makes.\<close>

definition fValidatePatch :: "json \<Rightarrow> json \<Rightarrow> bool result" where
  "fValidatePatch patch j = rbind (json_patch j patch) (\<lambda>diff_patch. Inr (patch \<noteq> json_diff j diff_patch))"

subsection \<open>The candidate\<close>

definition makeCandidateConfig :: "env \<Rightarrow> string \<Rightarrow> manager \<Rightarrow> (bool, manager) outcome" where
  "makeCandidateConfig env text m =
     (case running_config m of
        None \<Rightarrow> (Inl NullDeref, m)
      | Some running \<Rightarrow>
          (case rbind (RunningJsonConfig_get m) (\<lambda>j. rbind (json_parse text) (\<lambda>patch.
                  rbind (fValidatePatch patch j) (\<lambda>invalid. Inr (j, patch, invalid)))) of
             Inl e \<Rightarrow> (Inl e, m)
           | Inr (j, patch, invalid) \<Rightarrow>
               if invalid then (Inr False, m)
               else
                 (case fMakeCandidateConfigInternal env patch j (copy_config running) m of
                    (Inl e, b) \<Rightarrow> (Inl e, mngr b)
                  | (Inr False, b) \<Rightarrow> (Inr False, mngr b)
                  | (Inr True, b) \<Rightarrow>
                      (case JsonSchema_get (json_schema (mngr b)) of
                         Inl e \<Rightarrow> (Inl e, mngr b)
                       | Inr jschema \<Rightarrow>
                           sbind (fReloadNodeConfig env jschema (jconfig b) (mngr b)) (\<lambda>r m1.
                             case r of
                               None \<Rightarrow> (Inr False, m1)
                             | Some new_node_config \<Rightarrow>
                                 (Inr True, m1\<lparr>candidate_config := Some new_node_config,
                                    running_references := candidate_references m1,
                                    candidate_json := jconfig b, is_candidate_config_ready := True\<rparr>))))))"

text \<open>What happens to the temporary file: only \<open>Renamed\<close> replaces the configuration file. A document that
  cannot be written raises before that.\<close>

datatype file_result = Open_failed | Write_failed | Rename_failed | Renamed

definition applyCandidateConfig :: "file_result \<Rightarrow> manager \<Rightarrow> (bool, manager) outcome" where
  "applyCandidateConfig io m =
     (if \<not> is_candidate_config_ready m then (Inr False, m)
      else if io = Open_failed then (Inr False, m)
      else
        case CandidateJsonConfig_get m of
          Inl e \<Rightarrow> (Inl e, m)
        | Inr candidate \<Rightarrow>
            (case json_dump_indented candidate of
               Inl e \<Rightarrow> (Inl e, m)
             | Inr text \<Rightarrow>
                 if io \<noteq> Renamed then (Inr False, m)
                 else (Inr True, m\<lparr>config_file := Some text, running_config := candidate_config m,
                         running_json := candidate, candidate_config := None, candidate_json := JNull,
                         is_candidate_config_ready := False\<rparr>)))"

text \<open>\<open>cancelCandidateConfig\<close> gives every item of the patch back to the running document a value.\<close>

definition fill_value :: "json \<Rightarrow> json \<Rightarrow> (json \<times> json) result" where
  "fill_value item j =
     rbind (json_index item OPERATION) (\<lambda>(op, item1). rbind (json_index item1 PATH) (\<lambda>(path, item2).
       if json_has item2 VALUE then Inr (item2, j)
       else rbind (json_get_string path) (\<lambda>p. rbind (pointer_parse p) (\<lambda>ptr. rbind (json_ref ptr j) (\<lambda>(v, j').
         rbind (json_set VALUE v item2) (\<lambda>item3. Inr (item3, j')))))))"

fun fill_values :: "json list \<Rightarrow> json \<Rightarrow> (json list \<times> json) result" where
  "fill_values [] j = Inr ([], j)"
| "fill_values (item # items) j =
     rbind (fill_value item j) (\<lambda>(item', j'). rbind (fill_values items j') (\<lambda>(items', j''). Inr (item' # items', j'')))"

definition cancel_patch :: "env \<Rightarrow> manager \<Rightarrow> (json \<times> json) option result" where
  "cancel_patch env m =
     rbind (CandidateJsonConfig_get m) (\<lambda>candidate. rbind (RunningJsonConfig_get m) (\<lambda>running.
       let patch = json_diff candidate running in
       rbind (json_patch candidate patch) (\<lambda>patched. rbind (JsonSchema_get (json_schema m)) (\<lambda>jschema.
         if \<not> validateJsonConfig env patched jschema then Inr None
         else rbind (fill_values (json_elements patch) candidate) (\<lambda>(items, j). Inr (Some (JArr items, j)))))))"

definition cancelCandidateConfig :: "env \<Rightarrow> manager \<Rightarrow> (bool, manager) outcome" where
  "cancelCandidateConfig env m =
     (if \<not> is_candidate_config_ready m then (Inr False, m)
      else
        case cancel_patch env m of
          Inl e \<Rightarrow> (Inl e, m)
        | Inr None \<Rightarrow> (Inr False, m)
        | Inr (Some (patch, j)) \<Rightarrow>
            (case candidate_config m of
               None \<Rightarrow> (Inl NullDeref, m)
             | Some candidate \<Rightarrow>
                 (case reparsed patch of
                    Inl e \<Rightarrow> (Inl e, m)
                  | Inr patch' \<Rightarrow>
                 (case fMakeCandidateConfigInternal env patch' j candidate m of
                    (r, b) \<Rightarrow>
                      let m1 = (mngr b)\<lparr>candidate_config := Some (node_config b)\<rparr> in
                      (case r of
                         Inl e \<Rightarrow> (Inl e, m1)
                       | Inr False \<Rightarrow> (Inr False, m1\<lparr>candidate_references := candidate_references m\<rparr>)
                       | Inr True \<Rightarrow>
                           (Inr True, m1\<lparr>candidate_config := None, candidate_json := JNull,
                              is_candidate_config_ready := False\<rparr>))))))"

definition dumpRunningConfig :: "manager \<Rightarrow> (string, manager) outcome" where
  "dumpRunningConfig m = (rbind (RunningJsonConfig_get m) json_dump, m)"

definition dumpCandidateConfig :: "manager \<Rightarrow> (string, manager) outcome" where
  "dumpCandidateConfig m = (rbind (CandidateJsonConfig_get m) json_dump, m)"

text \<open>The methods the request handlers of the daemon call.\<close>

definition manager_methods :: "env \<Rightarrow> file_result \<Rightarrow> manager manager_ops" where
  "manager_methods env io =
     \<lparr>op_makeCandidateConfig = makeCandidateConfig env, op_dumpRunningConfig = dumpRunningConfig,
      op_getConfigDiff = getConfigDiff env, op_dumpCandidateConfig = dumpCandidateConfig,
      op_applyCandidateConfig = applyCandidateConfig io, op_cancelCandidateConfig = cancelCandidateConfig env\<rparr>"

end
