(* ===== verification/Transaction.thy ===== *)
theory Transaction
  imports Additions
begin

section \<open>What making a candidate keeps\<close>

text \<open>
  The phases of \<open>fMakeCandidateConfigInternal\<close> change what matters outside of it in few ways: they send
  messages and change the candidate references of the manager, they remove children of the tree and
  replace nodes by what a loader made of them, they index the document. Whatever survives these steps
  survives the whole function, whether it succeeds, fails or raises.
\<close>

lemma elementary_phases [simp]:
  "snd (succeed b) = b"
  "snd (fail b) = b"
  "snd (exit_process b) = b"
  "snd (null_deref b) = b"
  by (simp_all add: succeed_def fail_def exit_process_def null_deref_def)

subsection \<open>Invariants of the phases\<close>

locale build_invariant =
  fixes I :: "build \<Rightarrow> bool"
  assumes scratch:
      "I b \<Longrightarrow> I (b\<lparr>config_to_remove := root\<rparr>)" "I b \<Longrightarrow> I (b\<lparr>xpaths_to_remove := xs\<rparr>)"
      "I b \<Longrightarrow> I (b\<lparr>path_nodes := xs\<rparr>)" "I b \<Longrightarrow> I (b\<lparr>subnodes_xpath := xs\<rparr>)"
      "I b \<Longrightarrow> I (b\<lparr>ordered_nodes := xs\<rparr>)" "I b \<Longrightarrow> I (b\<lparr>removed_nodes := xs\<rparr>)"
      "I b \<Longrightarrow> I (b\<lparr>added_nodes := xs\<rparr>)"
    and posting: "I b \<Longrightarrow> I (b\<lparr>mngr := (mngr b)\<lparr>posted := posted (mngr b) @ [msg]\<rparr>\<rparr>)"
    and referencing: "I b \<Longrightarrow> I (b\<lparr>mngr := (mngr b)\<lparr>candidate_references := refs\<rparr>\<rparr>)"
    and removing: "I b \<Longrightarrow> remove_at h (node_config b) = (ok, t) \<Longrightarrow> I (b\<lparr>node_config := t\<rparr>)"
    and loading: "I b \<Longrightarrow> XPath_select ([], node_config b) xpath = Some h \<Longrightarrow> is_composite (snd h) \<Longrightarrow>
      loaded (snd h) (ok, n) \<Longrightarrow> I (b\<lparr>node_config := replace_at_handle h n (node_config b)\<rparr>)"
    and indexing: "I b \<Longrightarrow> json_ref p (json_config b) = Inr (v, j) \<Longrightarrow> I (b\<lparr>json_config := j\<rparr>)"
    and publishing: "I b \<Longrightarrow> I (b\<lparr>jconfig := json_config b\<rparr>)"
begin

lemma of_result_keeps: "I b \<Longrightarrow> (\<And>x. r = Inr x \<Longrightarrow> I (snd (f x b))) \<Longrightarrow> I (snd (of_result r f b))"
  by (simp add: of_result_def split: sum.splits)

lemma and_then_keeps: "I (snd (p b)) \<Longrightarrow> (\<And>b'. I b' \<Longrightarrow> I (snd (q b'))) \<Longrightarrow> I (snd (and_then p q b))"
  by (cases "p b") (auto simp: and_then_def sbind_def split: sum.splits)

lemma each_keeps:
  assumes "\<And>x b. I b \<Longrightarrow> I (snd (f x b))"
  shows "I b \<Longrightarrow> I (snd (each f xs b))"
  using each_invariant [of xs I f b "fst (each f xs b)" "snd (each f xs b)"] assms by (metis prod.collapse snd_conv)

lemma send_keeps:
  assumes "I b" and "\<And>ok b'. I b' \<Longrightarrow> I (snd (k ok b'))"
  shows "I (snd (send env addr act body k b))"
  using assms(1) assms(2) [OF posting [OF assms(1)]] by (simp add: send_def post_def split: sum.split)

lemmas phase_rules = of_result_keeps and_then_keeps each_keeps send_keeps scratch

lemma rollback_removed_keeps: "I b \<Longrightarrow> I (snd (rollback_removed env b))"
  unfolding rollback_removed_def rollback_removed_nodes_def rollback_removed_node_def
  by (auto intro!: phase_rules split: option.splits simp: Let_def)

lemma item_value_keeps:
  assumes "I b" and "item_value item (json_config b) = Inr j"
  shows "I (b\<lparr>json_config := j\<rparr>)"
proof (cases "j = json_config b")
  case False
  with assms(2) obtain p v where "json_ref p (json_config b) = Inr (v, j)"
    by (auto simp: item_value_def rbind_eq_Inr split: if_splits)
  then show ?thesis by (rule indexing [OF assms(1)])
qed (use assms(1) in simp)

lemma with_item_keeps:
  assumes "I b" and "\<And>op path b. I b \<Longrightarrow> I (snd (k op path b))"
  shows "I (snd (with_item item k b))"
  unfolding with_item_def
  by (intro of_result_keeps assms(1)) (rule assms(2), rule item_value_keeps [OF assms(1)])

lemma removals_keep: "I b \<Longrightarrow> I (snd (removals patch b))"
  unfolding removals_def removal_item_def mark_removal_def Let_def
  by (auto intro!: phase_rules with_item_keeps split: option.splits)

lemma check_removals_keeps: "I b \<Longrightarrow> I (snd (check_removals b))"
  by (auto simp: check_removals_def)

lemma order_removals_keeps: "I b \<Longrightarrow> I (snd (order_removals env patch b))"
  unfolding order_removals_def Let_def
  by (auto intro!: phase_rules split: prod.splits)

lemma check_delete_constraints_keeps: "I b \<Longrightarrow> I (snd (check_delete_constraints env b))"
  unfolding check_delete_constraints_def check_removal_def
  by (auto intro!: phase_rules split: option.splits prod.splits)

lemma remove_references_keeps: "I b \<Longrightarrow> I (snd (remove_references b))"
  by (simp add: remove_references_def removeXPathReference_def Let_def referencing)

lemma send_deletes_keeps: "I b \<Longrightarrow> I (snd (send_deletes env b))"
  unfolding send_deletes_def delete_node_def Let_def
  by (auto intro!: phase_rules rollback_removed_keeps split: option.splits)

lemma remove_nodes_keeps: "I b \<Longrightarrow> I (snd (remove_nodes env b))"
  unfolding remove_nodes_def remove_node_def
  by (auto intro!: phase_rules rollback_removed_keeps intro: removing split: option.splits prod.splits)

lemma removal_phases_keep: "I b \<Longrightarrow> I (snd (removal_phases env patch b))"
  unfolding removal_phases_def
  by (intro and_then_keeps removals_keep check_removals_keeps order_removals_keeps check_delete_constraints_keeps
      remove_references_keeps send_deletes_keeps remove_nodes_keeps)

text \<open>A loader always answers true, so the branches that roll back after a failed load are not taken.\<close>

lemma load_with_keeps:
  assumes I: "I b" and h: "XPath_select ([], node_config b) xpath' = Some h"
    and l: "\<And>part r. load part (snd h) = Inr r \<Longrightarrow> loaded (snd h) r"
  shows "I (snd (load_with load on_failure xpath h b))"
  unfolding load_with_def
proof (rule of_result_keeps [OF I], clarify)
  fix part j assume "rbind (pointer_parse xpath) (\<lambda>p. json_ref p (json_config b)) = Inr (part, j)"
  then obtain p where "json_ref p (json_config b) = Inr (part, j)" by (auto simp: rbind_eq_Inr)
  with I have I1: "I (b\<lparr>json_config := j\<rparr>)" by (rule indexing)
  show "I (snd (let b2 = b\<lparr>json_config := j\<rparr> in
      if \<not> is_composite (snd h) then null_deref b2
      else of_result (load part (snd h)) (\<lambda>(ok, n) b3.
        let b4 = b3\<lparr>node_config := replace_at_handle h n (node_config b3)\<rparr> in
        if ok then succeed b4 else on_failure b4) b2))"
  proof (cases "is_composite (snd h)")
    case True
    show ?thesis unfolding Let_def not_not if_not_P [of "\<not> is_composite (snd h)", unfolded not_not, OF True]
    proof (rule of_result_keeps [OF I1], clarify)
      fix ok n assume "load part (snd h) = Inr (ok, n)"
      with l have ld: "loaded (snd h) (ok, n)" by blast
      then have ok by (simp add: loaded_def)
      with loading [OF I1 _ True ld] h
      show "I (snd ((if ok then succeed (b\<lparr>json_config := j, node_config := replace_at_handle h n (node_config (b\<lparr>json_config := j\<rparr>))\<rparr>)
          else on_failure (b\<lparr>json_config := j, node_config := replace_at_handle h n (node_config (b\<lparr>json_config := j\<rparr>))\<rparr>))))"
        by simp
    qed
  qed (use I1 in \<open>simp add: Let_def\<close>)
qed

lemma load_part_keeps:
  assumes "I b" and "XPath_select ([], node_config b) xpath' = Some h"
  shows "I (snd (load_part env jschema xpath h b))"
  using assms(1) by (auto simp: load_part_def intro!: load_with_keeps [OF assms] dest: loading_keeps(1,4) split: option.splits)

lemma load_part_keeps_scratch:
  "I b \<Longrightarrow> XPath_select ([], node_config b) xpath' = Some h \<Longrightarrow>
     I (snd (load_part env jschema xpath h (b\<lparr>path_nodes := xs\<rparr>)))"
  by (rule load_part_keeps [OF scratch(3)]) simp_all

lemma additions_keep: "I b \<Longrightarrow> I (snd (additions env patch b))"
  unfolding additions_def addition_item_def load_addition_def Let_def
  by (auto intro!: phase_rules with_item_keeps rollback_removed_keeps split: option.splits)
     (rule load_part_keeps_scratch; assumption)

lemma order_additions_keeps: "I b \<Longrightarrow> I (snd (order_additions env patch b))"
  unfolding order_additions_def
  by (auto intro!: phase_rules rollback_removed_keeps split: prod.splits)

lemma check_update_constraints_keeps: "I b \<Longrightarrow> I (snd (check_update_constraints env b))"
  unfolding check_update_constraints_def check_addition_def
  by (auto intro!: phase_rules rollback_removed_keeps split: option.splits)

lemma save_candidate_references_keeps: "I b \<Longrightarrow> I (snd (save_candidate_references env b))"
  by (auto simp: save_candidate_references_def saveXPathReference_def intro: referencing split: sum.splits)

lemma rollback_added_nodes_keeps: "I b \<Longrightarrow> I (snd (rollback_added_nodes env b))"
  unfolding rollback_added_nodes_def rollback_added_node_def Let_def
  by (auto intro!: phase_rules split: option.splits)

lemma send_updates_keeps: "I b \<Longrightarrow> I (snd (send_updates env b))"
  unfolding send_updates_def update_node_def Let_def
  by (auto intro!: phase_rules rollback_removed_keeps rollback_added_nodes_keeps split: option.splits)

lemma publish_keeps: "I b \<Longrightarrow> I (snd (publish b))"
  by (simp add: publish_def publishing)

lemma addition_phases_keep: "I b \<Longrightarrow> I (snd (addition_phases env patch b))"
  unfolding addition_phases_def
  by (intro and_then_keeps additions_keep order_additions_keeps check_update_constraints_keeps
      save_candidate_references_keeps send_updates_keeps publish_keeps)

lemma make_keeps:
  assumes "I (build_init j j config m)" and "\<And>patched. json_patch j patch = Inr patched \<Longrightarrow> I (build_init patched j config m)"
  shows "I (snd (fMakeCandidateConfigInternal env patch j config m))"
proof -
  have "build_init j j config m\<lparr>json_config := patched\<rparr> = build_init patched j config m" for patched
    by (simp add: build_init_def)
  with assms show ?thesis unfolding fMakeCandidateConfigInternal_def
    by (auto intro!: of_result_keeps and_then_keeps removal_phases_keep addition_phases_keep)
qed

end

text \<open>What stays: everything but the candidate references and the messages, which only grow.\<close>

definition only_sent :: "manager \<Rightarrow> manager \<Rightarrow> bool" where
  "only_sent m m' \<longleftrightarrow> (\<exists>refs msgs. m' = m\<lparr>candidate_references := refs, posted := posted m @ msgs\<rparr>)"

interpretation sending: build_invariant "\<lambda>b. only_sent m (mngr b)"
proof
  fix b msg refs assume "only_sent m (mngr b)"
  then obtain r ms where m': "mngr b = m\<lparr>candidate_references := r, posted := posted m @ ms\<rparr>"
    by (auto simp: only_sent_def)
  show "only_sent m (mngr (b\<lparr>mngr := (mngr b)\<lparr>posted := posted (mngr b) @ [msg]\<rparr>\<rparr>))"
    unfolding only_sent_def by (rule exI [of _ r], rule exI [of _ "ms @ [msg]"]) (simp add: m')
  show "only_sent m (mngr (b\<lparr>mngr := (mngr b)\<lparr>candidate_references := refs\<rparr>\<rparr>))"
    unfolding only_sent_def by (rule exI [of _ refs], rule exI [of _ ms]) (simp add: m')
qed simp_all

lemma only_sent_refl: "only_sent m m"
  unfolding only_sent_def by (rule exI [of _ "candidate_references m"], rule exI [of _ "[]"]) simp

lemma make_only_sends:
  "fMakeCandidateConfigInternal env patch j config m = (r, b) \<Longrightarrow> only_sent m (mngr b)"
  using sending.make_keeps [of m j config m patch env] only_sent_refl [of m] by (simp add: build_init_def)

text \<open>The tree stays well formed under its root.\<close>

definition wf_root :: "node \<Rightarrow> bool" where
  "wf_root t \<longleftrightarrow> wf_node t \<and> Name t = ROOT_TOKEN \<and> is_composite t"

lemma is_composite_Remove: "is_composite (snd (Composite_Remove k t)) = is_composite t"
  by (cases t) simp_all

lemma is_composite_update_const:
  "is_composite n \<Longrightarrow> is_composite t \<Longrightarrow> is_composite (update_at ks (\<lambda>t. n) t)"
  by (cases ks; cases t) (auto split: option.splits)

interpretation tree: build_invariant "\<lambda>b. wf_root (node_config b)"
proof
  fix b h ok t' assume t: "wf_root (node_config b)" and r: "remove_at h (node_config b) = (ok, t')"
  from r have "t' = update_at (butlast (path_of h)) (\<lambda>t. snd (Composite_Remove (Name (snd h)) t)) (node_config b)"
    by (simp add: remove_at_def Let_def)
  with t show "wf_root (node_config (b\<lparr>node_config := t'\<rparr>))"
    by (simp add: wf_root_def wf_update_at wf_Composite_Remove is_composite_update_at is_composite_Remove)
next
  fix b h xpath ok n
  assume t: "wf_root (node_config b)" and h: "XPath_select ([], node_config b) xpath = Some h" "is_composite (snd h)"
    "loaded (snd h) (ok, n)"
  obtain anc c where hc: "h = (anc, c)" by fastforce
  have w: "walk (path_of h) ([], node_config b) = Some (anc, c)" using t h(1) select_walk hc by (simp add: wf_root_def)
  have "wf_node c" using walk_names [OF _ w] t by (simp add: wf_root_def)
  with h hc have n: "wf_node n" "Name n = Name c" "is_composite n" by (auto simp: loaded_def)
  from update_at_const [OF n(1) _ w n(2)] t n(3)
  show "wf_root (node_config (b\<lparr>node_config := replace_at_handle h n (node_config b)\<rparr>))"
    by (simp add: wf_root_def replace_at_handle_def is_composite_update_const)
qed simp_all

lemma make_keeps_tree:
  "fMakeCandidateConfigInternal env patch j config m = (r, b) \<Longrightarrow> wf_root config \<Longrightarrow> wf_root (node_config b)"
  using tree.make_keeps [of j config m patch env] by (simp add: build_init_def)

text \<open>The documents stay well formed.\<close>

interpretation documents: build_invariant "\<lambda>b. wf_json (json_config b) \<and> wf_json (jconfig b)"
  by unfold_locales (auto dest: wf_json_ref)

lemma make_keeps_documents:
  "fMakeCandidateConfigInternal env patch j config m = (r, b) \<Longrightarrow> wf_json patch \<Longrightarrow> wf_json j \<Longrightarrow> wf_json (jconfig b)"
  using documents.make_keeps [of j config m patch env] by (auto simp: build_init_def dest: wf_patch)

end
