(* ===== verification/Life_Cycle.thy ===== *)
theory Life_Cycle
  imports Manager Transaction
begin

section \<open>The life cycle of the configuration\<close>

text \<open>
  What the methods of the manager promise: which of its state a call can change, for every way it can end,
  and the invariant of a manager that was loaded and then gets any sequence of calls.
\<close>

subsection \<open>Only sent\<close>

lemma only_sent_trans: "only_sent m m1 \<Longrightarrow> only_sent m1 m2 \<Longrightarrow> only_sent m m2"
proof -
  assume "only_sent m m1" "only_sent m1 m2"
  then obtain r ms r' ms' where "m1 = m\<lparr>candidate_references := r, posted := posted m @ ms\<rparr>"
    and "m2 = m1\<lparr>candidate_references := r', posted := posted m1 @ ms'\<rparr>"
    unfolding only_sent_def by blast
  then have "m2 = m\<lparr>candidate_references := r', posted := posted m @ (ms @ ms')\<rparr>" by simp
  then show ?thesis unfolding only_sent_def by blast
qed

lemma only_sent_fields:
  assumes "only_sent m m'"
  shows "running_config m' = running_config m" and "candidate_config m' = candidate_config m"
    and "is_candidate_config_ready m' = is_candidate_config_ready m" and "running_references m' = running_references m"
    and "json_schema m' = json_schema m" and "running_json m' = running_json m"
    and "candidate_json m' = candidate_json m" and "config_file m' = config_file m"
    and "\<exists>msgs. posted m' = posted m @ msgs"
  using assms by (auto simp: only_sent_def)

lemma saving_only_sends: "saveXPathReference env ordered root m = (r, m') \<Longrightarrow> only_sent m m'"
proof -
  assume s: "saveXPathReference env ordered root m = (r, m')"
  then have "\<exists>refs. m' = m\<lparr>candidate_references := refs, posted := posted m @ []\<rparr>"
    by (cases "save_all_references env m root ordered (candidate_references m)")
       (auto simp: saveXPathReference_def intro: exI [of _ "candidate_references m"])
  then show ?thesis unfolding only_sent_def by blast
qed

lemma posting_only_sends: "post env addr path body m = (r, m') \<Longrightarrow> only_sent m m'"
  by (auto simp: post_def only_sent_refl split: sum.splits)
     (auto simp: only_sent_def intro!: exI [of _ "candidate_references m"] exI [of _ "[(addr, path, body)]"])

lemma load_tree_loaded:
  assumes "load_tree env jschema j = Inr (Some (ok, t))"
  shows "ok" and "wf_root t"
proof -
  have "loaded (Composite ROOT_TOKEN []) (ok, t)"
    using assms loading_keeps(1,4) by (auto simp: load_tree_def rbind_eq_Inr split: option.splits)
  then show ok "wf_root t" by (simp_all add: loaded_def wf_root_def)
qed

lemma load_and_save_cases:
  assumes "load_and_save env jschema j m = (r, m')"
  shows "only_sent m m'" and "r = Inr (Some t) \<Longrightarrow> load_tree env jschema j = Inr (Some (True, t))"
proof -
  have "only_sent m m' \<and> (\<forall>t. r = Inr (Some t) \<longrightarrow> load_tree env jschema j = Inr (Some (True, t)))"
  proof (cases "\<exists>ok root ordered. load_tree env jschema j = Inr (Some (ok, root)) \<and> ok \<and>
      resolve (env_regex env) (env_depth env) (json_schema m) root = Inr (True, ordered)")
    case False
    with assms have "m' = m \<and> (\<forall>t. r \<noteq> Inr (Some t))"
      by (auto simp: load_and_save_def split: sum.splits option.splits if_splits)
    then show ?thesis by (simp add: only_sent_refl)
  next
    case True
    then obtain root ordered where t: "load_tree env jschema j = Inr (Some (True, root))"
      and o: "resolve (env_regex env) (env_depth env) (json_schema m) root = Inr (True, ordered)" by auto
    obtain r1 m1 where s: "saveXPathReference env ordered root m = (r1, m1)" by fastforce
    from assms t o s have "m' = m1" "\<forall>t. r = Inr (Some t) \<longrightarrow> t = root"
      by (cases r1; auto simp: load_and_save_def)+
    with saving_only_sends [OF s] t show ?thesis by auto
  qed
  then show "only_sent m m'" "r = Inr (Some t) \<Longrightarrow> load_tree env jschema j = Inr (Some (True, t))" by blast+
qed

lemma reload_cases:
  assumes "fReloadNodeConfig env jschema j m = (r, m')"
  shows "only_sent m m'"
    and "r = Inr (Some t) \<Longrightarrow> load_tree env jschema j = Inr (Some (True, t)) \<and> env_validate env jschema j"
  using assms load_and_save_cases [of env jschema j m r m']
  by (auto simp: fReloadNodeConfig_def validateJsonConfig_def only_sent_refl split: if_splits)

subsection \<open>Making a candidate\<close>

definition made :: "env \<Rightarrow> manager \<Rightarrow> manager \<Rightarrow> bool" where
  "made env m m' \<longleftrightarrow>
     (\<exists>m1 t j. only_sent m m1 \<and> load_tree env (json_schema m) j = Inr (Some (True, t)) \<and>
        env_validate env (json_schema m) j \<and> (wf_json (running_json m) \<longrightarrow> wf_json j) \<and>
        m' = m1\<lparr>candidate_config := Some t, running_references := candidate_references m1, candidate_json := j,
               is_candidate_config_ready := True\<rparr>)"

lemma make_cases:
  assumes "makeCandidateConfig env text m = (r, m')"
  shows "(r \<noteq> Inr True \<and> only_sent m m') \<or> (r = Inr True \<and> made env m m')"
proof (cases "running_config m")
  case None
  with assms show ?thesis by (auto simp: makeCandidateConfig_def only_sent_refl)
next
  case (Some running)
  define start where "start = rbind (RunningJsonConfig_get m) (\<lambda>j. rbind (json_parse text) (\<lambda>patch.
      rbind (fValidatePatch patch j) (\<lambda>invalid. Inr (j, patch, invalid))))"
  show ?thesis
  proof (cases "\<exists>j patch. start = Inr (j, patch, False)")
    case False
    with assms Some have "m' = m \<and> r \<noteq> Inr True"
      by (auto simp: makeCandidateConfig_def start_def [symmetric] split: sum.splits)
    then show ?thesis by (simp add: only_sent_refl)
  next
    case True
    then obtain j patch where st: "start = Inr (j, patch, False)" by blast
    then have j: "j = running_json m" "wf_json patch"
      by (auto simp: start_def rbind_eq_Inr RunningJsonConfig_get_def json_parse_wf split: if_splits)
    obtain r1 b where i: "fMakeCandidateConfigInternal env patch j (copy_config running) m = (r1, b)" by fastforce
    note sent = make_only_sends [OF i]
    note sch = only_sent_fields(5) [OF sent]
    show ?thesis
    proof (cases "r1 = Inr True \<and> json_schema m \<noteq> JNull")
      case False
      with assms Some st i sch have "m' = mngr b \<and> r \<noteq> Inr True"
        by (cases r1) (auto simp: makeCandidateConfig_def start_def [symmetric] JsonSchema_get_def split: bool.splits)
      with sent show ?thesis by simp
    next
      case True
      obtain r2 m1 where f: "fReloadNodeConfig env (json_schema m) (jconfig b) (mngr b) = (r2, m1)" by fastforce
      have s1: "only_sent m m1" using only_sent_trans [OF sent reload_cases(1) [OF f]] .
      show ?thesis
      proof (cases "\<exists>t. r2 = Inr (Some t)")
        case False
        with assms Some st i True sch f have "m' = m1 \<and> r \<noteq> Inr True"
          by (cases r2) (auto simp: makeCandidateConfig_def start_def [symmetric] JsonSchema_get_def split: option.splits)
        with s1 show ?thesis by simp
      next
        case ex: True
        then obtain t where t: "r2 = Inr (Some t)" by blast
        with assms Some st i True sch f have m': "r = Inr True"
          "m' = m1\<lparr>candidate_config := Some t, running_references := candidate_references m1,
             candidate_json := jconfig b, is_candidate_config_ready := True\<rparr>"
          by (simp_all add: makeCandidateConfig_def start_def [symmetric] JsonSchema_get_def)
        have "made env m m'" unfolding made_def
          by (intro exI [of _ m1] exI [of _ t] exI [of _ "jconfig b"])
             (use s1 m' reload_cases(2) [OF f t] make_keeps_documents [OF i] j in simp)
        with m' show ?thesis by simp
      qed
    qed
  qed
qed


subsection \<open>Applying and cancelling\<close>

definition published :: "string \<Rightarrow> manager \<Rightarrow> manager" where
  "published text m = m\<lparr>config_file := Some text, running_config := candidate_config m,
     running_json := candidate_json m, candidate_config := None, candidate_json := JNull,
     is_candidate_config_ready := False\<rparr>"

lemma apply_cases:
  assumes "applyCandidateConfig io m = (r, m')"
  shows "(r \<noteq> Inr True \<and> m' = m) \<or> (r = Inr True \<and> is_candidate_config_ready m \<and> io = Renamed \<and>
      (\<exists>text. json_dump_indented (candidate_json m) = Inr text \<and> m' = published text m))"
  using assms
  by (auto simp: applyCandidateConfig_def CandidateJsonConfig_get_def published_def split: if_splits sum.splits)

text \<open>What a failed cancellation leaves: the tree of the candidate, worked on by the phases.\<close>

definition worked_on :: "manager \<Rightarrow> manager \<Rightarrow> bool" where
  "worked_on m m' \<longleftrightarrow> (\<exists>m1 t. only_sent m m1 \<and> m' = m1\<lparr>candidate_config := Some t\<rparr> \<and>
     (\<forall>c. candidate_config m = Some c \<longrightarrow> wf_root c \<longrightarrow> wf_root t) \<and> candidate_config m \<noteq> None \<and>
     is_candidate_config_ready m)"

definition cleared :: "manager \<Rightarrow> manager \<Rightarrow> bool" where
  "cleared m m' \<longleftrightarrow> (\<exists>m1. only_sent m m1 \<and>
     m' = m1\<lparr>candidate_config := None, candidate_json := JNull, is_candidate_config_ready := False\<rparr>)"

lemma cancel_cases:
  assumes "cancelCandidateConfig env m = (r, m')"
  shows "(r \<noteq> Inr True \<and> (m' = m \<or> worked_on m m')) \<or> (r = Inr True \<and> is_candidate_config_ready m \<and> cleared m m')"
proof (cases "is_candidate_config_ready m \<and> (\<exists>p j p'. cancel_patch env m = Inr (Some (p, j)) \<and> reparsed p = Inr p') \<and>
    candidate_config m \<noteq> None")
  case False
  with assms have "m' = m \<and> r \<noteq> Inr True"
    by (auto simp: cancelCandidateConfig_def split: sum.splits option.splits if_splits)
  then show ?thesis by simp
next
  case True
  then obtain patch patch' j c where ready: "is_candidate_config_ready m"
    and p: "cancel_patch env m = Inr (Some (patch, j))" "reparsed patch = Inr patch'" and c: "candidate_config m = Some c" by auto
  obtain r1 b where i: "fMakeCandidateConfigInternal env patch' j c m = (r1, b)" by fastforce
  note sent = make_only_sends [OF i]
  have w: "worked_on m (m1\<lparr>candidate_config := Some (node_config b)\<rparr>)" if "only_sent m m1" for m1
    unfolding worked_on_def
    by (rule exI [of _ m1], rule exI [of _ "node_config b"]) (use that ready c make_keeps_tree [OF i] in simp)
  have "only_sent m ((mngr b)\<lparr>candidate_references := candidate_references m\<rparr>)"
    using sending.referencing [OF sent] by simp
  from w [OF this]
  have "worked_on m ((mngr b)\<lparr>candidate_config := Some (node_config b), candidate_references := candidate_references m\<rparr>)"
    by (rule back_subst) simp
  with w [OF sent] sent show ?thesis
    using assms ready p c i
    by (cases r1) (auto simp: cancelCandidateConfig_def Let_def cleared_def split: bool.splits)
qed

subsection \<open>The invariant\<close>

definition manager_inv :: "env \<Rightarrow> manager \<Rightarrow> bool" where
  "manager_inv env m \<longleftrightarrow>
     (\<exists>t. running_config m = Some t \<and> wf_root t) \<and>
     env_validate env (json_schema m) (running_json m) \<and> wf_json (running_json m) \<and>
     (\<exists>text. config_file m = Some text \<and> file_holds text (running_json m)) \<and>
     (if is_candidate_config_ready m
      then (\<exists>t. candidate_config m = Some t \<and> wf_root t) \<and>
        env_validate env (json_schema m) (candidate_json m) \<and> wf_json (candidate_json m)
      else candidate_config m = None \<and> candidate_json m = JNull)"

lemma inv_only_sent: "manager_inv env m \<Longrightarrow> only_sent m m' \<Longrightarrow> manager_inv env m'"
  by (simp add: manager_inv_def only_sent_fields)

lemma inv_made: "manager_inv env m \<Longrightarrow> made env m m' \<Longrightarrow> manager_inv env m'"
  unfolding made_def
  by (elim exE conjE) (auto simp: manager_inv_def only_sent_fields dest: load_tree_loaded(2))

lemma inv_published:
  "manager_inv env m \<Longrightarrow> is_candidate_config_ready m \<Longrightarrow> json_dump_indented (candidate_json m) = Inr text \<Longrightarrow>
     manager_inv env (published text m)"
  by (simp add: manager_inv_def published_def file_holds_dumped)

lemma inv_worked_on: "manager_inv env m \<Longrightarrow> worked_on m m' \<Longrightarrow> manager_inv env m'"
  unfolding worked_on_def
  by (elim exE conjE) (auto simp: manager_inv_def only_sent_fields split: if_splits)

lemma inv_cleared: "manager_inv env m \<Longrightarrow> cleared m m' \<Longrightarrow> manager_inv env m'"
  unfolding cleared_def by (elim exE conjE) (simp add: manager_inv_def only_sent_fields)

text \<open>The calls that change the manager after it was loaded, and its first states.\<close>

inductive manager_step :: "env \<Rightarrow> manager \<Rightarrow> manager \<Rightarrow> bool" for env where
  make: "makeCandidateConfig env text m = (r, m') \<Longrightarrow> manager_step env m m'"
| apply_candidate: "applyCandidateConfig io m = (r, m') \<Longrightarrow> manager_step env m m'"
| cancel: "cancelCandidateConfig env m = (r, m') \<Longrightarrow> manager_step env m m'"

definition manager_started :: "env \<Rightarrow> manager \<Rightarrow> bool" where
  "manager_started env m \<longleftrightarrow>
     (\<exists>schema_file subschemas contents. Manager_load env schema_file subschemas (Manager_init contents) = (Inr True, m))"

lemma start_rollback_only_sends:
  "start_rollback env addr path sch j actions m = (r, m') \<Longrightarrow> only_sent m m'"
proof (induction env addr path sch j actions m rule: start_rollback.induct)
  case (1 env addr path sch j m)
  then show ?case by (simp add: only_sent_refl)
next
  case (2 env addr path sch j action actions m)
  show ?case
  proof (cases "start_rollback_action sch j action")
    case (Inl e)
    with 2(2) show ?thesis by (simp add: only_sent_refl)
  next
    case (Inr body)
    obtain r1 m1 where p: "post env addr path body m = (r1, m1)" by fastforce
    show ?thesis
    proof (cases r1)
      case (Inl e)
      with 2(2) \<open>start_rollback_action sch j action = Inr body\<close> p posting_only_sends [OF p] show ?thesis by simp
    next
      case (Inr ok)
      with 2(2) \<open>start_rollback_action sch j action = Inr body\<close> p have "start_rollback env addr path sch j actions m1 = (r, m')" by simp
      from 2(1) [OF \<open>start_rollback_action sch j action = Inr body\<close> p [symmetric] Inr this] posting_only_sends [OF p]
      show ?thesis by (blast intro: only_sent_trans)
    qed
  qed
qed

lemma start_action_only_sends: "start_action env xpath st = (r, st') \<Longrightarrow> only_sent (snd st) (snd st')"
  by (auto simp: start_action_def Let_def only_sent_refl
      split: sum.splits option.splits if_splits prod.splits bool.splits
      dest!: posting_only_sends start_rollback_only_sends intro: only_sent_trans)

lemma perform_only_sends: "fPerformAction env config m = (r, m') \<Longrightarrow> only_sent m m'"
proof -
  assume f: "fPerformAction env config m = (r, m')"
  have same: "each (start_constraints env config) xs m0 = (r1, m1) \<Longrightarrow> m1 = m0" for xs m0 r1 m1
    by (rule each_invariant [where P = "\<lambda>m. m = m0"]) (auto simp: start_constraints_def)
  have sent: "only_sent m (snd st')" if "each (start_action env) xs ([], m) = (r1, st')" for xs r1 st'
    by (rule each_invariant [OF _ _ that, where P = "\<lambda>st. only_sent m (snd st)"])
       (auto simp: only_sent_refl intro: only_sent_trans dest: start_action_only_sends)
  from f show ?thesis
    by (auto simp: fPerformAction_def catch_bad_any_cast_def sbind_def only_sent_refl
        split: sum.splits prod.splits if_splits dest!: same sent)
qed

subsection \<open>Loading at the start\<close>

text \<open>The manager after the schema was loaded: only the schema is new.\<close>

lemma schema_load_cases:
  "JsonSchema_load schema_file subschemas m = (r, m') \<Longrightarrow> \<exists>jschema. m' = m\<lparr>json_schema := jschema\<rparr>"
  by (auto simp: JsonSchema_load_def split: option.splits sum.splits if_splits intro: exI [of _ "json_schema m"])

lemma load_cases:
  assumes "Manager_load env schema_file subschemas m = (r, m')"
  shows "\<exists>jschema m1. only_sent (m\<lparr>json_schema := jschema\<rparr>) m1 \<and>
    (if r = Inr True
     then \<exists>text j t. config_file m = Some text \<and> file_holds text j \<and> env_validate env jschema j \<and>
       load_tree env jschema j = Inr (Some (True, t)) \<and>
       m' = m1\<lparr>running_references := candidate_references m1, running_config := Some t, running_json := j\<rparr>
     else m' = m1)"
proof -
  obtain r1 ms where sl: "JsonSchema_load schema_file subschemas m = (r1, ms)" by fastforce
  from schema_load_cases [OF sl] obtain jschema where ms: "ms = m\<lparr>json_schema := jschema\<rparr>" by blast
  note load = assms [unfolded Manager_load_def sl]
  show ?thesis
  proof (cases "r1 = Inr True \<and> jschema \<noteq> JNull \<and> (\<exists>text j. config_file m = Some text \<and> file_holds text j \<and>
      env_validate env jschema j)")
    case False
    with load ms have "m' = ms \<and> r \<noteq> Inr True"
      by (cases r1)
         (auto simp: JsonSchema_get_def file_holds_def validateJsonConfig_def rbind_def split: option.splits if_splits sum.splits)
    then show ?thesis using only_sent_refl [of ms] ms by auto
  next
    case True
    then obtain contents j where t: "config_file m = Some contents" "file_holds contents j" "env_validate env jschema j"
      by blast
    note holds = t(2) [unfolded file_holds_def]
    obtain r2 m2 where ls: "load_and_save env jschema j ms = (r2, m2)" by fastforce
    note s2 = load_and_save_cases [OF ls]
    show ?thesis
    proof (cases "\<exists>root. r2 = Inr (Some root)")
      case False
      with load True ms t holds ls have "m' = m2 \<and> r \<noteq> Inr True"
        by (cases r2) (auto simp: JsonSchema_get_def validateJsonConfig_def split: option.splits)
      with s2 ms show ?thesis by auto
    next
      case ex: True
      then obtain root where root: "r2 = Inr (Some root)" by blast
      obtain r3 m3 where pf: "fPerformAction env root m2 = (r3, m3)" by fastforce
      have s3: "only_sent ms m3" using only_sent_trans [OF s2(1) perform_only_sends [OF pf]] .
      show ?thesis
      proof (cases "r3 = Inr True")
        case False
        with load True ms t holds ls root pf have "m' = m3 \<and> r \<noteq> Inr True"
          by (cases r3) (auto simp: JsonSchema_get_def validateJsonConfig_def)
        with s3 ms show ?thesis by auto
      next
        case r3: True
        with load True ms t holds ls root pf have "r = Inr True"
          "m' = m3\<lparr>running_references := candidate_references m3, running_config := Some root, running_json := j\<rparr>"
          by (auto simp: JsonSchema_get_def validateJsonConfig_def)
        with s3 ms t s2(2) [OF root] show ?thesis by auto
      qed
    qed
  qed
qed

lemma inv_started: "manager_started env m \<Longrightarrow> manager_inv env m"
proof -
  assume "manager_started env m"
  then obtain schema_file subschemas contents where l: "Manager_load env schema_file subschemas (Manager_init contents) = (Inr True, m)"
    by (auto simp: manager_started_def)
  from load_cases [OF l] obtain jschema m1 loaded_text j t where
    s: "only_sent ((Manager_init contents)\<lparr>json_schema := jschema\<rparr>) m1" and t: "config_file (Manager_init contents) = Some loaded_text"
    "file_holds loaded_text j" "env_validate env jschema j" "load_tree env jschema j = Inr (Some (True, t))"
    and m: "m = m1\<lparr>running_references := candidate_references m1, running_config := Some t, running_json := j\<rparr>"
    by auto
  from only_sent_fields [OF s] t load_tree_loaded(2) [OF t(4)] file_holds_wf [OF t(2)] show ?thesis
    by (simp add: manager_inv_def m Manager_init_def)
qed

lemma inv_step:
  assumes "manager_step env m m'" and "manager_inv env m"
  shows "manager_inv env m'"
  using assms(1)
proof cases
  case (make cmd r)
  from make_cases [OF make] assms(2) inv_only_sent inv_made show ?thesis by blast
next
  case (apply_candidate io r)
  from apply_cases [OF apply_candidate] assms(2) inv_published show ?thesis by blast
next
  case (cancel r)
  from cancel_cases [OF cancel] assms(2) inv_worked_on inv_cleared show ?thesis by blast
qed

interpretation manager: inductive_invariant "manager_started env" "manager_step env"
    "manager_inv env" for env
  by unfold_locales (auto simp: inv_started manager_started_def intro: inv_step)

subsection \<open>A small run\<close>

text \<open>One leaf with an action, one patch that replaces its value and the patch back, servers that accept everything.\<close>

definition name_schema :: json where
  "name_schema = JObj
     [(''action'', JObj [(''on-delete-path'', JStr ''/delete''), (''on-update-path'', JStr ''/update''),
                         (''server-address'', JStr ''netd'')]),
      (''type'', JStr ''string'')]"

definition host_schema :: json where
  "host_schema = JObj [(''properties'', JObj
     [(''host'', JObj [(''properties'', JObj [(''name'', name_schema)]), (''type'', JStr ''object'')])])]"

definition host_json :: "string \<Rightarrow> json" where
  "host_json n = JObj [(''host'', JObj [(''name'', JStr n)])]"

definition host_text :: "string \<Rightarrow> string" where
  "host_text n = ''{\"host\":{\"name\":\"'' @ n @ ''\"}}''"

definition host_tree :: "string \<Rightarrow> node" where
  "host_tree n = Composite ''/'' [(''host'', Composite ''host''
     [(''name'', Leaf ''name'' \<lparr>vtype = STRING, holder = Some (HString n)\<rparr>)])]"

definition name_patch :: "string \<Rightarrow> json" where
  "name_patch n = JArr [JObj [(''op'', JStr ''replace''), (''path'', JStr ''/host/name''), (''value'', JStr n)]]"

definition name_patch_text :: "string \<Rightarrow> string" where
  "name_patch_text n = ''[{\"op\":\"replace\",\"path\":\"/host/name\",\"value\":\"'' @ n @ ''\"}]''"

definition host_env :: env where
  "host_env =
     \<lparr>env_regex = literal_regex, env_validate = (\<lambda>jschema j. j \<noteq> JNull),
      env_send = (\<lambda>sent addr path body content_type. Some empty_response), env_depth = 9,
      env_regex_search = (\<lambda>s r. Inr None)\<rparr>"

definition name_message :: "string \<Rightarrow> string \<Rightarrow> message" where
  "name_message op n = (''netd'', ''/update'',
     JObj [(''op'', JStr op), (''params'', JObj []), (''path'', JStr ''/host/name''), (''value'', JStr n)])"

definition host_start :: manager where
  "host_start = Manager_init (Some (host_text ''r1''))"

definition host_running :: manager where
  "host_running = host_start\<lparr>json_schema := host_schema, running_config := Some (host_tree ''r1''),
     running_json := host_json ''r1'', posted := [name_message ''add'' ''r1'']\<rparr>"

lemma host_loading: "Manager_load host_env (Some (Inr host_schema)) [] host_start = (Inr True, host_running)"
  by code_simp


definition replace_message :: message where
  "replace_message = (''netd'', ''/update'',
     JObj [(''op'', JStr ''replace''), (''path'', JStr ''/host/name''), (''value'', JStr ''r2'')])"

definition host_made :: manager where
  "host_made = host_running\<lparr>candidate_config := Some (host_tree ''r2''), candidate_json := host_json ''r2'',
     is_candidate_config_ready := True, posted := [name_message ''add'' ''r1'', replace_message]\<rparr>"

lemma host_make: "makeCandidateConfig host_env (name_patch_text ''r2'') host_running = (Inr True, host_made)"
  by code_simp

text \<open>What applying it writes.\<close>

definition host_file :: string where
  "host_file = ''{'' @ line_start True 4 @ ''\"host\": {'' @ line_start True 8 @ ''\"name\": \"r2\"'' @ line_start True 4 @ ''}'' @
     line_start True 0 @ ''}''"

lemma host_dump: "json_dump_indented (host_json ''r2'') = Inr host_file"
  by code_simp

lemma host_started: "manager_started host_env host_running"
  using host_loading unfolding manager_started_def host_start_def by blast

lemma host_reachable: "reachable (manager_started host_env) (manager_step host_env) host_made"
  by (rule reachable_step [where s = host_running], rule reachable_init, rule host_started, rule make, rule host_make)

subsection \<open>Properties\<close>

text \<open>After a successful start, whatever calls make, apply or cancel candidates in whatever order and however they
  end: the running configuration is a well-formed tree and its document is valid; the configuration file holds
  exactly the running document; and a candidate is there, valid, exactly when the flag says so.\<close>

theorem running_configuration_stays_valid:
  assumes "reachable (manager_started env) (manager_step env) m"
  shows "manager_inv env m"
  using manager.reachable_inv [OF assms] by blast

theorem running_configuration_stays_valid_witness:
  "manager_inv host_env host_made \<and> candidate_json host_made = host_json ''r2''"
  using running_configuration_stays_valid [OF host_reachable] by (simp add: host_made_def)

text \<open>C4 Making a candidate never touches the running configuration, its document or the file, and when it does not
  succeed it leaves the candidate alone, too: only messages were sent and candidate references changed. When it
  succeeds, the candidate is the tree loaded from a valid document, and ready.\<close>

theorem making_a_candidate_keeps_the_running_configuration:
  assumes "makeCandidateConfig env text m = (r, m')"
  shows "running_config m' = running_config m \<and> running_json m' = running_json m \<and> config_file m' = config_file m \<and>
    (\<exists>msgs. posted m' = posted m @ msgs) \<and>
    (if r = Inr True
     then is_candidate_config_ready m' \<and> env_validate env (json_schema m) (candidate_json m') \<and>
       (\<exists>t. candidate_config m' = Some t \<and> load_tree env (json_schema m) (candidate_json m') = Inr (Some (True, t)))
     else only_sent m m')"
proof (cases "r = Inr True")
  case False
  with make_cases [OF assms] have "only_sent m m'" by blast
  with False only_sent_fields [OF this] show ?thesis by simp
next
  case True
  with make_cases [OF assms] have "made env m m'" by blast
  then obtain m1 t j where s: "only_sent m m1" and t: "load_tree env (json_schema m) j = Inr (Some (True, t))"
    "env_validate env (json_schema m) j" and m': "m' = m1\<lparr>candidate_config := Some t,
      running_references := candidate_references m1, candidate_json := j, is_candidate_config_ready := True\<rparr>"
    unfolding made_def by blast
  from only_sent_fields [OF s] t True show ?thesis by (simp add: m')
qed

theorem making_a_candidate_keeps_the_running_configuration_witness:
  "load_tree host_env host_schema (host_json ''r2'') = Inr (Some (True, host_tree ''r2'')) \<and>
   running_json host_made = host_json ''r1''"
  using making_a_candidate_keeps_the_running_configuration [OF host_make]
  by (simp add: host_made_def host_running_def host_start_def Manager_init_def)

text \<open>Applying publishes the candidate or does nothing: it changes the manager exactly when a candidate is ready,
  its document is not null and can be written, and the file was replaced; then the file, the running document and the running tree
  are the candidate's, and the candidate is gone.\<close>

theorem apply_publishes_or_does_nothing:
  "applyCandidateConfig io m =
     (if \<not> is_candidate_config_ready m \<or> io = Open_failed then (Inr False, m)
      else if candidate_json m = JNull then (Inl (RuntimeError ''Candidate JSON config is not initialized yet''), m)
      else case json_dump_indented (candidate_json m) of
             Inl e \<Rightarrow> (Inl e, m)
           | Inr text \<Rightarrow> if io = Renamed then (Inr True, published text m) else (Inr False, m))"
  by (simp add: applyCandidateConfig_def CandidateJsonConfig_get_def published_def split: sum.split)



text \<open>C22 Cancelling clears the candidate and leaves the running configuration, its document and the file alone. When
  it fails, the candidate is still ready with the same document, but its tree may have been changed by the phases
  that ran: applied then, it publishes a tree that is not the one of the document.\<close>

theorem cancelling_keeps_the_running_configuration:
  assumes "cancelCandidateConfig env m = (r, m')"
  shows "running_config m' = running_config m \<and> running_json m' = running_json m \<and> config_file m' = config_file m \<and>
    (if r = Inr True
     then \<not> is_candidate_config_ready m' \<and> candidate_config m' = None \<and> candidate_json m' = JNull
     else is_candidate_config_ready m' = is_candidate_config_ready m \<and> candidate_json m' = candidate_json m)"
  using cancel_cases [OF assms]
proof (elim disjE conjE)
  assume w: "r \<noteq> Inr True" "worked_on m m'"
  then obtain m1 t where "only_sent m m1" "m' = m1\<lparr>candidate_config := Some t\<rparr>" unfolding worked_on_def by blast
  with w(1) show ?thesis by (simp add: only_sent_fields)
next
  assume c: "r = Inr True" "cleared m m'"
  then obtain m1 where "only_sent m m1"
    "m' = m1\<lparr>candidate_config := None, candidate_json := JNull, is_candidate_config_ready := False\<rparr>"
    unfolding cleared_def by blast
  with c(1) show ?thesis by (simp add: only_sent_fields)
qed simp

theorem cancelling_keeps_the_running_configuration_witness:
  "is_candidate_config_ready host_running = False \<and> fst (cancelCandidateConfig host_env host_made) = Inr True"
proof -
  have "fst (cancelCandidateConfig host_env host_made) = Inr True" by code_simp
  then have "\<not> is_candidate_config_ready (snd (cancelCandidateConfig host_env host_made))"
    using cancelling_keeps_the_running_configuration [of host_env host_made "Inr True"
        "snd (cancelCandidateConfig host_env host_made)"] by (simp add: prod_eq_iff)
  then show ?thesis
    using \<open>fst (cancelCandidateConfig host_env host_made) = Inr True\<close>
    by (simp add: host_running_def host_start_def Manager_init_def)
qed

text \<open>C23 A start that answers true has loaded the document of the file, which has no duplicated key and is valid, into
  a well-formed tree; every other start leaves the manager without a running configuration.\<close>

theorem start_loads_the_file_or_nothing:
  assumes "Manager_load env schema_file subschemas (Manager_init contents) = (r, m)"
  shows "if r = Inr True
    then \<exists>text t. contents = Some text \<and> json_parse text = Inr (running_json m) \<and>
      CheckIfThereIsDuplicatedKey text = Inr False \<and> env_validate env (json_schema m) (running_json m) \<and> running_config m = Some t \<and> wf_root t \<and>
      load_tree env (json_schema m) (running_json m) = Inr (Some (True, t))
    else running_config m = None \<and> running_json m = JNull"
proof -
  from load_cases [OF assms] obtain jschema m1 where
    s: "only_sent ((Manager_init contents)\<lparr>json_schema := jschema\<rparr>) m1"
    and c: "if r = Inr True
     then \<exists>text j t. config_file (Manager_init contents) = Some text \<and> file_holds text j \<and> env_validate env jschema j \<and>
       load_tree env jschema j = Inr (Some (True, t)) \<and>
       m = m1\<lparr>running_references := candidate_references m1, running_config := Some t, running_json := j\<rparr>
     else m = m1" by blast
  show ?thesis
  proof (cases "r = Inr True")
    case True
    with c obtain loaded_text j t where t: "contents = Some loaded_text" "file_holds loaded_text j" "env_validate env jschema j"
      "load_tree env jschema j = Inr (Some (True, t))"
      and m: "m = m1\<lparr>running_references := candidate_references m1, running_config := Some t, running_json := j\<rparr>"
      by (auto simp: Manager_init_def)
    from only_sent_fields(5) [OF s] t load_tree_loaded(2) [OF t(4)] True show ?thesis by (simp add: m file_holds_def)
  next
    case False
    with c only_sent_fields [OF s] show ?thesis by (simp add: Manager_init_def)
  qed
qed

theorem start_loads_the_file_or_nothing_witness:
  "json_parse (host_text ''r1'') = Inr (host_json ''r1'') \<and> wf_root (host_tree ''r1'')"
proof -
  have "Manager_load host_env (Some (Inr host_schema)) [] (Manager_init (Some (host_text ''r1''))) = (Inr True, host_running)"
    using host_loading by (simp add: host_start_def)
  from start_loads_the_file_or_nothing [OF this] show ?thesis
    by (auto simp: host_running_def)
qed

end
