(* ===== verification/Release.thy ===== *)
theory Release
  imports Connection
begin

section \<open>An abandoned session does not hold the daemon\<close>

text \<open>
  Only one session changes the configuration at a time, so it must not stay active for ever when its client is
  gone. The sweep of the session manager comes to its end and ends it, with the callbacks the server gives to it:
  no timer vanishes between the list of the expired ones and its turn.
\<close>

definition never_raises :: "'m itself \<Rightarrow> ('m routing \<Rightarrow> bool) \<Rightarrow> bool" where
  "never_raises T P \<longleftrightarrow> (\<forall>w. P w \<longrightarrow> (\<exists>x w'. processRequest DEL CANDIDATE [] [] w = (Inr x, w') \<and> P w'))"

lemma fire_timers_total:
  assumes n: "never_raises TYPE('m) P"
  shows "server_inv (w, s) \<Longrightarrow> P w \<Longrightarrow> distinct ts \<Longrightarrow> \<forall>t \<in> set ts. sm_find (timers s) t \<noteq> None \<Longrightarrow>
    \<exists>st'. fire_timers (run_callback now) ts (w :: 'm routing, s) = Inr st'"
proof (induction ts arbitrary: w s)
  case (Cons t ts)
  from Cons.prems(4) obtain d where d: "sm_find (timers s) t = Some d" by auto
  with Cons.prems(1) have cb: "TimerCB d = CancelCandidateCB"
    by (simp add: server_inv_def timers_cancel_def)
  from n Cons.prems(2) obtain x w1 where p: "processRequest DEL CANDIDATE [] [] w = (Inr x, w1)" and w1: "P w1"
    unfolding never_raises_def by blast
  obtain s1 where s1: "run_callback now CancelCandidateCB t (w, s) = Inr (w1, s1)" by (simp add: run_callback_def p)
  note same = run_timer_leased [OF s1 refl]
  let ?s = "s1\<lparr>timers := sm_erase t (timers s1)\<rparr>"
  from run_timer_callback [OF s1 Cons.prems(1)] have "server_inv (w1, s1)" .
  then have inv: "server_inv (w1, ?s)" by (rule server_inv_erase_timer)
  have "\<forall>u \<in> set ts. sm_find (timers ?s) u \<noteq> None"
    using Cons.prems(1,3,4) same(2) by (auto simp: sm_find_erase server_inv_def wf_sessions_def)
  from Cons.IH [OF inv w1 _ this] Cons.prems(3) d cb s1 show ?case by (auto simp: rbind_eq_Inr)
qed simp

lemma expired_timers_found:
  assumes "sm_sorted (timers s)"
  shows "distinct (expired_timers now s)"
    and "\<forall>t \<in> set (expired_timers now s). sm_find (timers (erase_timers (stopped_timers s) s)) t \<noteq> None"
proof -
  show "distinct (expired_timers now s)"
    using distinct_keys [OF assms] by (simp add: expired_timers_def distinct_map_filter)
  show "\<forall>t \<in> set (expired_timers now s). sm_find (timers (erase_timers (stopped_timers s) s)) t \<noteq> None"
  proof
    fix t assume t: "t \<in> set (expired_timers now s)"
    then obtain d where "(t, d) \<in> set (timers s)" by (auto simp: expired_timers_def)
    then have d: "sm_find (timers s) t = Some d" using assms by (simp add: sm_find_entry)
    with t have "t \<notin> set (stopped_timers s)"
      using stopped_timer_iff [OF assms d] expired_timer_iff [OF assms d] by simp
    with d assms show "sm_find (timers (erase_timers (stopped_timers s) s)) t \<noteq> None"
      by (simp add: erase_timers_def sm_find_fold_erase)
  qed
qed

lemma server_sweep_total:
  assumes "server_inv (w, s)" and "never_raises TYPE('m) P" and "P w"
  shows "\<exists>st'. server_sweep now (w :: 'm routing, s) = Inr st'"
proof (cases "quit_flag s")
  case True
  then show ?thesis by (simp add: server_sweep_def sweep_def)
next
  case False
  let ?s = "s\<lparr>leased := fold sm_erase (expired_sessions now s) (leased s),
     active := (if \<exists>t \<in> set (expired_sessions now s). active s = Some t then None else active s)\<rparr>"
  have inv: "server_inv (w, erase_timers (stopped_timers ?s) ?s)"
    by (rule server_inv_erase_timers [OF server_inv_expire_all [OF assms(1)]])
  have "sm_sorted (timers ?s)" using assms(1) by (simp add: server_inv_def wf_sessions_def)
  from fire_timers_total [OF assms(2) inv assms(3) expired_timers_found [OF this]]
  show ?thesis
    by (simp only: server_sweep_def sweep_def snd_conv False if_False expire_sessions_server [OF assms(1)] rbind_simps prod.case)
qed



end
