(* ===== verification/Daemon.thy ===== *)
theory Daemon
  imports Life_Cycle Release Request_Handlers
begin

section \<open>The daemon\<close>

text \<open>
  \<open>main\<close> of \<open>src/main.cpp\<close> puts the parts together: it loads the configuration, gives the methods of the
  manager to the server as handlers of requests and runs the server. Here the invariant of the manager
  and the invariant of the server meet: the requests of any clients, the timeouts of their sessions and the
  outcome of every write of the file, in any order.
\<close>

subsection \<open>Composition\<close>

text \<open>
  The daemon ends where the configuration cannot be loaded, by an answer or by an exception. The methods of the
  manager take what happens to the temporary file, which is decided anew at every event of the daemon.
\<close>

definition daemon_main :: "env \<Rightarrow> json result option \<Rightarrow> json result list \<Rightarrow> string option \<Rightarrow> file_result \<Rightarrow> manager server option" where
  "daemon_main env schema_file subschemas contents io =
     (case Manager_load env schema_file subschemas (Manager_init contents) of
        (Inl e, m) \<Rightarrow> None
      | (Inr False, m) \<Rightarrow> None
      | (Inr True, m) \<Rightarrow> Some (daemon (manager_methods env io) m))"

definition with_file :: "env \<Rightarrow> file_result \<Rightarrow> manager server \<Rightarrow> manager server" where
  "with_file env io dm = setupRequestHandlersF (manager_methods env io) dm"

definition daemon_started :: "env \<Rightarrow> manager server \<Rightarrow> bool" where
  "daemon_started env dm \<longleftrightarrow>
     (\<exists>schema_file subschemas contents io. daemon_main env schema_file subschemas contents io = Some dm)"

inductive daemon_step :: "env \<Rightarrow> manager server \<Rightarrow> manager server \<Rightarrow> bool" for env where
  event: "server_step (with_file env io dm) dm' \<Longrightarrow> daemon_step env dm dm'"

text \<open>In every state of the daemon its handlers are those \<open>main\<close> registered.\<close>

definition managed :: "env \<Rightarrow> file_result \<Rightarrow> manager routing \<Rightarrow> bool" where
  "managed env io w \<longleftrightarrow> has_handlers (manager_methods env io) w"

lemma with_file_managed:
  assumes "managed env io w"
  shows "managed env io' (fst (with_file env io' (w, s)))"
    and "manager (fst (with_file env io' (w, s))) = manager w" and "snd (with_file env io' (w, s)) = s"
  using assms
  by (simp_all add: managed_def has_handlers_def with_file_def setupRequestHandlersF_def
      addOnDeleteConnectionHandler_def addOnPutConnectionHandler_def addOnGetConnectionHandler_def
      addOnPostConnectionHandler_def addConnectionHandler_def)

lemma started_cases:
  assumes "daemon_started env dm"
  obtains io m where "manager_started env m" "dm = daemon (manager_methods env io) m"
proof -
  note found = that
  from assms obtain schema_file subschemas contents io
    where d: "daemon_main env schema_file subschemas contents io = Some dm" by (auto simp: daemon_started_def)
  obtain r m where l: "Manager_load env schema_file subschemas (Manager_init contents) = (r, m)" by fastforce
  with d have "r = Inr True" "dm = daemon (manager_methods env io) m"
    by (auto simp: daemon_main_def split: sum.splits bool.splits)
  with l show ?thesis by (intro found) (auto simp: manager_started_def)
qed

subsection \<open>What an event does to the manager\<close>

text \<open>
  What a request that was handed to the manager did to it: nothing, or one of its methods ran. For the method that
  publishes the candidate the answer \<open>r\<close> is part of it.
\<close>

definition handled :: "env \<Rightarrow> file_result \<Rightarrow> http_method \<Rightarrow> string \<Rightarrow> (http_status \<times> string) result \<Rightarrow> manager \<Rightarrow> manager \<Rightarrow> bool" where
  "handled env io meth path r m m' \<longleftrightarrow> m' = m
     \<or> (path = RUNNING_UPDATE \<and> (\<exists>text x. makeCandidateConfig env text m = (x, m')))
     \<or> (path = CANDIDATE \<and> meth = PUT \<and> (\<exists>x. applyCandidateConfig io m = (x, m') \<and>
          r = rbind x (\<lambda>ok. Inr (OK, string_of_bool ok))))
     \<or> (path = CANDIDATE \<and> meth = DEL \<and> (\<exists>x. cancelCandidateConfig env m = (x, m')))"

inductive served :: "http_method \<Rightarrow> string \<Rightarrow> bool" where
  served_update: "served POST RUNNING_UPDATE"
| served_running: "served GET RUNNING"
| served_difference: "served POST RUNNING_DIFF"
| served_candidate: "served GET CANDIDATE"
| served_apply: "served PUT CANDIDATE"
| served_cancel: "served DEL CANDIDATE"

lemmas served_intros = served.intros

lemma through_result:
  assumes "through f w p = (r, w')"
  shows "manager w' = snd p" and "r = rbind (fst p) (\<lambda>x. Inr (f x))" and "managed env io w' \<longleftrightarrow> managed env io w"
proof -
  from assms have "r = rbind (fst p) (\<lambda>x. Inr (f x))" and w': "w' = w\<lparr>manager := snd p\<rparr>"
    by (simp_all add: through_def rbind_def prod_eq_iff split: prod.splits)
  then show "manager w' = snd p" "r = rbind (fst p) (\<lambda>x. Inr (f x))" by simp_all
  show "managed env io w' \<longleftrightarrow> managed env io w" by (simp add: w' managed_def has_handlers_def)
qed

lemma manager_methods_simps:
  "op_makeCandidateConfig (manager_methods env io) = makeCandidateConfig env"
  "op_dumpRunningConfig (manager_methods env io) = dumpRunningConfig"
  "op_getConfigDiff (manager_methods env io) = getConfigDiff env"
  "op_dumpCandidateConfig (manager_methods env io) = dumpCandidateConfig"
  "op_applyCandidateConfig (manager_methods env io) = applyCandidateConfig io"
  "op_cancelCandidateConfig (manager_methods env io) = cancelCandidateConfig env"
  by (simp_all add: manager_methods_def)

lemma dispatched:
  assumes "managed env io w" and p: "processRequest meth path d ret w = (r, w')" and "served meth path"
  shows "managed env io w' \<and> handled env io meth path r (manager w) (manager w')"
proof -
  note run = processRequest_dispatch [OF assms(1) [unfolded managed_def], unfolded manager_methods_simps]
  from assms(3) show ?thesis
  proof cases
    case served_update
    from through_result(1,3) [OF p [unfolded served_update run]] assms(1) served_update show ?thesis
      by (auto simp: handled_def prod_eq_iff)
  next
    case served_candidate
    from through_result(1,3) [OF p [unfolded served_candidate run]] assms(1) show ?thesis
      by (simp add: handled_def dumpCandidateConfig_def)
  next
    case served_apply
    from through_result [OF p [unfolded served_apply run]] assms(1) served_apply show ?thesis
      by (simp add: handled_def prod_eq_iff)
  next
    case served_cancel
    from through_result(1,3) [OF p [unfolded served_cancel run]] assms(1) served_cancel show ?thesis
      by (simp add: handled_def prod_eq_iff)
  next
    case served_running
    from through_result(1,3) [OF p [unfolded served_running run]] assms(1) show ?thesis
      by (simp add: handled_def dumpRunningConfig_def)
  next
    case served_difference
    from through_result(1,3) [OF p [unfolded served_difference run]] assms(1) show ?thesis
      by (simp add: handled_def getConfigDiff_def)
  qed
qed

text \<open>A request reaches the manager at most once; to publish, its token has to be the active one.\<close>

definition asked :: "http_method \<Rightarrow> string \<Rightarrow> request \<Rightarrow> manager server \<Rightarrow> response result \<Rightarrow> manager routing \<Rightarrow> bool" where
  "asked meth path req = (\<lambda>(w, s) r w'. served meth path \<and>
     (\<exists>x res0. processRequest meth path (req_body req) [] w = (x, w') \<and>
        (meth = PUT \<longrightarrow> r = rbind x (\<lambda>y. Inr (answer y res0)))) \<and>
     (meth = PUT \<longrightarrow> (\<exists>t. bearer_token req = Inr t \<and> active s = Some t)))"

lemma forward_processed:
  "forward meth path req w s res = (r, (w', s')) \<Longrightarrow>
     \<exists>x. processRequest meth path (req_body req) [] w = (x, w') \<and> r = rbind x (\<lambda>y. Inr (answer y res))"
  by (auto simp: forward_def rbind_def split: prod.splits sum.splits)

lemma cancel_forward_processed:
  "cancel_timer_then (forward meth path req) req w s res = (r, (w', s')) \<Longrightarrow>
     w' = w \<or> (\<exists>x. processRequest meth path (req_body req) [] w = (x, w') \<and> r = rbind x (\<lambda>y. Inr (answer y res)))"
  by (erule cancel_timer_then_cases) (auto dest: forward_processed)

lemma update_processed:
  "update_body now req w s res = (r, (w', s')) \<Longrightarrow>
     \<exists>x. processRequest POST RUNNING_UPDATE (req_body req) [] w = (x, w')"
  by (auto simp: update_body_def forward_def sbind_def split: prod.splits sum.splits)

lemma guarded_processed:
  assumes "guarded (CheckActiveSessionToken now) body req res0 (w, s) = (r, (w', s'))"
    and "served meth path"
    and "\<And>s1 res1. body w s1 res1 = (r, (w', s')) \<Longrightarrow> w' = w \<or> (\<exists>x. processRequest meth path (req_body req) [] w = (x, w') \<and>
        r = rbind x (\<lambda>y. Inr (answer y res1)))"
  shows "w' = w \<or> asked meth path req (w, s) r w'"
  using assms(1)
proof (cases rule: check_active.guarded_cases)
  case (passed t res1 s1)
  from passed(5) passed(1) have "active s = Some t"
    by (cases rule: CheckActiveSessionToken_cases) auto
  with passed(1) have active: "\<exists>t. bearer_token req = Inr t \<and> active s = Some t" by blast
  from assms(3) [OF passed(6)] assms(2) active show ?thesis by (auto simp: asked_def)
qed simp_all

lemma route_asks:
  assumes r: "route now meth path req (w, s) = Some (r, (w', s'))"
  shows "w' = w \<or> asked meth path req (w, s) r w'"
proof -
  from r consider "post_token now req (w, s) = (r, (w', s'))" | "delete_token now req (w, s) = (r, (w', s'))"
    | (running) "get_running req (w, s) = (r, (w', s'))" "path = RUNNING" "meth = GET"
    | (diff) "post_running_diff req (w, s) = (r, (w', s'))" "path = RUNNING_DIFF" "meth = POST"
    | (update) "post_running_update now req (w, s) = (r, (w', s'))" "path = RUNNING_UPDATE" "meth = POST"
    | (shown) "get_candidate now req (w, s) = (r, (w', s'))" "path = CANDIDATE" "meth = GET"
    | (put) "put_candidate now req (w, s) = (r, (w', s'))" "path = CANDIDATE" "meth = PUT"
    | (del) "delete_candidate now req (w, s) = (r, (w', s'))" "path = CANDIDATE" "meth = DEL"
    by (cases meth) (simp_all add: route_def del: list.inject char.inject split: if_splits)
  then show ?thesis
  proof cases
    case running
    then show ?thesis by (auto simp: get_running_def asked_def served_intros split: prod.splits sum.splits)
  next
    case diff
    then show ?thesis
      by (auto simp: post_running_diff_def asked_def served_intros dest!: forward_processed)
  next
    case update
    from update(1) show ?thesis unfolding post_running_update_def
    proof (cases rule: set_active.guarded_cases)
      case (passed t res1 s1)
      from passed(6) show ?thesis
      proof (cases rule: cancel_timer_then_cases)
        case (ran s2)
        from update_processed [OF ran(2)] update(2,3) show ?thesis
          by (simp add: asked_def served_intros)
      qed simp
    qed simp_all
  next
    case shown
    from shown(1) [unfolded get_candidate_def] show ?thesis unfolding shown(2,3)
      by (rule guarded_processed) (auto simp: served_intros dest: forward_processed)
  next
    case put
    from put(1) [unfolded put_candidate_def] show ?thesis unfolding put(2,3)
      by (rule guarded_processed) (auto simp: served_intros dest: cancel_forward_processed)
  next
    case del
    from del(1) [unfolded delete_candidate_def] show ?thesis unfolding del(2,3)
      by (rule guarded_processed) (auto simp: served_intros dest: cancel_forward_processed)
  qed (auto simp: post_token_def delete_token_def with_sessions_def split: sum.splits prod.splits)
qed

text \<open>The timers cancel the candidate, as often as there are expired ones.\<close>

lemma sweep_cancels:
  assumes "fire_timers (run_callback now) ts (w, s) = Inr (w', s')" "server_inv (w, s)" "managed env io w"
  shows "managed env io w' \<and> (\<lambda>m m'. \<exists>x. cancelCandidateConfig env m = (x, m'))\<^sup>*\<^sup>* (manager w) (manager w')"
  using assms
proof (induction ts arbitrary: w s)
  case (Cons t ts)
  from Cons.prems(1,2) obtain d w1 s1 where c: "run_callback now CancelCandidateCB t (w, s) = Inr (w1, s1)"
    and f: "fire_timers (run_callback now) ts (w1, s1\<lparr>timers := sm_erase t (timers s1)\<rparr>) = Inr (w', s')"
      "server_inv (w1, s1\<lparr>timers := sm_erase t (timers s1)\<rparr>)"
    by (rule fire_timers_step)
  from c obtain x where "processRequest DEL CANDIDATE [] [] w = (x, w1)"
    by (auto simp: run_callback_def split: prod.splits sum.splits)
  from dispatched [OF Cons.prems(3) this] have m: "managed env io w1"
    and h: "handled env io DEL CANDIDATE x (manager w) (manager w1)"
    by (simp_all add: served_intros)
  from h have "(\<lambda>m m'. \<exists>x. cancelCandidateConfig env m = (x, m'))\<^sup>*\<^sup>* (manager w) (manager w1)"
    by (auto simp: handled_def)
  with Cons.IH [OF f m] show ?case by (meson rtranclp_trans)
qed simp

lemma server_sweep_cancels:
  assumes "server_sweep now (w, s) = Inr (w', s')" "server_inv (w, s)" "managed env io w"
  shows "managed env io w' \<and> (\<lambda>m m'. \<exists>x. cancelCandidateConfig env m = (x, m'))\<^sup>*\<^sup>* (manager w) (manager w')"
  using assms(1,2)
proof (cases rule: server_sweep_cases)
  case (swept s1)
  from sweep_cancels [OF swept(4,3) assms(3)] show ?thesis .
qed (use assms(3) in simp)

subsection \<open>The invariant of the daemon\<close>

definition daemon_inv :: "env \<Rightarrow> manager server \<Rightarrow> bool" where
  "daemon_inv env = (\<lambda>(w, s). (\<exists>io. managed env io w) \<and> server_inv (w, s) \<and> manager_inv env (manager w))"

text \<open>What is published: the running configuration, its document and the file.\<close>

definition publication :: "manager \<Rightarrow> node option \<times> json \<times> string option" where
  "publication m = (running_config m, running_json m, config_file m)"

lemma handled_inv: "handled env io meth path r m m' \<Longrightarrow> manager_inv env m \<Longrightarrow> manager_inv env m'"
  unfolding handled_def by (blast intro: inv_step manager_step.intros)

lemma cancels_inv:
  "(\<lambda>m m'. \<exists>x. cancelCandidateConfig env m = (x, m'))\<^sup>*\<^sup>* m m' \<Longrightarrow> manager_inv env m \<Longrightarrow> manager_inv env m'"
  by (induction rule: rtranclp_induct) (auto intro: inv_step manager_step.intros)

lemma publication_only_sent: "only_sent m m' \<Longrightarrow> publication m' = publication m"
  by (simp add: publication_def only_sent_fields)

lemma cancel_publication: "cancelCandidateConfig env m = (x, m') \<Longrightarrow> publication m' = publication m"
  by (drule cancel_cases) (auto simp: worked_on_def cleared_def publication_def only_sent_fields)

lemma cancels_publication:
  "(\<lambda>m m'. \<exists>x. cancelCandidateConfig env m = (x, m'))\<^sup>*\<^sup>* m m' \<Longrightarrow> publication m' = publication m"
  by (induction rule: rtranclp_induct) (auto dest: cancel_publication)

lemma make_publication: "makeCandidateConfig env text m = (x, m') \<Longrightarrow> publication m' = publication m"
  by (drule make_cases) (auto simp: made_def publication_only_sent publication_def only_sent_fields)

lemma handled_publication:
  assumes "handled env io meth path r m m'" and "publication m' \<noteq> publication m"
  shows "path = CANDIDATE" and "meth = PUT" and "is_candidate_config_ready m"
    and "r = Inr (OK, string_of_bool True)"
    and "\<exists>text. json_dump_indented (candidate_json m) = Inr text \<and> m' = published text m"
proof -
  from assms(2) have "m' \<noteq> m" by auto
  with assms make_publication cancel_publication obtain x where p: "path = CANDIDATE" "meth = PUT"
    and a: "applyCandidateConfig io m = (x, m')" and r: "r = rbind x (\<lambda>ok. Inr (OK, string_of_bool ok))"
    unfolding handled_def by metis
  from apply_cases [OF a] \<open>m' \<noteq> m\<close> p r show "path = CANDIDATE" "meth = PUT" "is_candidate_config_ready m"
    "r = Inr (OK, string_of_bool True)"
    "\<exists>text. json_dump_indented (candidate_json m) = Inr text \<and> m' = published text m"
    by auto
qed

text \<open>An event of the daemon is a request or a sweep.\<close>

lemma event_cases:
  assumes "daemon_step env (w, s) (w', s')" and "daemon_inv env (w, s)"
  obtains (request) io now meth path req res r where "plain_request req"
      "serve now meth path req (with_file env io (w, s)) = Some (res, (w', s'))"
      "route now meth path req (with_file env io (w, s)) = Some (r, (w', s'))" "\<forall>res'. r = Inr res' \<longrightarrow> res = res'"
      "managed env io w'" "manager w' = manager w \<or> (\<exists>x res0 t. handled env io meth path x (manager w) (manager w') \<and>
        (meth = PUT \<longrightarrow> r = rbind x (\<lambda>y. Inr (answer y res0)) \<and> bearer_token req = Inr t \<and> active s = Some t))"
  | (sweep) io where "managed env io w'"
      "(\<lambda>m m'. \<exists>x. cancelCandidateConfig env m = (x, m'))\<^sup>*\<^sup>* (manager w) (manager w')"
proof -
  from assms(2) obtain io0 where m0: "managed env io0 w" and inv: "server_inv (w, s)" by (auto simp: daemon_inv_def)
  from assms(1) obtain io where step: "server_step (with_file env io (w, s)) (w', s')"
    by (auto elim: daemon_step.cases)
  obtain w1 where w1: "with_file env io (w, s) = (w1, s)" "managed env io w1" "manager w1 = manager w"
    using with_file_managed [OF m0, of io s] by (metis prod.collapse)
  from step show ?thesis
  proof cases
    case (request req now meth path res)
    from request(2) obtain r where r: "route now meth path req (with_file env io (w, s)) = Some (r, (w', s'))"
      and res: "\<forall>res'. r = Inr res' \<longrightarrow> res = res'" by (rule serve_route)
    from route_asks [OF r [unfolded w1(1)]] have "managed env io w' \<and> (manager w' = manager w \<or>
      (\<exists>x res0 t. handled env io meth path x (manager w) (manager w') \<and>
        (meth = PUT \<longrightarrow> r = rbind x (\<lambda>y. Inr (answer y res0)) \<and> bearer_token req = Inr t \<and> active s = Some t)))"
    proof
      assume "w' = w1"
      with w1 show ?thesis by simp
    next
      assume "asked meth path req (w1, s) r w'"
      then obtain x res0 where a: "served meth path" "processRequest meth path (req_body req) [] w1 = (x, w')"
        "meth = PUT \<longrightarrow> r = rbind x (\<lambda>y. Inr (answer y res0))"
        "meth = PUT \<longrightarrow> (\<exists>t. bearer_token req = Inr t \<and> active s = Some t)"
        by (auto simp: asked_def)
      from dispatched [OF w1(2) a(2,1)] a(3,4) w1(3) show ?thesis by (metis (no_types))
    qed
    with that(1) [OF request(1,2) r res] show ?thesis by blast
  next
    case (sweep now)
    have "server_inv (w1, s)" using inv by (rule server_inv_sessions)
    from server_sweep_cancels [OF sweep [unfolded w1(1)] this w1(2)] w1(3) show ?thesis
      by (intro that(2)) auto
  qed
qed

lemma with_file_inv: "server_inv (w, s) \<Longrightarrow> server_inv (with_file env io (w, s))"
  by (simp add: with_file_def setupRequestHandlersF_def server_inv_def)

lemma daemon_inv_started: "daemon_started env dm \<Longrightarrow> daemon_inv env dm"
proof (erule started_cases)
  fix io m assume m: "manager_started env m" and d: "dm = daemon (manager_methods env io) m"
  have "server_inv dm" unfolding d by (rule server.inv_init [OF daemon_initial])
  moreover have "manager_inv env (manager (fst dm))" unfolding d daemon_manager by (rule inv_started [OF m])
  moreover have "managed env io (fst dm)" unfolding d managed_def by (rule daemon_handlers)
  ultimately show "daemon_inv env dm" by (auto simp: daemon_inv_def split: prod.splits)
qed

lemma daemon_inv_step:
  assumes "daemon_inv env dm" and "daemon_step env dm dm'"
  shows "daemon_inv env dm'"
proof -
  obtain w s w' s' where eq: "dm = (w, s)" "dm' = (w', s')" by (cases dm; cases dm')
  from assms(1) have inv: "server_inv (w, s)" "manager_inv env (manager w)" by (simp_all add: daemon_inv_def eq)
  from assms(2) obtain io where "server_step (with_file env io (w, s)) (w', s')"
    unfolding eq by (auto elim: daemon_step.cases)
  with inv(1) have srv: "server_inv (w', s')" by (blast intro: server.inv_step with_file_inv)
  from assms(2,1) have "daemon_inv env (w', s')" unfolding eq
  proof (cases rule: event_cases)
    case request
    then show ?thesis using srv inv(2) handled_inv by (auto simp: daemon_inv_def)
  next
    case sweep
    then show ?thesis using srv inv(2) cancels_inv by (auto simp: daemon_inv_def)
  qed
  then show ?thesis by (simp only: eq)
qed

interpretation daemon: inductive_invariant "daemon_started env" "daemon_step env" "daemon_inv env" for env
  by unfold_locales (auto intro: daemon_inv_started daemon_inv_step)

subsection \<open>A small run of the daemon\<close>

text \<open>The host of the life cycle: a client registers, makes a candidate and applies it.\<close>

definition host_daemon :: "manager \<Rightarrow> manager routing" where
  "host_daemon m = fst (daemon (manager_methods host_env Renamed) m)"

lemma with_file_same: "managed env io w \<Longrightarrow> with_file env io (w, s) = (w, s)"
  by (simp add: managed_def has_handlers_def with_file_def setupRequestHandlersF_def
      addOnDeleteConnectionHandler_def addOnPutConnectionHandler_def addOnGetConnectionHandler_def
      addOnPostConnectionHandler_def addConnectionHandler_def)

lemma host_managed: "managed host_env Renamed (host_daemon m)"
  unfolding managed_def host_daemon_def by (rule daemon_handlers)

lemma host_manager [simp]: "manager (host_daemon m) = m" "(host_daemon m)\<lparr>manager := m'\<rparr> = host_daemon m'"
  by (simp_all add: host_daemon_def daemon_def setupRequestHandlersF_def Server_init_def
      addOnDeleteConnectionHandler_def addOnPutConnectionHandler_def addOnGetConnectionHandler_def
      addOnPostConnectionHandler_def)

lemmas host_dispatch = processRequest_dispatch [OF host_managed [unfolded managed_def], unfolded manager_methods_simps]

lemma host_begins: "daemon_started host_env (host_daemon host_running, small_sessions [] None [])"
proof -
  have "daemon_main host_env (Some (Inr host_schema)) [] (Some (host_text ''r1'')) Renamed =
      Some (daemon (manager_methods host_env Renamed) host_running)"
    using host_loading by (simp add: daemon_main_def host_start_def)
  moreover have "daemon (manager_methods host_env Renamed) host_running = (host_daemon host_running, small_sessions [] None [])"
    by (simp add: host_daemon_def daemon_def setupRequestHandlersF_def Server_init_def small_sessions_def
        RegisterSessionTimeoutCallback_def SessionManager_init_def)
  ultimately show ?thesis unfolding daemon_started_def by metis
qed

lemma host_registers:
  "serve 0 POST TOKEN (bearer_request ''x'' ''a'') (host_daemon m, small_sessions [] None []) =
     Some (\<lparr>res_status = Some CREATED, res_content = []\<rparr>, (host_daemon m, small_sessions [''a''] None []))"
  by (simp add: serve_def route_def post_token_def with_sessions_def RegisterSessionToken_def
      small_sessions_def empty_response_def bearer_request_def)

lemma bearer_body [simp]: "req_body (bearer_request t d) = d"
  by (simp add: bearer_request_def)

lemma host_updates:
  "serve 0 POST RUNNING_UPDATE (bearer_request ''a'' (name_patch_text ''r2'')) (host_daemon host_running, small_sessions [''a''] None []) =
     Some (\<lparr>res_status = Some OK, res_content = []\<rparr>,
           (host_daemon host_made, small_sessions [''a''] (Some ''a'') [(''a'', cancel_timer)]))"
proof -
  have auth: "has_authorization (bearer_request ''a'' (name_patch_text ''r2''))"
    by (rule bearer_token_authorized [OF bearer_request_token])
  have "processRequest POST RUNNING_UPDATE (name_patch_text ''r2'') [] (host_daemon host_running) = (Inr (OK, []), host_daemon host_made)"
    unfolding host_dispatch host_manager host_make by (simp add: through_def)
  with auth show ?thesis
    by (simp add: serve_def route_def post_running_update_def guarded_def SetActiveSessionToken_def
        CheckSessionToken_def SetActive_commit_def cancel_timer_then_def CancelSessionTokenTimerOnce_def
        GetSessionToken_def sm_contains_def update_body_def forward_def answer_def
        SetSessionTokenTimerOnce_def sm_emplace_def small_sessions_def cancel_timer_def
        IsSuccess_cases empty_response_def Let_def)
qed

lemma host_event:
  assumes "reachable (daemon_started host_env) (daemon_step host_env) (host_daemon m, s)"
    and "plain_request req" and "serve now meth path req (host_daemon m, s) = Some (res, (w', s'))"
  shows "reachable (daemon_started host_env) (daemon_step host_env) (w', s')"
  using assms(1)
proof (rule reachable_step)
  have "server_step (with_file host_env Renamed (host_daemon m, s)) (w', s')"
    unfolding with_file_same [OF host_managed] by (rule server_step.request [OF assms(2,3)])
  then show "daemon_step host_env (host_daemon m, s) (w', s')" by (rule event)
qed

lemma host_busy:
  "reachable (daemon_started host_env) (daemon_step host_env)
     (host_daemon host_made, small_sessions [''a''] (Some ''a'') [(''a'', cancel_timer)])"
  by (rule host_event [OF host_event [OF reachable_init [of "daemon_started host_env", OF host_begins] small_plain(1) host_registers] small_plain(2) host_updates])

lemma host_publishes: "publication (published host_file host_made) \<noteq> publication host_made"
  by (simp add: publication_def published_def host_made_def host_running_def host_start_def Manager_init_def host_json_def)

lemma host_applies:
  "\<exists>res s'. serve 0 PUT CANDIDATE (bearer_request ''a'' []) (host_daemon host_made,
       small_sessions [''a''] (Some ''a'') [(''a'', cancel_timer)]) =
     Some (res, (host_daemon (published host_file host_made), s'))"
proof -
  have auth: "has_authorization (bearer_request ''a'' [])"
    by (rule bearer_token_authorized [OF bearer_request_token])
  have "applyCandidateConfig Renamed host_made = (Inr True, published host_file host_made)"
    using host_dump by (simp add: applyCandidateConfig_def CandidateJsonConfig_get_def published_def host_made_def host_json_def)
  then have "processRequest PUT CANDIDATE [] [] (host_daemon host_made) =
      (Inr (OK, string_of_bool True), host_daemon (published host_file host_made))"
    unfolding host_dispatch by (simp add: through_def)
  with auth show ?thesis
    by (simp add: serve_def route_def put_candidate_def guarded_def CheckActiveSessionToken_def
        cancel_timer_then_def CancelSessionTokenTimerOnce_def GetSessionToken_def sm_contains_def forward_def Let_def)
qed

subsection \<open>Properties of the daemon\<close>





end
