(* ===== verification/Writable.thy ===== *)
theory Writable
  imports Texts
begin

section \<open>Differences can be written\<close>

text \<open>
  The paths of a difference are put together from the keys of the documents, with \<open>~\<close> and \<open>/\<close> escaped, and from indices. That
  keeps whole UTF-8 characters together, so the difference of two documents that can be written can be written.
\<close>

lemma utf8_append:
  assumes "utf8 a" and "utf8 b"
  shows "utf8 (a @ b)"
proof -
  have "\<exists>t'. dump_escaped_from state codepoint (a @ b) = Inr t'" if "dump_escaped_from state codepoint a = Inr t" for state codepoint t
    using that
  proof (induction a arbitrary: state codepoint t)
    case Nil
    then have "state = 0" by (simp split: if_splits)
    with assms(2) show ?case by (simp add: dump_from_accept utf8_def)
  next
    case (Cons c a)
    then show ?case by (fastforce simp: rbind_eq_Inr split: prod.splits if_splits)
  qed
  with assms(1) show ?thesis by (auto simp: utf8_def dump_escaped_def)
qed

lemma utf8_ascii: "list_all (\<lambda>c. of_char c < (0x80 :: nat)) s \<Longrightarrow> utf8 s"
proof (induction s)
  case (Cons c s)
  then have "utf8 ([c] @ s)" by (intro utf8_character ascii_character) simp_all
  then show ?case by simp
qed (rule utf8_Nil)

lemma utf8_Cons: "of_char c < (0x80 :: nat) \<Longrightarrow> utf8 s \<Longrightarrow> utf8 (c # s)"
  using utf8_character [OF ascii_character] by fastforce

text \<open>A byte of \<open>~\<close> or \<open>/\<close> is not a part of a longer character.\<close>

lemma escape_from:
  assumes "dump_escaped_from state codepoint s = Inr t" and "state = 0 \<or> expects state \<and> large state codepoint"
  shows "\<exists>t'. dump_escaped_from state codepoint (escape s) = Inr t'"
  using assms
proof (induction s arbitrary: state codepoint t)
  case Nil
  then show ?case by (auto simp: escape_chars)
next
  case (Cons c s)
  let ?b = "of_char c :: nat"
  have b: "?b < 256" "int ?b = byte c" by (simp_all add: of_nat_of_char)
  obtain state' codepoint' where d: "decode state codepoint ?b = (state', codepoint')" by fastforce
  with Cons.prems(1) obtain t1 where ok: "state' \<noteq> 1" and t1: "dump_escaped_from state' codepoint' s = Inr t1"
    by (auto simp: rbind_eq_Inr split: if_splits)
  have ascii: "utf8 (escape_char c @ escape s)" if "state = 0" "?b < 0x80"
  proof -
    from decode_lead [OF b(1), of codepoint] d that have "state' = 0" by simp
    with Cons.IH [OF t1] have "utf8 (escape s)" by (auto simp: dump_from_accept utf8_def)
    with that(2) show ?thesis by (auto simp: escape_char_def intro!: utf8_Cons)
  qed
  show ?case
  proof (cases "state = 0 \<and> ?b < 0x80")
    case True
    with ascii show ?thesis by (simp add: escape_chars utf8_def dump_from_accept)
  next
    case False
    have "128 \<le> ?b \<and> (state' = 0 \<or> expects state' \<and> large state' codepoint')"
    proof (cases "state = 0")
      case True
      with decode_lead [OF b(1), of codepoint] d False ok show ?thesis by (auto split: option.splits)
    next
      case st: False
      with Cons.prems(2) have e: "expects state" "large state codepoint" by auto
      have "to_come state \<noteq> []" by (rule expects_cases [OF e(1)]) (simp_all add: to_come_def)
      then obtain lo hi ranges where r: "to_come state = (lo, hi) # ranges" by (cases "to_come state") auto
      from decode_following [OF e(1) b(1) e(2) r] d ok next_state_following(3) [OF e(1) r b(1)] show ?thesis
        by (auto split: if_splits)
    qed
    then have "escape_char c = [c]" and st': "state' = 0 \<or> expects state' \<and> large state' codepoint'"
      by (auto simp: escape_char_def)
    with Cons.IH [OF t1 st'] d ok show ?thesis by (auto simp: escape_chars)
  qed
qed

lemma utf8_escape: "utf8 s \<Longrightarrow> utf8 (escape s)"
  using escape_from [of 0 0 s] by (auto simp: utf8_def dump_escaped_def)

lemma utf8_digits: "utf8 (digits n)"
proof (rule utf8_ascii)
  show "list_all (\<lambda>c. of_char c < (0x80 :: nat)) (digits n)"
    by (auto simp: list_all_iff less_eq_char_def dest!: digit_chars)
qed

lemma utf8_sub_path: "utf8 path \<Longrightarrow> utf8 t \<Longrightarrow> utf8 (sub_path path t)"
  unfolding sub_path_def by (intro utf8_append) (simp_all add: utf8_Cons utf8_Nil)

lemma operation_names: "list_all utf8 [''add'', ''remove'', ''replace'', ''op'', ''path'', ''value'', ''-'']"
  by (simp add: utf8_ascii)

lemma writable_items:
  "utf8 path \<Longrightarrow> writable v \<Longrightarrow> writable (add_item path v)"
  "utf8 path \<Longrightarrow> writable v \<Longrightarrow> writable (replace_item path v)"
  "utf8 path \<Longrightarrow> writable (remove_item path)"
  using operation_names by (simp_all add: add_item_def replace_item_def remove_item_def)

lemma writable_diff_items:
  "writable a \<Longrightarrow> writable b \<Longrightarrow> utf8 path \<Longrightarrow> \<forall>i \<in> set (json_diff_items a b path). writable i"
  "\<forall>x \<in> set xs. writable x \<Longrightarrow> \<forall>y \<in> set ys. writable y \<Longrightarrow> utf8 path \<Longrightarrow>
     \<forall>j \<in> set (diff_elements xs ys i path). writable j"
  "\<forall>(k, v) \<in> set m. utf8 k \<and> writable v \<Longrightarrow> \<forall>(k, w) \<in> set n. utf8 k \<and> writable w \<Longrightarrow> utf8 path \<Longrightarrow>
     \<forall>i \<in> set (diff_members m n path). writable i"
proof (induction a b path and xs ys i path and m n path rule: json_diff_items_diff_elements_diff_members.induct)
  case (1 xs ys path)
  have "\<forall>i \<in> set (remove_tail (length ys) (length xs) path). writable i"
    using 1 by (auto simp: remove_tail_def intro!: writable_items utf8_sub_path utf8_digits)
  moreover have "utf8 ''-''" using operation_names by simp
  then have "\<forall>i \<in> set (add_tail (drop (length xs) ys) path). writable i"
    using 1 by (auto simp: add_tail_def intro!: writable_items utf8_sub_path dest: in_set_dropD)
  ultimately show ?case using 1 by (simp add: ball_Un)
next
  case (2 m n path)
  have "\<forall>i \<in> set (add_members m n path). writable i"
    using 2 by (auto simp: add_members_def intro!: writable_items utf8_sub_path utf8_escape)
  with 2 show ?case by (simp add: ball_Un)
next
  case (4 x xs y ys i path)
  note prems = 4(3,4,5)
  have "\<forall>j \<in> set (json_diff_items x y (sub_path path (digits i))). writable j"
    by (rule 4(1)) (use prems in \<open>simp_all add: utf8_sub_path utf8_digits\<close>)
  moreover have "\<forall>j \<in> set (diff_elements xs ys (Suc i) path). writable j"
    by (rule 4(2)) (use prems in simp_all)
  ultimately show ?case by (simp add: ball_Un)
next
  case (7 k v m n path)
  have rest: "\<forall>i \<in> set (diff_members m n path). writable i" by (rule 7(2)) (use 7(3,4,5) in simp_all)
  have p: "utf8 (sub_path path (escape k))" using 7(3,5) by (simp add: utf8_sub_path utf8_escape)
  show ?case
  proof (cases "sm_find n k")
    case (Some w)
    with 7(4) have "writable w" using sm_find_SomeD by fastforce
    moreover have "writable v" using 7(3) by simp
    ultimately have "\<forall>i \<in> set (json_diff_items v w (sub_path path (escape k))). writable i" using p by (intro 7(1) [OF Some])
    with rest Some show ?thesis by (simp add: ball_Un)
  next
    case None
    with rest writable_items(3) [OF p] show ?thesis by simp
  qed
qed (auto simp: writable_items)

lemma writable_diff: "writable a \<Longrightarrow> writable b \<Longrightarrow> writable (json_diff a b)"
  unfolding json_diff_def writable.simps by (rule writable_diff_items(1) [OF _ _ utf8_Nil])

end
