(* ===== verification/Patching.thy ===== *)
theory Patching
  imports Life_Cycle Writable
begin

section \<open>What the patches of the manager do\<close>

text \<open>
  The differences the manager hands out, the patches it accepts, and the patch it makes itself to cancel a
  candidate, over the model of the JSON library: differences are accepted and lead to the document they were
  made for, cancelling leads back to the running document, and a patch that adds below a leaf ends the daemon.
\<close>

subsection \<open>Filled items\<close>

text \<open>The value that \<open>cancelCandidateConfig\<close> gives to an item is there, and does not change what the item does.\<close>

lemma index_present: "json_has j k \<Longrightarrow> \<exists>v. json_find j k = Some v \<and> json_index j k = Inr (v, j)"
  by (cases j) (auto simp: json_has_def)

lemma fill_sound:
  assumes "sound_item j [] item" and "wf_json j"
  shows "\<exists>item'. fill_value item j = Inr (item', j) \<and> patch_step item' = patch_step item"
proof (cases "json_has item VALUE")
  case True
  with assms(1) index_present [of item OPERATION] index_present [of item PATH] show ?thesis
    by (auto simp: sound_item_def fill_value_def)
next
  case False
  with assms(1) obtain us x where item: "item = remove_item (pointer_to_string us)" and x: "json_checked us j = Inr x"
    by (auto simp: sound_item_def removes_from_def)
  let ?filled = "JObj [(OPERATION, JStr ''remove''), (PATH, JStr (pointer_to_string us)), (VALUE, x)]"
  have "fill_value item j = Inr (?filled, j)"
    using json_ref_checked [OF x assms(2)] by (simp add: item fill_value_def remove_item_def json_has_def)
  moreover have "patch_step ?filled = patch_step item"
    by (simp add: fun_eq_iff item patch_step_def remove_item_def get_string_value_def get_value_def get_op_def)
  ultimately show ?thesis by blast
qed

lemma fill_all_sound:
  assumes "wf_json j"
  shows "\<forall>i \<in> set items. sound_item j [] i \<Longrightarrow>
    \<exists>items'. fill_values items j = Inr (items', j) \<and> patch_items items' = patch_items items"
proof (induction items)
  case Nil
  then show ?case by (intro exI [of _ "[]"]) simp
next
  case (Cons item items)
  then obtain items' where items': "fill_values items j = Inr (items', j)" "patch_items items' = patch_items items" by auto
  from Cons.prems fill_sound [OF _ assms] obtain item' where "fill_value item j = Inr (item', j)"
    "patch_step item' = patch_step item" by fastforce
  with items' show ?case by (intro exI [of _ "item' # items'"] conjI ext) simp_all
qed

lemma elements_of_array [simp]: "json_elements (JArr xs) = xs"
  by (simp add: json_elements_def comp_def map_nth)

lemma cancel_patch_leads_back:
  assumes "candidate_json m \<noteq> JNull" and "running_json m \<noteq> JNull" and "json_schema m \<noteq> JNull"
    and wf: "wf_json (candidate_json m)" "wf_json (running_json m)" "indexable (candidate_json m)"
    and "env_validate env (json_schema m) (running_json m)"
  shows "\<exists>patch. cancel_patch env m = Inr (Some (patch, candidate_json m)) \<and>
    json_patch (candidate_json m) patch = Inr (running_json m)"
proof -
  let ?items = "json_diff_items (candidate_json m) (running_json m) []"
  note leads = patch_diff [OF wf]
  have "\<forall>i \<in> set ?items. sound_item (candidate_json m) [] i"
    by (rule sound_diff(1) [OF wf(1,3)]) (simp add: pointer_to_string_def)
  from fill_all_sound [OF wf(1) this] obtain items' where
    f: "fill_values ?items (candidate_json m) = Inr (items', candidate_json m)" "patch_items items' = patch_items ?items"
    by blast
  have "cancel_patch env m = Inr (Some (JArr items', candidate_json m))"
    using assms(1-3,7) f(1) leads
    by (simp add: cancel_patch_def CandidateJsonConfig_get_def RunningJsonConfig_get_def JsonSchema_get_def
        validateJsonConfig_def Let_def) (simp add: json_diff_def)
  moreover have "json_patch (candidate_json m) (JArr items') = Inr (running_json m)"
    using leads f(2) by (simp add: json_patch_def json_diff_def)
  ultimately show ?thesis by blast
qed

subsection \<open>Adding below a leaf\<close>

lemma json_alter_at:
  "json_checked ts j = Inr x \<Longrightarrow> f x = Inl e \<Longrightarrow> json_alter ts f j = Inl e"
  by (induction ts arbitrary: j) (auto simp: rbind_eq_Inr rbind_eq_Inl split: json.splits option.splits if_splits)

lemma add_below_leaf:
  assumes "json_checked ts j = Inr (JStr s)"
  shows "operation_add (ts @ [t]) v j = Inl ProcessExit"
  using json_alter_at [OF assms, of "add_to_parent t v"] by (simp add: operation_add_alter add_to_parent_def)

subsection \<open>Properties\<close>

text \<open>C13 A difference that the manager hands out is accepted again: in a valid state the request for the difference to a
  valid document is answered with a text without an error; while the running document is the same, this text is read as a patch
  that passes the check for foreign patches and makes exactly the document asked for.\<close>

theorem offered_differences_are_accepted:
  assumes "manager_inv env m" and "json_parse text = Inr new" and "env_validate env (json_schema m) new"
    and "json_schema m \<noteq> JNull" and "running_json m \<noteq> JNull" and "indexable (running_json m)"
  shows "\<exists>answer patch. getConfigDiff env text m = (Inr answer, m) \<and> json_parse answer = Inr patch \<and>
    fValidatePatch patch (running_json m) = Inr False \<and> json_patch (running_json m) patch = Inr new"
proof -
  let ?patch = "json_diff (running_json m) new"
  from assms(1) obtain contents where "file_holds contents (running_json m)" by (auto simp: manager_inv_def)
  then have running: "writable (running_json m)" "wf_json (running_json m)"
    using json_parse_fits [of contents] by (auto simp: file_holds_def)
  from json_parse_fits [OF assms(2)] have new: "writable new" "wf_json new" by auto
  obtain answer where a: "json_dump ?patch = Inr answer"
    using dump_writable(1) [OF writable_diff [OF running(1) new(1)]] unfolding json_dump_def by blast
  note leads = patch_diff [OF running(2) new(2) assms(6)]
  have "getConfigDiff env text m = (Inr answer, m)"
    using assms(2-5) leads a
    by (simp add: getConfigDiff_def JsonSchema_get_def validateJsonConfig_def RunningJsonConfig_get_def Let_def)
  moreover have "json_parse answer = Inr ?patch"
    using dumped_text(1) [OF a [unfolded json_dump_def] wf_diff [OF new(2)]] .
  ultimately show ?thesis using leads by (simp add: fValidatePatch_def)
qed

theorem offered_differences_are_accepted_witness:
  "\<exists>answer patch. getConfigDiff host_env (host_text ''r2'') host_running = (Inr answer, host_running) \<and> json_parse answer = Inr patch \<and>
     json_patch (host_json ''r1'') patch = Inr (host_json ''r2'')"
proof -
  have "manager_inv host_env host_running" by (rule inv_started [OF host_started])
  moreover have "json_parse (host_text ''r2'') = Inr (host_json ''r2'')" by code_simp
  moreover have "running_json host_running = host_json ''r1''" "json_schema host_running = host_schema"
    by (simp_all add: host_running_def)
  moreover have "host_json n \<noteq> JNull \<and> indexable (host_json n)" for n by (simp add: host_json_def)
  moreover have "host_schema \<noteq> JNull" by (simp add: host_schema_def)
  ultimately show ?thesis
    using offered_differences_are_accepted [of host_env host_running "host_text ''r2''" "host_json ''r2''"]
    by (auto simp: host_env_def)
qed

text \<open>C14 Cancelling leads back: with a candidate ready in a valid state, the patch that the cancellation applies to the
  candidate is found without an error, passes the validation, and turns the candidate's document into the
  running one; giving values to its removals does not change what it does.\<close>

theorem cancelling_leads_back_to_the_running_document:
  assumes "manager_inv env m" and "is_candidate_config_ready m" and "indexable (candidate_json m)"
    and "candidate_json m \<noteq> JNull" and "running_json m \<noteq> JNull" and "json_schema m \<noteq> JNull"
  shows "\<exists>patch. cancel_patch env m = Inr (Some (patch, candidate_json m)) \<and>
    json_patch (candidate_json m) patch = Inr (running_json m)"
  by (rule cancel_patch_leads_back) (use assms in \<open>auto simp: manager_inv_def\<close>)

theorem cancelling_leads_back_to_the_running_document_witness:
  "json_patch (host_json ''r2'') (name_patch ''r1'') = Inr (host_json ''r1'')"
proof -
  have "cancel_patch host_env host_made = Inr (Some (name_patch ''r1'', host_json ''r2''))" by code_simp
  moreover have "manager_inv host_env host_made" using manager.reachable_inv [OF host_reachable] .
  ultimately show ?thesis
    using cancelling_leads_back_to_the_running_document [of host_env host_made]
    by (auto simp: host_made_def host_running_def host_json_def host_schema_def)
qed

text \<open>C19 A patch that adds a member below a string ends the daemon: applying it runs into an assertion of the library,
  before the patch is checked for anything else, whoever sent it.\<close>

theorem adding_below_a_leaf_ends_the_daemon:
  assumes "running_config m \<noteq> None" and "json_checked ts (running_json m) = Inr (JStr s)"
    and "json_parse text = Inr (JArr [add_item (pointer_to_string (ts @ [t])) v])"
  shows "makeCandidateConfig env text m = (Inl ProcessExit, m)"
proof -
  have "running_json m \<noteq> JNull" using assms(2) by (cases ts) auto
  moreover have "patch_step (add_item (pointer_to_string (ts @ [t])) v) (running_json m) = Inl ProcessExit"
    using patch_step_item [of "Add (ts @ [t]) v"] add_below_leaf [OF assms(2)] by simp
  ultimately show ?thesis
    using assms(1,3)
    by (auto simp: makeCandidateConfig_def RunningJsonConfig_get_def fValidatePatch_def json_patch_def)
qed

definition hostile_text :: string where
  "hostile_text = ''[{\"op\": \"add\", \"path\": \"/host/name/x\", \"value\": null}]''"

theorem adding_below_a_leaf_ends_the_daemon_witness:
  "makeCandidateConfig host_env hostile_text host_running = (Inl ProcessExit, host_running)"
proof (rule adding_below_a_leaf_ends_the_daemon)
  show "running_config host_running \<noteq> None" by (simp add: host_running_def)
  show "json_checked [''host'', ''name''] (running_json host_running) = Inr (JStr ''r1'')"
    by (simp add: host_running_def host_json_def)
  show "json_parse hostile_text = Inr (JArr [add_item (pointer_to_string ([''host'', ''name''] @ [''x''])) JNull])"
    by code_simp
qed

end
