(* ===== verification/Messages.thy ===== *)
theory Messages
  imports Transaction
begin

section \<open>What is sent to the other servers\<close>

text \<open>
  The messages of \<open>fMakeCandidateConfigInternal\<close> as they are meant to be, and two places where the code does
  something else: a new member of the root is not loaded, and undoing the removal of an object raises
  before anything is sent.
\<close>

subsection \<open>Updates\<close>

text \<open>
  The message for a node: an item of an object or of a null container is added to its parent under its
  name, with the parameters the schema asks for; every other node is added or replaced with its value.
\<close>

definition intended_update :: "json \<Rightarrow> json \<Rightarrow> string \<Rightarrow> pointer \<Rightarrow> json \<Rightarrow> json result" where
  "intended_update op v xpath p jschema =
     (if object_or_null jschema
      then rbind (fFindAndAppendParamAction jschema v ACTION_PARAM_ON_UPDATE) (\<lambda>params.
        Inr (JObj [(OPERATION, OP_ADD), (PARAMETERS, params), (PATH, JStr (pointer_to_string (butlast p))), (VALUE, JStr (last p))]))
      else Inr (JObj [(OPERATION, op), (PATH, JStr xpath), (VALUE, v)]))"

lemma update_op_cases: "update_op old p = Inr op \<Longrightarrow> op = OP_ADD \<or> op = OP_REPLACE"
  by (auto simp: update_op_def rbind_eq_Inr)

lemma update_message_eq:
  assumes "pointer_parse xpath = Inr p" and "p \<noteq> []" and "json_ref_value p new_json = Inr v" and "v \<noteq> JNull"
    and op: "update_op old_json p = Inr op" and "json_schema_of env m (pointer_to_string p) = Inr jschema"
  shows "update_message env m old_json new_json xpath = intended_update op v xpath p jschema"
proof -
  from assms update_op_cases [OF op] show ?thesis
    by (cases "fFindAndAppendParamAction jschema v ACTION_PARAM_ON_UPDATE")
       (auto simp: update_message_def intended_update_def diff_from_null_def json_set_0_def split_pointer_def
          pointer_back_def pointer_pop_back_def)
qed

subsection \<open>Properties\<close>



text \<open>A member that a patch adds at the root is not loaded: the schema found for the path of the root is the object of
  the members themselves, which has no \<open>properties\<close>, so the tree stays as it was, and the new node is neither
  checked nor sent.\<close>

theorem top_level_additions_are_not_loaded:
  assumes "XPath_parse path = [t]" and "json_find (json_schema (mngr b)) PROPERTIES = Some members"
    and "\<not> json_has members PROPERTIES" and "\<not> json_has members PATTERN_PROPERTIES" and "members \<noteq> JObj []"
  shows "load_addition env path b = (Inr True, b)"
proof -
  have "json_schema_of env (mngr b) ROOT_TOKEN = Inr members"
    using assms(2) by (auto simp: json_schema_of_def GetJsonSchemaByXPath_def JsonSchema_get_def)
  with assms show ?thesis
    by (simp add: load_addition_def parent_xpath_def of_result_def load_part_def json_has_def XPath_select_def succeed_def)
qed

theorem top_level_additions_are_not_loaded_witness:
  "load_addition offline_env ''/mtu'' (build_init (JObj [(''mtu'', JStr ''1500'')]) (JObj []) (Composite ''/'' []) reference_manager) =
     (Inr True, build_init (JObj [(''mtu'', JStr ''1500'')]) (JObj []) (Composite ''/'' []) reference_manager)"
proof -
  have "XPath_parse ''/mtu'' = [''mtu'']" by code_simp
  from top_level_additions_are_not_loaded [OF this] show ?thesis
    by (simp add: build_init_def reference_manager_def reference_schema_def json_has_def)
qed

text \<open>Undoing the removal of an object does not work: for a composite whose schema has the type object or null the
  message is indexed like an array, which raises; nothing is sent for it.\<close>

theorem rollback_of_a_removed_object_raises:
  assumes "schema_of env (mngr b) xpath = Inr (Some n)"
    and "FindAttr (snd n) ACTION_ON_UPDATE_PATH \<noteq> []" and "FindAttr (snd n) ACTION_SERVER_ADDRESS \<noteq> []"
    and "select_running (mngr b) xpath = Inr (Some h)" and "is_composite (snd h)"
    and "pointer_parse xpath = Inr p" and "json_schema_of env (mngr b) (pointer_to_string p) = Inr jschema"
    and "object_or_null jschema"
  shows "\<exists>e. rollback_removed_node env xpath b = (Inl e, b)"
proof -
  have "\<exists>e. item_action (mngr b) OP_ADD xpath jschema ACTION_PARAM_ON_UPDATE = Inl e"
    by (cases "item_action (mngr b) OP_ADD xpath jschema ACTION_PARAM_ON_UPDATE")
       (auto simp: item_action_def rbind_eq_Inr json_set_0_def action_object_def)
  then obtain e where "item_action (mngr b) OP_ADD xpath jschema ACTION_PARAM_ON_UPDATE = Inl e" by blast
  with assms(5-) have "rollback_removed_action env (mngr b) xpath jnode (snd h) = Inl e" for jnode
    by (simp add: rollback_removed_action_def)
  with assms(1-4) show ?thesis
    by (auto simp: rollback_removed_node_def of_result_def Let_def split: sum.splits)
qed

definition vlan_schema :: json where
  "vlan_schema = JObj
     [(''action'', JObj [(''on-delete-path'', JStr ''/delete''), (''on-update-path'', JStr ''/update''),
                         (''server-address'', JStr ''netd'')]),
      (''type'', JStr ''object'')]"

definition vlan_manager :: manager where
  "vlan_manager = (Manager_init None)\<lparr>json_schema := JObj [(''properties'', JObj [(''vlan'', vlan_schema)])],
     running_config := Some (Composite ''/'' [(''vlan'', Composite ''vlan'' [])]),
     running_json := JObj [(''vlan'', JObj [])]\<rparr>"

theorem rollback_of_a_removed_object_raises_witness:
  "\<exists>e. fst (rollback_removed_node offline_env ''/vlan'' (build_init JNull JNull (Composite ''/'' []) vlan_manager)) = Inl e"
proof -
  let ?b = "build_init JNull JNull (Composite ''/'' []) vlan_manager"
  let ?n = "([''vlan'', ''/''], [(''action-on-delete-path'', [''/delete'']), (''action-on-update-path'', [''/update'']),
     (''action-server-address'', [''netd''])])"
  have "schema_of offline_env (mngr ?b) ''/vlan'' = Inr (Some ?n)" by code_simp
  moreover have "select_running (mngr ?b) ''/vlan'' = Inr (Some ([''/''], Composite ''vlan'' []))" by code_simp
  moreover have "pointer_parse ''/vlan'' = Inr [''vlan'']" by code_simp
  moreover have "json_schema_of offline_env (mngr ?b) (pointer_to_string [''vlan'']) = Inr vlan_schema" by code_simp
  moreover have "object_or_null vlan_schema" by (simp add: vlan_schema_def object_or_null_def)
  moreover have "FindAttr (snd ?n) ACTION_ON_UPDATE_PATH \<noteq> []" "FindAttr (snd ?n) ACTION_SERVER_ADDRESS \<noteq> []"
    by (simp_all add: FindAttr_def)
  ultimately show ?thesis
    using rollback_of_a_removed_object_raises [of offline_env ?b "''/vlan''" ?n] by (metis fst_conv is_composite.simps snd_conv)
qed

end
