(* ===== verification/Constraint_Runs.thy ===== *)
theory Constraint_Runs
  imports Constraint_Checker
begin

section \<open>Runs of the checker on constraint texts\<close>

text \<open>
  The recorded run of the parser on a text with variable paths is computed by rewriting, so what a constraint
  of a certain shape means can be stated for all paths at once: the recorded calls are then replayed with the actions
  of the checker.
\<close>

subsection \<open>From recorded calls to the answer\<close>

definition argument :: "(string \<Rightarrow> schema_node option result) \<Rightarrow> regex \<Rightarrow> (string \<Rightarrow> string \<Rightarrow> string option result) \<Rightarrow>
    node \<Rightarrow> handle \<Rightarrow> Argument" where
  "argument mngr rx rs root h =
     \<lparr>ConfigMngr = mngr, Match = rx, Search = rs, RootNodeConfig = root, CurrentProcessingNode = h,
      ContinueProcessing = True, ExpressionResult = False\<rparr>"

lemma argument_simps [simp]:
  "ConfigMngr (argument mngr rx rs root h) = mngr" "Match (argument mngr rx rs root h) = rx"
  "Search (argument mngr rx rs root h) = rs" "RootNodeConfig (argument mngr rx rs root h) = root"
  "CurrentProcessingNode (argument mngr rx rs root h) = h" "ContinueProcessing (argument mngr rx rs root h)"
  "\<not> ExpressionResult (argument mngr rx rs root h)"
  by (simp_all add: argument_def)

lemma validate_is_replay:
  assumes run: "parse_core k constraint_recorder PROGRAM text [] = Inr (ok, calls)" and "k \<le> d"
  shows "validate d mngr rx rs root h text =
     rbind (replay constraint_parser calls [] (argument mngr rx rs root h)) (\<lambda>(res, a). Inr (ExpressionResult a))"
  using run_is_replay [OF more_stack [OF assms]]
  by (cases "replay constraint_parser calls [] (argument mngr rx rs root h)") (auto simp: validate_def argument_def)

subsection \<open>Evaluating the parser by rewriting\<close>

text \<open>Texts of paths: not empty, printable, without blanks and quotes.\<close>

definition path_char :: "char \<Rightarrow> bool" where
  "path_char c \<longleftrightarrow> 32 < (of_char c :: int) \<and> (of_char c :: int) < 127 \<and> c \<noteq> quote_char"

definition path_text :: "string \<Rightarrow> bool" where
  "path_text p \<longleftrightarrow> p \<noteq> [] \<and> list_all path_char p"

abbreviation quoted :: "string \<Rightarrow> string" where
  "quoted p \<equiv> quote_char # p @ [quote_char]"

lemma of_char_quote: "of_char c = (39 :: int) \<longleftrightarrow> c = quote_char"
proof -
  have "of_char c = (39 :: int) \<longleftrightarrow> of_char c = (of_char quote_char :: int)" by simp
  then show ?thesis by (simp only: of_char_eq_iff)
qed

lemma path_charD:
  assumes "path_char c"
  shows "(of_char c :: int) < 128" "c \<noteq> quote_char" "\<not> is_space c" "of_char c \<noteq> (39 :: int)"
    "of_char c \<noteq> (32 :: int)" "of_char c \<noteq> (9 :: int)" "of_char c \<noteq> (10 :: int)" "of_char c \<noteq> (13 :: int)"
  using assms by (auto simp: path_char_def is_space_def of_char_quote)

lemma Trim_path: "path_text p \<Longrightarrow> Trim p = p"
  by (rule Trim_no_space) (auto simp: path_text_def list_all_iff path_charD)

lemma match_class_Cons:
  "(of_char c :: int) < 128 \<Longrightarrow> match_class ranges negated (c # s) =
     (if list_ex (\<lambda>(lo, hi). lo \<le> of_char c \<and> of_char c \<le> hi) ranges \<noteq> negated then Some s else None)"
  by (simp add: match_class_def decode_codepoint_def Let_def list_ex_iff)

lemma match_class_Nil: "match_class ranges negated [] = None"
  by (simp add: match_class_def)

lemmas parse_steps = parse.simps(2-8,10,11) [where d = "pred_numeral k" for k, folded numeral_eq_Suc]
lemmas reference_step = parse.simps(9) [where d = "pred_numeral k" for k, folded numeral_eq_Suc]

text \<open>The rules in \<open>hidden\<close> are not entered.\<close>

lemma hiding_step:
  "r \<notin> set hidden \<Longrightarrow> parse (numeral k) P args tb ws (Reference r as) s vs c =
     (if is_macro (rule_of P r)
      then parse (pred_numeral k) P (map (find_reference args) as) tb ws (core (rule_of P r)) s vs c
      else parse_holder P r (parse (pred_numeral k) P [] tb ws (core (rule_of P r))) s vs c)"
  by (rule reference_step)

lemmas expression_steps = parse_expression.simps(2) [where k = "pred_numeral k" for k, folded numeral_eq_Suc]

text \<open>A repeated class of characters, with the text it stops at known.\<close>

lemma run_more_class:
  "run_more (parse (numeral k) P args tb ws (CharacterClass ranges False)) None s vs c =
     (case match_class ranges False s of
        None \<Rightarrow> Inr (Some (s, vs), c)
      | Some s1 \<Rightarrow>
          if length s1 < length s
          then run_more (parse (numeral k) P args tb ws (CharacterClass ranges False)) None s1 (append_values vs no_values) c
          else Inl StackOverflow)"
  by (subst run_more.simps) (simp add: parse_steps split: option.splits)

lemma run_more_unquoted:
  assumes "list_all path_char t"
  shows "run_more (parse (numeral k) P args tb ws (CharacterClass [(39, 39)] True)) None (t @ quote_char # rest) vs c =
     Inr (Some (quote_char # rest, if t = [] then vs else vs\<lparr>sv := []\<rparr>), c)"
  using assms
proof (induction t arbitrary: vs)
  case Nil
  then show ?case by (subst run_more.simps) (simp add: match_class_Cons parse_steps)
next
  case (Cons a t)
  then have "path_char a" "list_all path_char t" by auto
  moreover from this have "parse (numeral k) P args tb ws (CharacterClass [(39, 39)] True) (a # t @ quote_char # rest) no_values c =
      Inr (Some (t @ quote_char # rest, no_values), c)"
    by (simp add: match_class_Cons parse_steps path_charD)
  ultimately show ?case
    using Cons.IH by (subst run_more.simps) (simp add: append_values_def no_values_def)
qed

lemma run_more_quoted:
  "path_char a \<Longrightarrow> list_all path_char t \<Longrightarrow>
   run_more (parse (numeral k) P args tb ws (CharacterClass [(39, 39)] True)) None (a # t @ quote_char # rest) vs c =
     Inr (Some (quote_char # rest, vs\<lparr>sv := []\<rparr>), c)"
  using run_more_unquoted [of "a # t"] by simp

lemma rbind_cong_weak: "Q = Q' \<Longrightarrow> rbind Q k = rbind Q' k"
  by simp

lemma parse_whitespace:
  "parse (numeral k) P args tb ws whitespace s vs c =
     run_more (parse (pred_numeral k) P args tb ws (CharacterClass [(32, 32), (9, 9), (13, 13), (10, 10)] False)) None s vs c"
  by (simp add: whitespace_def numeral_eq_Suc)

text \<open>The cache is searched for the rule first.\<close>

lemma map_of_rule_first:
  "map_of (((n, r), x) # c) (m, r') = (if r = r' then if n = m then Some x else map_of c (m, r') else map_of c (m, r'))"
  by simp

lemma map_of_op: "map_of ((c # cs, x) # info) tok = (if c # cs = tok then Some x else map_of info tok)"
  by simp

text \<open>Only the operator of comparisons is ever wrapped, so the other rules leave the wrappers as they are.\<close>

definition only_operators :: "(rule \<times> string) list \<Rightarrow> bool" where
  "only_operators ws \<longleftrightarrow> (\<forall>(r, t) \<in> set ws. r = RELATIVE_OPERATOR)"

lemma see_token_simps:
  "see_token r t [] = []"
  "see_token r t ((r', t') # ws) = (r', if r' = r then t else t') # see_token r t ws"
  "only_operators ws \<Longrightarrow> r \<noteq> RELATIVE_OPERATOR \<Longrightarrow> see_token r t ws = ws"
proof -
  show "only_operators ws \<Longrightarrow> r \<noteq> RELATIVE_OPERATOR \<Longrightarrow> see_token r t ws = ws"
    by (induction ws) (auto simp: see_token_def only_operators_def)
qed (simp_all add: see_token_def)

lemma take_plus: "take (numeral k + n) (x # xs) = x # take (pred_numeral k + n) xs"
  by (simp add: numeral_eq_Suc)

lemmas run_steps = parse_core_def run_parser_def parse_steps expression_steps parse_whitespace skip_whitespace_def
  parse_holder_def parse_uncached_def remember_def reduce_def call_action_def record_action_def
  run_more_class run_more_quoted run_more.simps [where mx = "Some m" for m] match_class_Cons match_class_Nil trie_match_def
  map_of_rule_first map_of_op climb_frame_def climb_right_def climb_operators.simps next_min_prec_def value_at_def binop_rule_def
  append_values_def no_values_def push_value_def push_token_def see_token_simps token_def

lemmas replay_steps = look_values_def look_def acting_def failing_def arg_def as_bool_def as_int_def as_string_def as_list_def
  value_at_def token_def Trim_path

text \<open>
  Rewriting does not descend into characters, into the rest of the text and into what
  has been stored, which keeps the terms small while they are evaluated.
\<close>

lemma Char_cong: "Char a b c d e f g h = Char a b c d e f g h" ..

lemma parse_cong:
  "d = d' \<Longrightarrow> args = args' \<Longrightarrow> tb = tb' \<Longrightarrow> ope = ope' \<Longrightarrow> vs = vs' \<Longrightarrow> c = c' \<Longrightarrow>
   parse d P args tb ws ope s vs c = parse d' P args' tb' ws ope' s vs' c'"
  by simp

lemmas run_congs = rbind_cong_weak Char_cong parse_cong

subsection \<open>Texts a rule reads\<close>

text \<open>
  \<open>reads n r t calls\<close>: with a stack of \<open>n\<close> the rule \<open>r\<close> reads the text \<open>t\<close> and the blank \<open>w\<close> after it, if any,
  whatever follows, and makes the calls \<open>calls w i\<close> when \<open>i\<close> calls have been made before; its value
  is that of the last one.
\<close>

abbreviation stop :: "string \<Rightarrow> bool" where
  "stop rest \<equiv> match_class [(32, 32), (9, 9), (13, 13), (10, 10)] False rest = None"

text \<open>The rest of a text neither begins with a blank nor with a digit.\<close>

definition ends :: "string \<Rightarrow> bool" where
  "ends rest \<longleftrightarrow> match_class [(48, 57), (32, 32), (9, 9), (13, 13), (10, 10)] False rest = None"

lemma ends_simps:
  "ends []"
  "of_char c < (128 :: int) \<Longrightarrow> ends (c # s) \<longleftrightarrow>
     \<not> list_ex (\<lambda>(lo, hi). lo \<le> of_char c \<and> of_char c \<le> hi) [(48 :: int, 57 :: int), (32, 32), (9, 9), (13, 13), (10, 10)]"
  by (simp_all add: ends_def match_class_Cons match_class_Nil)

lemma ends_stops:
  assumes "ends rest"
  shows "stop rest" "match_class [(48, 57)] False rest = None"
  using assms by (auto simp: ends_def match_class_def split: if_splits prod.splits)

text \<open>No rule has been tried in the last \<open>n\<close> characters.\<close>

definition fresh :: "nat \<Rightarrow> ('r, 'v) cache \<Rightarrow> bool" where
  "fresh n cs \<longleftrightarrow> (\<forall>m r. m \<le> n \<longrightarrow> map_of cs (m, r) = None)"

text \<open>A run that ends with an answer of which \<open>G\<close> holds.\<close>

definition yields :: "('a \<Rightarrow> bool) \<Rightarrow> 'a result \<Rightarrow> bool" where
  "yields G R \<longleftrightarrow> (\<exists>x. R = Inr x \<and> G x)"

lemma yields_Inr: "yields G (Inr x) \<longleftrightarrow> G x"
  by (simp add: yields_def)

lemma yields_below: "yields G Q \<Longrightarrow> below Q Q' \<Longrightarrow> yields G Q'"
  by (auto simp: yields_def below_def)

lemma yields_rbind: "yields G Q \<Longrightarrow> (\<And>x. G x \<Longrightarrow> yields H (k x)) \<Longrightarrow> yields H (rbind Q k)"
  by (auto simp: yields_def)

text \<open>
  \<open>reads n r t calls\<close>: with a stack of \<open>n\<close> the rule \<open>r\<close> reads the text \<open>t\<close> and the blank \<open>w\<close> after it, if any,
  whatever follows, and makes the calls \<open>calls w i\<close> when \<open>i\<close> calls have been made before; its value
  is that of the last one.
\<close>

type_synonym calls = "string \<Rightarrow> nat \<Rightarrow> rule call list"

definition read_it :: "calls \<Rightarrow> string \<Rightarrow> string \<Rightarrow> nat option semantic_values \<Rightarrow> (rule, nat option, rule call list) peg_state \<Rightarrow>
    (string \<times> nat option semantic_values) option \<times> (rule, nat option, rule call list) peg_state \<Rightarrow> bool" where
  "read_it calls w rest vs c = (\<lambda>(x, c').
     x = Some (rest, push_value (Some (length (user c) + length (calls w (length (user c))) - 1)) vs) \<and>
     user c' = user c @ calls w (length (user c)) \<and> wraps c' = wraps c \<and> fresh (length rest) (cached c'))"

definition ready :: "rule \<Rightarrow> string \<Rightarrow> string \<Rightarrow> string \<Rightarrow> (rule, nat option, rule call list) peg_state \<Rightarrow> bool" where
  "ready r t w rest c \<longleftrightarrow> (w = [] \<or> w = '' '') \<and> ends rest \<and> fresh (length (t @ w @ rest)) (cached c) \<and>
     only_operators (wraps c) \<and> (r = EXPRESSION \<longrightarrow> wraps c = [])"

definition reads :: "nat \<Rightarrow> rule \<Rightarrow> string \<Rightarrow> calls \<Rightarrow> bool" where
  "reads n r t calls \<longleftrightarrow>
     (\<forall>rest. stop (t @ rest)) \<and>
     (\<forall>k args w rest vs c. n \<le> k \<longrightarrow> ready r t w rest c \<longrightarrow>
        yields (read_it calls w rest vs c) (parse k constraint_recorder args 0 False (ref r) (t @ w @ rest) vs c))"

lemma freshD: "fresh n cs \<Longrightarrow> m \<le> n \<Longrightarrow> map_of cs (m, r) = None"
  by (simp add: fresh_def)

lemma fresh_Nil: "fresh n []"
  by (simp add: fresh_def)

lemma fresh_Cons: "fresh n (((m, r), x) # cs) \<longleftrightarrow> n < m \<and> fresh n cs"
proof (cases "n < m")
  case False
  then show ?thesis by (auto simp: fresh_def intro!: exI [of _ m] exI [of _ r])
qed (auto simp: fresh_def)

lemma fresh_le: "fresh n cs \<Longrightarrow> m \<le> n \<Longrightarrow> fresh m cs"
  by (auto simp: fresh_def)

lemma only_operators_simps:
  "only_operators []" "only_operators ((r, t) # ws) \<longleftrightarrow> r = RELATIVE_OPERATOR \<and> only_operators ws"
  by (simp_all add: only_operators_def)

lemma readsI:
  assumes "\<And>rest. stop (t @ rest)"
    and "\<And>args rest vs c. ends rest \<Longrightarrow> fresh (length (t @ rest)) (cached c) \<Longrightarrow> only_operators (wraps c) \<Longrightarrow>
      (r = EXPRESSION \<longrightarrow> wraps c = []) \<Longrightarrow>
      yields (read_it calls [] rest vs c) (parse n constraint_recorder args 0 False (ref r) (t @ rest) vs c)"
    and "\<And>args rest vs c. ends rest \<Longrightarrow> fresh (length (t @ '' '' @ rest)) (cached c) \<Longrightarrow> only_operators (wraps c) \<Longrightarrow>
      (r = EXPRESSION \<longrightarrow> wraps c = []) \<Longrightarrow>
      yields (read_it calls '' '' rest vs c) (parse n constraint_recorder args 0 False (ref r) (t @ '' '' @ rest) vs c)"
  shows "reads n r t calls"
  unfolding reads_def
proof (intro conjI allI impI)
  fix k args w rest vs and c :: "(rule, nat option, rule call list) peg_state"
  assume *: "n \<le> k" "ready r t w rest c"
  then have "yields (read_it calls w rest vs c) (parse n constraint_recorder args 0 False (ref r) (t @ w @ rest) vs c)"
    using assms(2,3) by (auto simp: ready_def)
  then show "yields (read_it calls w rest vs c) (parse k constraint_recorder args 0 False (ref r) (t @ w @ rest) vs c)"
    using refinesD [OF parse_refines [OF *(1)]] by (rule yields_below)
qed (rule assms(1))

text \<open>What is read by a part: the run goes on with its value and any state that fits.\<close>

lemma reads_rbind:
  assumes "reads n r t calls" and "n \<le> k" and "ready r t w rest c"
    and "\<And>c'. user c' = user c @ calls w (length (user c)) \<Longrightarrow> wraps c' = wraps c \<Longrightarrow> fresh (length rest) (cached c') \<Longrightarrow>
      yields H (K (Some (rest, push_value (Some (length (user c) + length (calls w (length (user c))) - 1)) vs), c'))"
  shows "yields H (rbind (parse k constraint_recorder args 0 False (ref r) (t @ w @ rest) vs c) K)"
  using reads_def [THEN iffD1, OF assms(1), THEN conjunct2, rule_format, OF assms(2,3)]
proof (rule yields_rbind)
  fix x
  assume "read_it calls w rest vs c x"
  then show "yields H (K x)"
    by (cases x) (simp only: read_it_def prod.case assms(4))
qed

lemmas reads_part =
  reads_rbind [where w = "[]", unfolded append_Nil] reads_rbind [where w = "'' ''", unfolded append_Cons append_Nil]

lemma stop_reads: "reads n r t calls \<Longrightarrow> stop (t @ rest)"
  by (simp add: reads_def)

lemma rbind_assoc: "rbind (rbind Q f) g = rbind Q (\<lambda>x. rbind (f x) g)"
  by (cases Q) simp_all

lemmas run_simps = run_steps rbind_assoc yields_Inr read_it_def ready_def path_charD freshD fresh_Nil fresh_Cons fresh_le
  only_operators_simps take_plus ends_simps ends_stops Let_def

end
