(* ===== verification/Constraint_Reading.thy ===== *)
theory Constraint_Reading
  imports Constraint_Runs
begin

section \<open>What the constructs of constraints read\<close>

text \<open>
  One lemma for each construct of the language of constraints: the text it reads, given what its
  parts read, and the calls of actions it makes.
\<close>

subsection \<open>Calls\<close>

text \<open>A call with the values of the calls \<open>is\<close>, and a call for a token.\<close>

definition call_with :: "rule \<Rightarrow> string \<Rightarrow> nat list \<Rightarrow> rule call" where
  "call_with r t is = (r, \<lparr>sv = t, vals = map Some is, toks = []\<rparr>)"

definition token_call :: "rule \<Rightarrow> string \<Rightarrow> string \<Rightarrow> rule call" where
  "token_call r t tok = (r, \<lparr>sv = t, vals = [], toks = [tok]\<rparr>)"

abbreviation string_call :: "string \<Rightarrow> string \<Rightarrow> rule call" where
  "string_call p w \<equiv> token_call STRING_RULE (quoted p @ w) p"

subsection \<open>Functions of paths\<close>

definition path_call :: "rule \<Rightarrow> string \<Rightarrow> string \<Rightarrow> string \<Rightarrow> nat \<Rightarrow> rule call list" where
  "path_call r f p w i = [string_call p [], call_with r (f @ ''('' @ quoted p @ '')'' @ w) [i]]"

lemmas calls_def = path_call_def call_with_def token_call_def

lemma reads_xpath:
  assumes "path_text p"
  shows "reads 20 XPATH_FUNC_FAMILY (''xpath('' @ quoted p @ '')'') (path_call XPATH_FUNC ''xpath'' p)"
proof -
  obtain a t where p: "p = a # t" "path_char a" "list_all path_char t"
    using assms by (cases p) (auto simp: path_text_def)
  show ?thesis
    by (rule readsI, simp add: match_class_Cons)
      (simp_all add: run_simps reference_step calls_def p cong: run_congs del: map_of.simps(2))
qed

definition reference_calls :: calls where
  "reference_calls w i = [token_call REFERENCE_RULE ''@'' ''@'', call_with XPATH_FUNC (''xpath(@)'' @ w) [i]]"

lemma reads_reference: "reads 20 XPATH_FUNC_FAMILY ''xpath(@)'' reference_calls"
  by (rule readsI, simp add: match_class_Cons)
    (simp_all add: run_simps reference_step reference_calls_def calls_def cong: run_congs del: map_of.simps(2))

lemma reads_xpath_any:
  assumes "path_text p"
  shows "reads 20 XPATH_FUNC_FAMILY (''xpath_any('' @ quoted p @ '')'') (path_call XPATH_ANY_FUNC ''xpath_any'' p)"
proof -
  obtain a t where p: "p = a # t" "path_char a" "list_all path_char t"
    using assms by (cases p) (auto simp: path_text_def)
  show ?thesis
    by (rule readsI, simp add: match_class_Cons)
      (simp_all add: run_simps reference_step calls_def p cong: run_congs del: map_of.simps(2))
qed

subsection \<open>Counting and testing\<close>

lemma reads_exists:
  assumes "reads 20 XPATH_FUNC_FAMILY e calls"
  shows "reads 30 LOGICAL_EXPRESSION (''exists('' @ e @ '')'')
    (\<lambda>w i. calls [] i @ [call_with EXISTS_FUNC (''exists('' @ e @ '')'' @ w) [i + length (calls [] i) - 1]])"
  by (rule readsI, simp add: match_class_Cons)
    (simp add: run_simps hiding_step [where hidden = "[XPATH_FUNC_FAMILY]"] stop_reads [OF assms] cong: run_congs del: map_of.simps(2);
     rule reads_part(1) [OF assms];
     simp add: run_simps calls_def cong: run_congs del: map_of.simps(2))+

lemma reads_count:
  assumes "reads 20 XPATH_FUNC_FAMILY e calls"
  shows "reads 30 LOGICAL_EXPRESSION (''count('' @ e @ '')'')
    (\<lambda>w i. calls [] i @ [call_with COUNT_FUNC (''count('' @ e @ '')'' @ w) [i + length (calls [] i) - 1]])"
  by (rule readsI, simp add: match_class_Cons)
    (simp add: run_simps hiding_step [where hidden = "[XPATH_FUNC_FAMILY]"] stop_reads [OF assms] cong: run_congs del: map_of.simps(2);
     rule reads_part(1) [OF assms];
     simp add: run_simps calls_def cong: run_congs del: map_of.simps(2))+

text \<open>The value of a leaf as an expression of its own.\<close>

lemma reads_value:
  assumes "path_text p"
  shows "reads 30 LOGICAL_EXPRESSION (''xpath_value('' @ quoted p @ '')'') (path_call XPATH_VALUE_FUNC ''xpath_value'' p)"
proof -
  obtain a t where p: "p = a # t" "path_char a" "list_all path_char t"
    using assms by (cases p) (auto simp: path_text_def)
  show ?thesis
    by (rule readsI, simp add: match_class_Cons)
      (simp_all add: run_simps reference_step calls_def p cong: run_congs del: map_of.simps(2))
qed

subsection \<open>Literals\<close>

lemma reads_string:
  assumes "path_text p"
  shows "reads 30 LOGICAL_EXPRESSION (quoted p) (\<lambda>w i. [string_call p w])"
proof -
  obtain a t where p: "p = a # t" "path_char a" "list_all path_char t"
    using assms by (cases p) (auto simp: path_text_def)
  show ?thesis
    by (rule readsI, simp add: match_class_Cons)
      (simp_all add: run_simps reference_step calls_def p cong: run_congs del: map_of.simps(2))
qed

lemma reads_true: "reads 30 LOGICAL_EXPRESSION ''true'' (\<lambda>w i. [token_call BOOLEAN (''true'' @ w) ''true''])"
  by (rule readsI, simp add: match_class_Cons)
    (simp_all add: run_simps reference_step calls_def cong: run_congs del: map_of.simps(2))

lemma reads_false: "reads 30 LOGICAL_EXPRESSION ''false'' (\<lambda>w i. [token_call BOOLEAN (''false'' @ w) ''false''])"
  by (rule readsI, simp add: match_class_Cons)
    (simp_all add: run_simps reference_step calls_def cong: run_congs del: map_of.simps(2))

lemma reads_digit:
  assumes "48 \<le> (of_char c :: int)" "of_char c \<le> (57 :: int)"
  shows "reads 30 LOGICAL_EXPRESSION [c] (\<lambda>w i. [token_call NUMBER_RULE (c # w) [c]])"
proof -
  have c: "c \<noteq> CHR ''-''" "c \<noteq> quote_char" "c \<noteq> CHR ''m''" "c \<noteq> CHR ''c''" "c \<noteq> CHR ''e''" "c \<noteq> CHR ''x''" "(of_char c :: int) < 128"
    using assms by auto
  show ?thesis
    by (rule readsI, use assms in \<open>simp add: match_class_Cons\<close>)
      (use assms c in \<open>simp_all add: run_simps reference_step calls_def cong: run_congs del: map_of.simps(2)\<close>)
qed

subsection \<open>The function must\<close>

definition must_calls :: "string \<Rightarrow> calls \<Rightarrow> calls" where
  "must_calls e calls w i = calls [] i @ [call_with MUST_FUNC (''must('' @ e @ '')'' @ w) [i + length (calls [] i) - 1]]"

lemma reads_must:
  assumes "reads 30 LOGICAL_EXPRESSION e calls"
  shows "reads 40 EXPRESSION (''must('' @ e @ '')'') (must_calls e calls)"
  by (rule readsI, simp add: match_class_Cons)
    (simp add: run_simps hiding_step [where hidden = "[LOGICAL_EXPRESSION]"] stop_reads [OF assms] cong: run_congs del: map_of.simps(2);
     rule reads_part(1) [OF assms];
     simp add: run_simps reference_step must_calls_def calls_def cong: run_congs del: map_of.simps(2))+

text \<open>A comparison.\<close>

abbreviation compared :: "string \<Rightarrow> string \<Rightarrow> string \<Rightarrow> string" where
  "compared e op e' \<equiv> e @ '' '' @ op @ '' '' @ e'"

definition compared_calls :: "string \<Rightarrow> string \<Rightarrow> string \<Rightarrow> calls \<Rightarrow> calls \<Rightarrow> calls" where
  "compared_calls e op e' calls calls' w i =
     (let j = i + length (calls '' '' i); k = j + 1 + length (calls' w (j + 1)) in
      calls '' '' i @ [token_call RELATIVE_OPERATOR (op @ '' '') op] @ calls' w (j + 1) @
        [call_with INFIX_EXPRESSION (compared e op e' @ w) [j - 1, j, k - 1]])"

lemma reads_must_equal:
  assumes e: "reads 30 LOGICAL_EXPRESSION e calls" and e': "reads 30 LOGICAL_EXPRESSION e' calls'"
  shows "reads 40 EXPRESSION (''must('' @ compared e ''=='' e' @ '')'')
    (must_calls (compared e ''=='' e') (compared_calls e ''=='' e' calls calls'))"
  by (rule readsI, simp add: match_class_Cons)
    (simp add: run_simps hiding_step [where hidden = "[LOGICAL_EXPRESSION]"] stop_reads [OF e] cong: run_congs del: map_of.simps(2);
     rule reads_part(2) [OF e];
     simp add: run_simps hiding_step [where hidden = "[LOGICAL_EXPRESSION]"] stop_reads [OF e'] cong: run_congs del: map_of.simps(2);
     rule reads_part(1) [OF e'];
     simp add: run_simps reference_step must_calls_def compared_calls_def calls_def cong: run_congs del: map_of.simps(2))+

lemma reads_must_differ:
  assumes e: "reads 30 LOGICAL_EXPRESSION e calls" and e': "reads 30 LOGICAL_EXPRESSION e' calls'"
  shows "reads 40 EXPRESSION (''must('' @ compared e ''<>'' e' @ '')'')
    (must_calls (compared e ''<>'' e') (compared_calls e ''<>'' e' calls calls'))"
  by (rule readsI, simp add: match_class_Cons)
    (simp add: run_simps hiding_step [where hidden = "[LOGICAL_EXPRESSION]"] stop_reads [OF e] cong: run_congs del: map_of.simps(2);
     rule reads_part(2) [OF e];
     simp add: run_simps hiding_step [where hidden = "[LOGICAL_EXPRESSION]"] stop_reads [OF e'] cong: run_congs del: map_of.simps(2);
     rule reads_part(1) [OF e'];
     simp add: run_simps reference_step must_calls_def compared_calls_def calls_def cong: run_congs del: map_of.simps(2))+

subsection \<open>Whole constraints\<close>

text \<open>
  The answer tells whether the whole text has been read; what follows the first statement is left alone.
\<close>

definition answers :: "string \<Rightarrow> bool \<Rightarrow> rule call list \<Rightarrow> bool" where
  "answers t ok cs \<longleftrightarrow> yields (\<lambda>x. x = (ok, cs)) (parse_core 70 constraint_recorder PROGRAM t [])"

lemmas skimming = run_simps hiding_step [where hidden = "[LOGICAL_EXPRESSION, EXPRESSION]"]

lemma answers_must:
  assumes "reads 30 LOGICAL_EXPRESSION e calls" and "ends rest"
  shows "answers (''must('' @ e @ '')'' @ rest) (rest = []) (must_calls e calls [] 0)"
  unfolding answers_def
  by (use assms(2) in \<open>simp add: run_simps hiding_step [where hidden = "[LOGICAL_EXPRESSION]"] stop_reads [OF assms(1)]
        cong: run_congs del: map_of.simps(2)\<close>;
      rule reads_part(1) [OF assms(1)];
      use assms(2) in \<open>simp add: run_simps reference_step must_calls_def calls_def cong: run_congs del: map_of.simps(2)\<close>)

lemma answers_must_equal:
  assumes e: "reads 30 LOGICAL_EXPRESSION e cs" and e': "reads 30 LOGICAL_EXPRESSION e' cs'" and "ends rest"
  shows "answers (''must('' @ compared e ''=='' e' @ '')'' @ rest) (rest = [])
    (must_calls (compared e ''=='' e') (compared_calls e ''=='' e' cs cs') [] 0)"
  unfolding answers_def
  by (use assms(3) in \<open>simp add: run_simps hiding_step [where hidden = "[LOGICAL_EXPRESSION]"] stop_reads [OF e] cong: run_congs del: map_of.simps(2)\<close>;
     rule reads_part(2) [OF e];
     use assms(3) in \<open>simp add: run_simps hiding_step [where hidden = "[LOGICAL_EXPRESSION]"] stop_reads [OF e'] cong: run_congs del: map_of.simps(2)\<close>;
     rule reads_part(1) [OF e'];
     use assms(3) in \<open>simp add: run_simps reference_step must_calls_def compared_calls_def calls_def cong: run_congs del: map_of.simps(2)\<close>)

definition then_call :: "rule call" where
  "then_call = token_call THEN_STATEMENT ''then '' ''then''"

lemma answers_if:
  assumes e: "reads 30 LOGICAL_EXPRESSION e cs" and s: "reads 40 EXPRESSION s ds"
  shows "answers (''if ('' @ e @ '') then '' @ s) True (cs [] 0 @ [then_call] @ ds [] (length (cs [] 0) + 1))"
  unfolding answers_def
  by (simp add: skimming stop_reads [OF e] cong: run_congs del: map_of.simps(2);
     rule reads_part(1) [OF e];
     simp add: skimming stop_reads [OF s, of "[]", simplified] cong: run_congs del: map_of.simps(2);
     rule reads_part(1) [OF s, where rest = "[]", unfolded append_Nil2];
     simp add: run_simps reference_step then_call_def calls_def cong: run_congs del: map_of.simps(2))

lemma answers_if_equal:
  assumes e: "reads 30 LOGICAL_EXPRESSION e cs" and e': "reads 30 LOGICAL_EXPRESSION e' cs'" and s: "reads 40 EXPRESSION s ds"
  shows "answers (''if ('' @ compared e ''=='' e' @ '') then '' @ s) True
    (let is = compared_calls e ''=='' e' cs cs' [] 0 in is @ [then_call] @ ds [] (length is + 1))"
  unfolding answers_def
  by (simp add: skimming stop_reads [OF e] cong: run_congs del: map_of.simps(2);
     rule reads_part(2) [OF e];
     simp add: skimming stop_reads [OF e'] cong: run_congs del: map_of.simps(2);
     rule reads_part(1) [OF e'];
     simp add: skimming stop_reads [OF s, of "[]", simplified] cong: run_congs del: map_of.simps(2);
     rule reads_part(1) [OF s, where rest = "[]", unfolded append_Nil2];
     simp add: run_simps reference_step then_call_def compared_calls_def calls_def cong: run_congs del: map_of.simps(2))

lemma answers_if_else:
  assumes e: "reads 30 LOGICAL_EXPRESSION e cs" and e': "reads 30 LOGICAL_EXPRESSION e' cs'"
    and s: "reads 40 EXPRESSION s ds" and s': "reads 40 EXPRESSION s' ds'"
  shows "answers (''if ('' @ compared e ''=='' e' @ '') then '' @ s @ '' else '' @ s') True
    (let is = compared_calls e ''=='' e' cs cs' [] 0; js = is @ [then_call] @ ds '' '' (length is + 1)
     in js @ ds' [] (length js))"
  unfolding answers_def
  by (simp add: skimming stop_reads [OF e] cong: run_congs del: map_of.simps(2);
     rule reads_part(2) [OF e];
     simp add: skimming stop_reads [OF e'] cong: run_congs del: map_of.simps(2);
     rule reads_part(1) [OF e'];
     simp add: skimming stop_reads [OF s] cong: run_congs del: map_of.simps(2);
     rule reads_part(2) [OF s];
     simp add: skimming stop_reads [OF s', of "[]", simplified] cong: run_congs del: map_of.simps(2);
     rule reads_part(1) [OF s', where rest = "[]", unfolded append_Nil2];
     simp add: run_simps reference_step then_call_def compared_calls_def calls_def add.assoc cong: run_congs del: map_of.simps(2))

end
