(* ===== verification/Constraint_Meaning.thy ===== *)
theory Constraint_Meaning
  imports Constraint_Reading
begin

section \<open>What constraints mean\<close>

text \<open>
  The calls a construct makes, replayed with the actions of the checker, amount to one function on the
  argument of the actions. These functions are composed as the constructs are, so the answer of the
  checker for a constraint is the meaning of its text.
\<close>

subsection \<open>Meanings\<close>

type_synonym meaning = "Argument \<Rightarrow> (any \<times> Argument) result"

definition matches :: "any list \<Rightarrow> nat \<Rightarrow> (any \<times> Argument) result \<Rightarrow> (any list \<times> Argument) result \<Rightarrow> bool" where
  "matches res n Y R \<longleftrightarrow>
     (case R of
        Inl e \<Rightarrow> Y = Inl e
      | Inr (res', a') \<Rightarrow> \<exists>mid v. res' = res @ mid @ [v] \<and> n = length mid + 1 \<and> Y = Inr (v, a'))"

definition does :: "calls \<Rightarrow> meaning \<Rightarrow> bool" where
  "does cs f \<longleftrightarrow>
     (\<forall>w res a. matches res (length (cs w (length res))) (f a) (replay constraint_parser (cs w (length res)) res a))"

definition means :: "nat \<Rightarrow> rule \<Rightarrow> string \<Rightarrow> meaning \<Rightarrow> bool" where
  "means n r t f \<longleftrightarrow> (\<exists>cs. reads n r t cs \<and> does cs f)"

definition handle :: "handler \<Rightarrow> any list \<Rightarrow> meaning" where
  "handle h vs = h \<lparr>sv = [], vals = vs, toks = []\<rparr>"

definition handle_token :: "handler \<Rightarrow> string \<Rightarrow> meaning" where
  "handle_token h t = h \<lparr>sv = [], vals = [], toks = [t]\<rparr>"

definition applied :: "handler \<Rightarrow> meaning \<Rightarrow> meaning" where
  "applied h f a = rbind (f a) (\<lambda>(v, a1). handle h [v] a1)"

definition comparison_of :: "meaning \<Rightarrow> string \<Rightarrow> meaning \<Rightarrow> meaning" where
  "comparison_of f op g a =
     rbind (f a) (\<lambda>(v1, a1). rbind (handle_token RelativeOperatorHandle op a1) (\<lambda>(v2, a2).
       rbind (g a2) (\<lambda>(v3, a3). handle InfixExpressionHandle [v1, v2, v3] a3)))"

definition guarded_by :: "meaning \<Rightarrow> meaning \<Rightarrow> meaning" where
  "guarded_by f h a =
     rbind (f a) (\<lambda>(v1, a1). rbind (handle_token ThenStatementHandle ''then'' a1) (\<lambda>(v2, a2). h a2))"

definition in_turn :: "meaning \<Rightarrow> meaning \<Rightarrow> meaning" where
  "in_turn f g a = rbind (f a) (\<lambda>(v1, a1). g a1)"

subsection \<open>Replaying\<close>

text \<open>Actions look at the tokens, or at the values, but not at the text they cover.\<close>

lemmas value_handlers = XPathHandle_def XPathValueHandle_def XPathAnyHandle_def ExistsHandle_def CountHandle_def
  MustHandle_def wildcard_handle_def
lemmas token_handlers = StringHandle_def NumberHandle_def BooleanHandle_def RelativeOperatorHandle_def

lemma infix_values: "infix_result cast \<lparr>sv = s, vals = vs, toks = ts\<rparr> = infix_result cast \<lparr>sv = [], vals = vs, toks = []\<rparr>"
  by (simp add: infix_result_def arg_def value_at_def fun_eq_iff)

lemma handle_values:
  "XPathHandle \<lparr>sv = s, vals = vs, toks = ts\<rparr> = handle XPathHandle vs"
  "XPathValueHandle \<lparr>sv = s, vals = vs, toks = ts\<rparr> = handle XPathValueHandle vs"
  "XPathAnyHandle \<lparr>sv = s, vals = vs, toks = ts\<rparr> = handle XPathAnyHandle vs"
  "ExistsHandle \<lparr>sv = s, vals = vs, toks = ts\<rparr> = handle ExistsHandle vs"
  "CountHandle \<lparr>sv = s, vals = vs, toks = ts\<rparr> = handle CountHandle vs"
  "InfixExpressionHandle \<lparr>sv = s, vals = vs, toks = ts\<rparr> = handle InfixExpressionHandle vs"
  "MustHandle \<lparr>sv = s, vals = vs, toks = ts\<rparr> = handle MustHandle vs"
proof -
  show "InfixExpressionHandle \<lparr>sv = s, vals = vs, toks = ts\<rparr> = handle InfixExpressionHandle vs"
    unfolding InfixExpressionHandle_def handle_def acting_def fun_eq_iff infix_values [where s = s and ts = ts]
    by (simp add: value_at_def)
qed (simp_all add: handle_def fun_eq_iff value_handlers acting_def arg_def value_at_def)

lemma handle_tokens:
  "StringHandle \<lparr>sv = s, vals = vs, toks = [t]\<rparr> = handle_token StringHandle t"
  "NumberHandle \<lparr>sv = s, vals = vs, toks = [t]\<rparr> = handle_token NumberHandle t"
  "BooleanHandle \<lparr>sv = s, vals = vs, toks = [t]\<rparr> = handle_token BooleanHandle t"
  "RelativeOperatorHandle \<lparr>sv = s, vals = vs, toks = [t]\<rparr> = handle_token RelativeOperatorHandle t"
  "ThenStatementHandle \<lparr>sv = s, vals = vs, toks = [t]\<rparr> = handle_token ThenStatementHandle t"
  "ReferenceHandle \<lparr>sv = s, vals = vs, toks = [t]\<rparr> = handle_token ReferenceHandle t"
  by (simp_all add: handle_token_def fun_eq_iff token_handlers ReferenceHandle_def ThenStatementHandle_def acting_def token_def)

text \<open>The calls of a part, and what is replayed after them.\<close>

lemma matches_simps:
  "matches res n Y (Inl e) \<longleftrightarrow> Y = Inl e"
  "matches res n Y (Inr (res', a')) \<longleftrightarrow> (\<exists>mid v. res' = res @ mid @ [v] \<and> n = length mid + 1 \<and> Y = Inr (v, a'))"
  by (simp_all add: matches_def)

lemma does_then:
  assumes "does cs f"
    and "\<And>e. f a = Inl e \<Longrightarrow> Q (Inl e)"
    and "\<And>v a' mid. f a = Inr (v, a') \<Longrightarrow> length (cs w (length res)) = length mid + 1 \<Longrightarrow>
      Q (replay constraint_parser later (res @ mid @ [v]) a')"
  shows "Q (replay constraint_parser (cs w (length res) @ later) res a)"
proof -
  have m: "matches res (length (cs w (length res))) (f a) (replay constraint_parser (cs w (length res)) res a)"
    using assms(1) by (simp add: does_def)
  show ?thesis
    by (cases "replay constraint_parser (cs w (length res)) res a")
      (use m assms(2,3) in \<open>auto simp: matches_simps replay_append\<close>)
qed

lemmas replaying = matches_simps look_values_def look_def handle_values handle_tokens call_with_def token_call_def nth_append


lemma doesI:
  "(\<And>w res a. matches res (length (cs w (length res))) (f a) (replay constraint_parser (cs w (length res)) res a)) \<Longrightarrow> does cs f"
  by (simp add: does_def)

lemma does_string: "does (\<lambda>w i. [string_call p w]) (handle_token StringHandle p)"
  by (rule doesI) (auto simp: replaying rbind_def split: sum.splits)

lemma does_boolean: "does (\<lambda>w i. [token_call BOOLEAN (t @ w) t]) (handle_token BooleanHandle t)"
  by (rule doesI) (auto simp: replaying rbind_def split: sum.splits)

lemma does_digit: "does (\<lambda>w i. [token_call NUMBER_RULE (c # w) [c]]) (handle_token NumberHandle [c])"
  by (rule doesI) (auto simp: replaying rbind_def split: sum.splits)

lemma does_path:
  "does (path_call XPATH_FUNC t p) (applied XPathHandle (handle_token StringHandle p))"
  "does (path_call XPATH_VALUE_FUNC t p) (applied XPathValueHandle (handle_token StringHandle p))"
  "does (path_call XPATH_ANY_FUNC t p) (applied XPathAnyHandle (handle_token StringHandle p))"
  by (rule doesI; auto simp: path_call_def replaying applied_def rbind_def split: sum.splits)+

lemma does_reference: "does reference_calls (applied XPathHandle (handle_token ReferenceHandle ''@''))"
  by (rule doesI) (auto simp: reference_calls_def replaying applied_def rbind_def split: sum.splits)

lemma does_exists:
  assumes "does cs f"
  shows "does (\<lambda>w i. cs [] i @ [call_with EXISTS_FUNC (t w) [i + length (cs [] i) - 1]]) (applied ExistsHandle f)"
  by (rule doesI, rule does_then [OF assms]) (auto simp: replaying applied_def rbind_def split: sum.splits)

lemma does_count:
  assumes "does cs f"
  shows "does (\<lambda>w i. cs [] i @ [call_with COUNT_FUNC (t w) [i + length (cs [] i) - 1]]) (applied CountHandle f)"
  by (rule doesI, rule does_then [OF assms]) (auto simp: replaying applied_def rbind_def split: sum.splits)

lemma does_must:
  assumes "does cs f"
  shows "does (must_calls e cs) (applied MustHandle f)"
  unfolding must_calls_def [abs_def]
  by (rule doesI, rule does_then [OF assms]) (auto simp: replaying applied_def rbind_def split: sum.splits)


lemma does_compared:
  assumes f: "does cs f" and g: "does cs' g"
  shows "does (compared_calls e op e' cs cs') (comparison_of f op g)"
proof (rule doesI)
  fix w and res :: "any list" and a
  let ?j = "length res + length (cs '' '' (length res))"
  let ?later = "cs' w (?j + 1) @ [call_with INFIX_EXPRESSION (compared e op e' @ w) [?j - 1, ?j, ?j + 1 + length (cs' w (?j + 1)) - 1]]"
  let ?P = "matches res (length (compared_calls e op e' cs cs' w (length res))) (comparison_of f op g a)"
  have "?P (replay constraint_parser (cs '' '' (length res) @ token_call RELATIVE_OPERATOR (op @ '' '') op # ?later) res a)"
  proof (rule does_then [OF f])
    fix v a1 and mid :: "any list"
    assume 1: "f a = Inr (v, a1)" "length (cs '' '' (length res)) = length mid + 1"
    show "?P (replay constraint_parser (token_call RELATIVE_OPERATOR (op @ '' '') op # ?later) (res @ mid @ [v]) a1)"
    proof (cases "handle_token RelativeOperatorHandle op a1")
      case (Inl x)
      with 1 show ?thesis by (simp add: token_call_def handle_tokens look_values_def comparison_of_def matches_simps)
    next
      case (Inr x)
      obtain v2 a2 where 2: "handle_token RelativeOperatorHandle op a1 = Inr (v2, a2)" using Inr by (cases x) auto
      have j: "?j + 1 = length (res @ mid @ [v, v2])" using 1 by simp
      have "?P (replay constraint_parser ?later (res @ mid @ [v, v2]) a2)"
        unfolding j
        by (rule does_then [OF g])
          (use 1 2 in \<open>auto simp: comparison_of_def replaying compared_calls_def Let_def rbind_def split: sum.splits\<close>)
      with 2 show ?thesis by (simp add: token_call_def handle_tokens look_values_def)
    qed
  qed (simp add: comparison_of_def matches_simps)
  then show "?P (replay constraint_parser (compared_calls e op e' cs cs' w (length res)) res a)"
    by (simp add: compared_calls_def Let_def)
qed

subsection \<open>The answer of the checker\<close>

definition decides :: "meaning \<Rightarrow> Argument \<Rightarrow> bool result" where
  "decides f a = rbind (f a) (\<lambda>(v, a'). Inr (ExpressionResult a'))"

lemma validate_answers:
  assumes "answers t ok cs" and "70 \<le> d"
  shows "validate d mngr rx rs root h t =
    rbind (replay constraint_parser cs [] (argument mngr rx rs root h)) (\<lambda>(res, a). Inr (ExpressionResult a))"
  using assms by (intro validate_is_replay [where k = 70 and ok = ok]) (auto simp: answers_def yields_def)

lemma decided:
  assumes "does cs f"
  shows "rbind (replay constraint_parser (cs w 0) [] a) (\<lambda>(res, a). Inr (ExpressionResult a)) = decides f a"
  using does_then [OF assms, where res = "[]" and later = "[]" and w = w and a = a and
      Q = "\<lambda>R. rbind R (\<lambda>(res, a). Inr (ExpressionResult a)) = decides f a"]
  by (simp add: decides_def)

lemma does_guarded:
  assumes f: "does cs f" and g: "does ds g"
  shows "rbind (replay constraint_parser (cs w 0 @ [then_call] @ ds w' (length (cs w 0) + 1)) [] a) (\<lambda>(res, a). Inr (ExpressionResult a)) =
    decides (guarded_by f g) a"
proof -
  let ?Q = "\<lambda>R. rbind R (\<lambda>(res, a). Inr (ExpressionResult a)) = decides (guarded_by f g) a"
  have "?Q (replay constraint_parser (cs w (length ([] :: any list)) @ then_call # ds w' (length (cs w 0) + 1)) [] a)"
  proof (rule does_then [OF f])
    fix v a1 and mid :: "any list"
    assume 1: "f a = Inr (v, a1)" "length (cs w (length ([] :: any list))) = length mid + 1"
    obtain v2 a2 where 2: "handle_token ThenStatementHandle ''then'' a1 = Inr (v2, a2)"
      by (simp add: handle_token_def ThenStatementHandle_def)
    have j: "length (cs w 0) + 1 = length (mid @ [v, v2])" using 1 by simp
    have "?Q (replay constraint_parser (ds w' (length (cs w 0) + 1) @ []) (mid @ [v, v2]) a2)"
      unfolding j by (rule does_then [OF g]) (use 1 2 in \<open>simp_all add: decides_def guarded_by_def\<close>)
    with 2 show "?Q (replay constraint_parser (then_call # ds w' (length (cs w 0) + 1)) ([] @ mid @ [v]) a1)"
      by (simp add: then_call_def token_call_def handle_tokens look_values_def)
  qed (simp add: decides_def guarded_by_def)
  then show ?thesis by simp
qed


lemma does_in_turn:
  assumes f: "does cs f" and g: "does ds g" and h: "does ds' h"
  shows "rbind (replay constraint_parser
      (let is = cs w 0; js = is @ [then_call] @ ds w' (length is + 1) in js @ ds' w'' (length js)) [] a)
      (\<lambda>(res, a). Inr (ExpressionResult a)) =
    decides (in_turn (guarded_by f g) h) a"
proof -
  let ?Q = "\<lambda>R. rbind R (\<lambda>(res, a). Inr (ExpressionResult a)) = decides (in_turn (guarded_by f g) h) a"
  let ?n = "length (cs w 0) + 1"
  have "?Q (replay constraint_parser (cs w (length ([] :: any list)) @ then_call # ds w' ?n @ ds' w'' (?n + length (ds w' ?n))) [] a)"
  proof (rule does_then [OF f])
    fix v a1 and mid :: "any list"
    assume 1: "f a = Inr (v, a1)" "length (cs w (length ([] :: any list))) = length mid + 1"
    obtain v2 a2 where 2: "handle_token ThenStatementHandle ''then'' a1 = Inr (v2, a2)"
      by (simp add: handle_token_def ThenStatementHandle_def)
    have j: "?n = length (mid @ [v, v2])" using 1 by simp
    have "?Q (replay constraint_parser (ds w' ?n @ ds' w'' (?n + length (ds w' ?n))) (mid @ [v, v2]) a2)"
      unfolding j
    proof (rule does_then [OF g])
      fix v3 a3 and mid' :: "any list"
      assume 3: "g a2 = Inr (v3, a3)" "length (ds w' (length (mid @ [v, v2]))) = length mid' + 1"
      have k: "length (mid @ [v, v2]) + length (ds w' (length (mid @ [v, v2]))) = length ((mid @ [v, v2]) @ mid' @ [v3])"
        using 3 by simp
      have "?Q (replay constraint_parser (ds' w'' (length ((mid @ [v, v2]) @ mid' @ [v3])) @ []) ((mid @ [v, v2]) @ mid' @ [v3]) a3)"
        by (rule does_then [OF h]) (use 1 2 3 in \<open>simp_all add: decides_def in_turn_def guarded_by_def\<close>)
      then show "?Q (replay constraint_parser (ds' w'' (length (mid @ [v, v2]) + length (ds w' (length (mid @ [v, v2])))))
          ((mid @ [v, v2]) @ mid' @ [v3]) a3)"
        by (simp only: k append_Nil2)
    qed (use 1 2 in \<open>simp add: decides_def in_turn_def guarded_by_def\<close>)
    with 2 show "?Q (replay constraint_parser (then_call # ds w' ?n @ ds' w'' (?n + length (ds w' ?n))) ([] @ mid @ [v]) a1)"
      by (simp add: then_call_def token_call_def handle_tokens look_values_def)
  qed (simp add: decides_def in_turn_def guarded_by_def)
  then show ?thesis by (simp add: Let_def)
qed

subsection \<open>The constructs\<close>

lemma meansI: "reads n r t cs \<Longrightarrow> does cs f \<Longrightarrow> means n r t f"
  by (auto simp: means_def)

lemma meansE: "means n r t f \<Longrightarrow> (\<And>cs. reads n r t cs \<Longrightarrow> does cs f \<Longrightarrow> thesis) \<Longrightarrow> thesis"
  by (auto simp: means_def)

lemma means_exists: "means 20 XPATH_FUNC_FAMILY e f \<Longrightarrow> means 30 LOGICAL_EXPRESSION (''exists('' @ e @ '')'') (applied ExistsHandle f)"
  by (erule meansE) (rule meansI [OF reads_exists does_exists [where t = "\<lambda>w. ''exists('' @ e @ '')'' @ w"]])

lemma means_count: "means 20 XPATH_FUNC_FAMILY e f \<Longrightarrow> means 30 LOGICAL_EXPRESSION (''count('' @ e @ '')'') (applied CountHandle f)"
  by (erule meansE) (rule meansI [OF reads_count does_count [where t = "\<lambda>w. ''count('' @ e @ '')'' @ w"]])

lemma means_xpath:
  "path_text p \<Longrightarrow> means 20 XPATH_FUNC_FAMILY (''xpath('' @ quoted p @ '')'') (applied XPathHandle (handle_token StringHandle p))"
  unfolding means_def by (blast intro: reads_xpath does_path)

lemma means_reference: "means 20 XPATH_FUNC_FAMILY ''xpath(@)'' (applied XPathHandle (handle_token ReferenceHandle ''@''))"
  unfolding means_def by (blast intro: reads_reference does_reference)

lemma means_xpath_any:
  "path_text p \<Longrightarrow> means 20 XPATH_FUNC_FAMILY (''xpath_any('' @ quoted p @ '')'') (applied XPathAnyHandle (handle_token StringHandle p))"
  unfolding means_def by (blast intro: reads_xpath_any does_path)

lemma means_value:
  "path_text p \<Longrightarrow> means 30 LOGICAL_EXPRESSION (''xpath_value('' @ quoted p @ '')'') (applied XPathValueHandle (handle_token StringHandle p))"
  unfolding means_def by (blast intro: reads_value does_path)

lemma means_string: "path_text p \<Longrightarrow> means 30 LOGICAL_EXPRESSION (quoted p) (handle_token StringHandle p)"
  unfolding means_def by (blast intro: reads_string does_string)

definition bool_text :: "bool \<Rightarrow> string" where
  "bool_text b = (if b then ''true'' else ''false'')"

lemma means_bool: "means 30 LOGICAL_EXPRESSION (bool_text b) (handle_token BooleanHandle (bool_text b))"
  unfolding bool_text_def by (cases b) (simp_all only: if_True if_False meansI [OF reads_true does_boolean] meansI [OF reads_false does_boolean])

lemma means_digit:
  "48 \<le> (of_char c :: int) \<Longrightarrow> of_char c \<le> (57 :: int) \<Longrightarrow> means 30 LOGICAL_EXPRESSION [c] (handle_token NumberHandle [c])"
  unfolding means_def by (blast intro: reads_digit does_digit)

lemma means_must: "means 30 LOGICAL_EXPRESSION e f \<Longrightarrow> means 40 EXPRESSION (''must('' @ e @ '')'') (applied MustHandle f)"
  unfolding means_def by (blast intro: reads_must does_must)

lemma means_must_equal:
  "means 30 LOGICAL_EXPRESSION e f \<Longrightarrow> means 30 LOGICAL_EXPRESSION e' g \<Longrightarrow>
   means 40 EXPRESSION (''must('' @ compared e ''=='' e' @ '')'') (applied MustHandle (comparison_of f ''=='' g))"
  unfolding means_def by (blast intro: reads_must_equal does_must does_compared)

lemma validate_must:
  assumes "means 30 LOGICAL_EXPRESSION e f" and "ends rest" and "70 \<le> d"
  shows "validate d mngr rx rs root h (''must('' @ e @ '')'' @ rest) = decides (applied MustHandle f) (argument mngr rx rs root h)"
proof -
  obtain cs where "reads 30 LOGICAL_EXPRESSION e cs" "does cs f" using assms(1) by (auto simp: means_def)
  then show ?thesis
    using validate_answers [OF answers_must assms(3)] assms(2) decided [OF does_must] by simp
qed

lemma validate_must_equal:
  assumes "means 30 LOGICAL_EXPRESSION e f" and "means 30 LOGICAL_EXPRESSION e' g" and "ends rest" and "70 \<le> d"
  shows "validate d mngr rx rs root h (''must('' @ compared e ''=='' e' @ '')'' @ rest) =
    decides (applied MustHandle (comparison_of f ''=='' g)) (argument mngr rx rs root h)"
proof -
  obtain cs cs' where "reads 30 LOGICAL_EXPRESSION e cs" "does cs f" "reads 30 LOGICAL_EXPRESSION e' cs'" "does cs' g"
    using assms(1,2) by (auto simp: means_def)
  then show ?thesis
    using validate_answers [OF answers_must_equal assms(4)] assms(3) decided [OF does_must [OF does_compared]] by simp
qed

lemma validate_if:
  assumes "means 30 LOGICAL_EXPRESSION e f" and "means 40 EXPRESSION s g" and "70 \<le> d"
  shows "validate d mngr rx rs root h (''if ('' @ e @ '') then '' @ s) = decides (guarded_by f g) (argument mngr rx rs root h)"
proof -
  obtain cs ds where "reads 30 LOGICAL_EXPRESSION e cs" "does cs f" "reads 40 EXPRESSION s ds" "does ds g"
    using assms(1,2) by (auto simp: means_def)
  then show ?thesis
    using validate_answers [OF answers_if assms(3)] does_guarded by simp
qed

lemma validate_if_equal:
  assumes "means 30 LOGICAL_EXPRESSION e f" and "means 30 LOGICAL_EXPRESSION e' f'" and "means 40 EXPRESSION s g" and "70 \<le> d"
  shows "validate d mngr rx rs root h (''if ('' @ compared e ''=='' e' @ '') then '' @ s) =
    decides (guarded_by (comparison_of f ''=='' f') g) (argument mngr rx rs root h)"
proof -
  obtain cs cs' ds where "reads 30 LOGICAL_EXPRESSION e cs" "does cs f" "reads 30 LOGICAL_EXPRESSION e' cs'" "does cs' f'"
    "reads 40 EXPRESSION s ds" "does ds g"
    using assms(1-3) by (auto simp: means_def)
  then show ?thesis
    using validate_answers [OF answers_if_equal assms(4)] does_guarded [OF does_compared] by (simp add: Let_def)
qed

lemma validate_if_else:
  assumes "means 30 LOGICAL_EXPRESSION e f" and "means 30 LOGICAL_EXPRESSION e' f'" and "means 40 EXPRESSION s g"
    and "means 40 EXPRESSION s' g'" and "70 \<le> d"
  shows "validate d mngr rx rs root h (''if ('' @ compared e ''=='' e' @ '') then '' @ s @ '' else '' @ s') =
    decides (in_turn (guarded_by (comparison_of f ''=='' f') g) g') (argument mngr rx rs root h)"
proof -
  obtain cs cs' ds ds' where "reads 30 LOGICAL_EXPRESSION e cs" "does cs f" "reads 30 LOGICAL_EXPRESSION e' cs'" "does cs' f'"
    "reads 40 EXPRESSION s ds" "does ds g" "reads 40 EXPRESSION s' ds'" "does ds' g'"
    using assms(1-4) by (auto simp: means_def)
  then show ?thesis
    using validate_answers [OF answers_if_else assms(5)] does_in_turn [OF does_compared] by (simp add: Let_def)
qed

end
