(* ===== verification/Constraints.thy ===== *)
theory Constraints
  imports Constraint_Meaning
begin

section \<open>Properties of the constraint checker\<close>

text \<open>
  What the checker answers for the forms of constraints the schemas use, for every configuration, node,
  path and value.
\<close>

text \<open>The node a path stands for, seen from the node the constraint belongs to.\<close>

definition node_at :: "node \<Rightarrow> handle \<Rightarrow> string \<Rightarrow> handle option result" where
  "node_at root h p = rbind (XPath_evaluateXPath h p) (\<lambda>q. Inr (XPath_select ([], root) q))"

definition present :: "node \<Rightarrow> handle \<Rightarrow> string \<Rightarrow> bool result" where
  "present root h p = rbind (node_at root h p) (\<lambda>x. Inr (x \<noteq> None))"

lemma evaluate_raises: "XPath_evaluateXPath h p = Inl e \<Longrightarrow> e = OutOfRange \<or> e = NullDeref"
  by (auto simp: XPath_evaluateXPath_def Let_def resolve_key_name_def rbind_def split: if_splits list.splits sum.splits)

lemma node_cases:
  obtains (raises) e where "XPath_evaluateXPath h p = Inl e" "e \<noteq> BadAnyCast"
  | (there) q x where "XPath_evaluateXPath h p = Inr q" "XPath_select ([], root) q = Some x"
  | (absent) q where "XPath_evaluateXPath h p = Inr q" "XPath_select ([], root) q = None"
proof (cases "XPath_evaluateXPath h p")
  case (Inl e)
  with evaluate_raises [of h p e] show thesis by (intro raises [of e]) auto
next
  case (Inr q)
  with there absent show thesis by (cases "XPath_select ([], root) q") auto
qed

lemma path_not_Nil: "path_text p \<Longrightarrow> p \<noteq> []"
  by (simp add: path_text_def)

lemmas meaning_simps = decides_def applied_def comparison_of_def guarded_by_def in_turn_def handle_def handle_token_def
  replay_steps StringHandle_def NumberHandle_def BooleanHandle_def RelativeOperatorHandle_def XPathHandle_def XPathValueHandle_def
  ExistsHandle_def CountHandle_def InfixExpressionHandle_def MustHandle_def ThenStatementHandle_def
  infix_result_def relate_def node_at_def present_def path_not_Nil bool_text_def

lemma Trim_op: "Trim ''=='' = ''==''"
  by code_simp

lemma contains_bool: "contains ''true'' ''true''" "\<not> contains ''false'' ''true''" "contains ''false'' ''false''"
  by code_simp+

text \<open>A configuration, and its node \<open>/host/name\<close>, for the examples.\<close>

definition checked_node :: node where
  "checked_node = Leaf ''name'' \<lparr>vtype = STRING, holder = Some (HString ''r1'')\<rparr>"

definition checked_config :: node where
  "checked_config = Composite ''/'' [(''host'', Composite ''host''
     [(''mtu'', Leaf ''mtu'' \<lparr>vtype = NUMBER, holder = Some (HNumber 9)\<rparr>), (''name'', checked_node)])]"

definition check_host :: "string \<Rightarrow> bool result" where
  "check_host = validate 70 (\<lambda>x. Inr None) (\<lambda>s r. Inr (s = r)) (\<lambda>s r. Inr None) checked_config ([''host'', ''/''], checked_node)"

lemma checked_paths:
  "path_text ''/host/name''" "path_text ''/host/mtu''" "path_text ''/host/vlan''" "path_text ''r1''" "path_text ''r2''" "path_text ''9''"
  "ends []" "ends '';and more''"
  by code_simp+

lemma checked_presence:
  "present checked_config ([''host'', ''/''], checked_node) ''/host/name'' = Inr True"
  "present checked_config ([''host'', ''/''], checked_node) ''/host/mtu'' = Inr True"
  "present checked_config ([''host'', ''/''], checked_node) ''/host/vlan'' = Inr False"
  by code_simp+

text \<open>C16 A path that must exist: the constraint \<open>must(exists(xpath('p')))\<close> holds exactly if the path leads to a node,
  for every configuration and node, and whatever text follows, as long as it does not begin with a digit or a space: the
  rest is not read.\<close>

theorem required_path_exists:
  assumes "path_text p" and "ends rest" and "70 \<le> d"
  shows "validate d mngr rx rs root h (''must(exists(xpath('' @ quoted p @ '')))'' @ rest) = present root h p"
proof -
  have "validate d mngr rx rs root h (''must('' @ (''exists('' @ (''xpath('' @ quoted p @ '')'') @ '')'') @ '')'' @ rest) = present root h p"
    unfolding validate_must [OF means_exists [OF means_xpath [OF assms(1)]] assms(2,3)]
    by (rule node_cases [where h = h and p = p and root = root]) (simp_all add: meaning_simps assms(1))
  then show ?thesis by simp
qed

theorem required_path_exists_witness:
  "check_host (''must(exists(xpath('' @ quoted ''/host/name'' @ '')))'' @ []) = Inr True \<and>
   check_host (''must(exists(xpath('' @ quoted ''/host/vlan'' @ '')))'' @ '';and more'') = Inr False"
  unfolding check_host_def
  using required_path_exists [OF checked_paths(1,7) order_refl] required_path_exists [OF checked_paths(3,8) order_refl]
  by (simp only: checked_presence simp_thms)

text \<open>C9 A guarded path: \<open>if (exists(xpath('p')) == b) then must(exists(xpath('q')))\<close> asks for the node at \<open>q\<close> exactly if
  the comparison of the presence of \<open>p\<close> with \<open>b\<close> is true, and holds otherwise.\<close>

theorem guarded_path:
  assumes "path_text p" and "path_text q" and "70 \<le> d"
  shows "validate d mngr rx rs root h (''if (exists(xpath('' @ quoted p @ '')) == '' @ bool_text b @ '') then must(exists(xpath('' @ quoted q @ '')))'') =
    rbind (present root h p) (\<lambda>x. if x = b then present root h q else Inr True)"
proof -
  have "validate d mngr rx rs root h (''if ('' @ compared (''exists('' @ (''xpath('' @ quoted p @ '')'') @ '')'') ''=='' (bool_text b) @
      '') then '' @ (''must('' @ (''exists('' @ (''xpath('' @ quoted q @ '')'') @ '')'') @ '')'')) =
    rbind (present root h p) (\<lambda>x. if x = b then present root h q else Inr True)"
    unfolding validate_if_equal [OF means_exists [OF means_xpath [OF assms(1)]] means_bool
        means_must [OF means_exists [OF means_xpath [OF assms(2)]]] assms(3)]
    by (rule node_cases [where h = h and p = p and root = root]; rule node_cases [where h = h and p = q and root = root]; cases b;
      simp add: meaning_simps assms(1,2) Trim_op contains_bool)
  then show ?thesis by simp
qed

theorem guarded_path_witness:
  "check_host (''if (exists(xpath('' @ quoted ''/host/name'' @ '')) == '' @ bool_text True @
     '') then must(exists(xpath('' @ quoted ''/host/vlan'' @ '')))'') = Inr False \<and>
   check_host (''if (exists(xpath('' @ quoted ''/host/name'' @ '')) == '' @ bool_text False @
     '') then must(exists(xpath('' @ quoted ''/host/vlan'' @ '')))'') = Inr True"
  unfolding check_host_def
  using guarded_path [OF checked_paths(1,3) order_refl, where b = True] guarded_path [OF checked_paths(1,3) order_refl, where b = False]
  by (simp only: checked_presence rbind_simps) simp


text \<open>A condition of one atom is no guard: in \<open>if (exists(xpath('p'))) then must(exists(xpath('q')))\<close> the node at \<open>q\<close>
  is asked for whether there is one at \<open>p\<close> or not, because only a comparison can stop the processing.\<close>

theorem bare_condition:
  assumes "path_text p" and "path_text q" and "70 \<le> d"
  shows "validate d mngr rx rs root h (''if (exists(xpath('' @ quoted p @ ''))) then must(exists(xpath('' @ quoted q @ '')))'') =
    rbind (present root h p) (\<lambda>x. present root h q)"
proof -
  have "validate d mngr rx rs root h (''if ('' @ (''exists('' @ (''xpath('' @ quoted p @ '')'') @ '')'') @
      '') then '' @ (''must('' @ (''exists('' @ (''xpath('' @ quoted q @ '')'') @ '')'') @ '')'')) =
    rbind (present root h p) (\<lambda>x. present root h q)"
    unfolding validate_if [OF means_exists [OF means_xpath [OF assms(1)]]
        means_must [OF means_exists [OF means_xpath [OF assms(2)]]] assms(3)]
    by (rule node_cases [where h = h and p = p and root = root]; rule node_cases [where h = h and p = q and root = root];
      simp add: meaning_simps assms(1,2))
  then show ?thesis by simp
qed

theorem bare_condition_witness:
  "check_host (''if (exists(xpath('' @ quoted ''/host/vlan'' @ ''))) then must(exists(xpath('' @ quoted ''/host/vlan'' @ '')))'') = Inr False"
  unfolding check_host_def
  using bare_condition [OF checked_paths(3,3) order_refl]
  by (simp only: checked_presence rbind_simps simp_thms bool.simps if_True if_False)



lemma digit_number:
  assumes "48 \<le> (of_char c :: int)" and "of_char c \<le> (57 :: int)"
  shows "token_to_number [c] = word_of_int (of_char c - 48)"
  using assms by (auto simp: token_to_number_def integer_of_def Let_def)

lemma small_words:
  "48 \<le> n \<Longrightarrow> n \<le> 57 \<Longrightarrow> (word_of_int n :: 64 word) = 48 \<longleftrightarrow> n = 48"
  "48 \<le> n \<Longrightarrow> n \<le> 57 \<Longrightarrow> (word_of_int n :: 64 word) = 49 \<longleftrightarrow> n = 49"
  by (transfer; simp add: take_bit_int_eq_self)+

text \<open>The count of a path is one if it leads to a node and zero otherwise, so that
  \<open>must(count(xpath('p')) == n)\<close> holds exactly if the digit is this number.\<close>

theorem required_count:
  assumes "path_text p" and "48 \<le> (of_char c :: int)" and "of_char c \<le> (57 :: int)" and "ends rest" and "70 \<le> d"
  shows "validate d mngr rx rs root h (''must(count(xpath('' @ quoted p @ '')) == '' @ [c] @ '')'' @ rest) =
    rbind (present root h p) (\<lambda>x. Inr ((if x then 1 else 0) = (of_char c - 48 :: int)))"
proof -
  have "validate d mngr rx rs root h (''must('' @ compared (''count('' @ (''xpath('' @ quoted p @ '')'') @ '')'') ''=='' [c] @ '')'' @ rest) =
    rbind (present root h p) (\<lambda>x. Inr ((if x then 1 else 0) = (of_char c - 48 :: int)))"
    unfolding validate_must_equal [OF means_count [OF means_xpath [OF assms(1)]] means_digit [OF assms(2,3)] assms(4,5)]
    by (rule node_cases [where h = h and p = p and root = root])
      (use assms(2,3) in \<open>auto simp: meaning_simps assms(1) Trim_op digit_number small_words\<close>)
  then show ?thesis by simp
qed

theorem required_count_witness:
  "check_host (''must(count(xpath('' @ quoted ''/host/name'' @ '')) == '' @ [CHR ''1''] @ '')'' @ []) = Inr True \<and>
   check_host (''must(count(xpath('' @ quoted ''/host/vlan'' @ '')) == '' @ [CHR ''1''] @ '')'' @ []) = Inr False"
proof -
  have c: "48 \<le> (of_char (CHR ''1'') :: int)" "of_char (CHR ''1'') \<le> (57 :: int)" by simp_all
  from required_count [OF checked_paths(1) c checked_paths(7) order_refl] required_count [OF checked_paths(3) c checked_paths(7) order_refl]
  show ?thesis unfolding check_host_def by (simp only: checked_presence rbind_simps) simp
qed


text \<open>
  The value \<open>xpath_value\<close> gives for a path: in the path every \<open>[@key]\<close> is replaced by the token the path of
  the node has there.
\<close>

definition own_path :: "handle \<Rightarrow> string \<Rightarrow> string" where
  "own_path h p =
     projr (rebuild (\<lambda>t current. Inr current) (XPath_parse (replace_all ITEM_NAME_SUBSCRIPT (''/'' @ ITEM_NAME_SUBSCRIPT) p))
       (XPath_parse (XPath_toString h)))"

definition leaf_any :: "node \<Rightarrow> string \<Rightarrow> any" where
  "leaf_any root q =
     (case XPath_select ([], root) q of
        None \<Rightarrow> AEmpty
      | Some h \<Rightarrow>
          (case getValue (snd h) of
             None \<Rightarrow> AEmpty
           | Some v \<Rightarrow>
               (case holder v of
                  Some (HBool b) \<Rightarrow> ABool b
                | Some (HNumber n) \<Rightarrow> ANumber n
                | Some (HString s) \<Rightarrow> AString s
                | _ \<Rightarrow> AEmpty)))"

lemma rebuild_total: "\<exists>q. rebuild (\<lambda>t current. Inr current) ts rs = Inr q"
proof (induction ts arbitrary: rs)
  case (Cons t ts)
  obtain q where "rebuild (\<lambda>t current. Inr current) ts (tl rs) = Inr q" using Cons by blast
  then show ?case by simp
qed simp

lemma rebuild_own_path: "rebuild_xpath (\<lambda>t current. Inr current) (argument mngr rx rs root h) p = Inr (own_path h p)"
  using rebuild_total by (auto simp: rebuild_xpath_def own_path_def) (metis sum.sel(2))

lemma argument_false: "argument mngr rx rs root h\<lparr>ExpressionResult := False\<rparr> = argument mngr rx rs root h"
  by (simp add: argument_def)

lemma value_meaning:
  assumes "path_text p"
  shows "applied XPathValueHandle (handle_token StringHandle p) (argument mngr rx rs root h) =
    Inr (leaf_any root (own_path h p), argument mngr rx rs root h)"
  by (auto simp: meaning_simps assms rebuild_own_path leaf_any_def leaf_value_def argument_false
      is_bool_def is_number_def is_string_def get_bool_def get_number_def get_string_def split: option.splits holder.splits)

lemma checked_leaves:
  "leaf_any checked_config (own_path ([''host'', ''/''], checked_node) ''/host/name'') = AString ''r1''"
  "leaf_any checked_config (own_path ([''host'', ''/''], checked_node) ''/host/mtu'') = ANumber 9"
  "leaf_any checked_config (own_path ([''host'', ''/''], checked_node) ''/host/vlan'') = AEmpty"
  by code_simp+

text \<open>C17 \<open>must(xpath_value('p') == 'w')\<close> holds exactly if the leaf at the path has the string \<open>w\<close> as its value: a number is never
  equal to a text, also not to its own.\<close>

theorem required_value:
  assumes "path_text p" and "path_text w" and "ends rest" and "70 \<le> d"
  shows "validate d mngr rx rs root h (''must(xpath_value('' @ quoted p @ '') == '' @ quoted w @ '')'' @ rest) =
    Inr (leaf_any root (own_path h p) = AString w)"
proof -
  have "validate d mngr rx rs root h (''must('' @ compared (''xpath_value('' @ quoted p @ '')'') ''=='' (quoted w) @ '')'' @ rest) =
    Inr (leaf_any root (own_path h p) = AString w)"
    unfolding validate_must_equal [OF means_value [OF assms(1)] means_string [OF assms(2)] assms(3,4)] decides_def
      applied_def [of MustHandle] comparison_of_def value_meaning [OF assms(1)]
    by (cases "leaf_any root (own_path h p)") (simp_all add: meaning_simps assms(1,2) Trim_op)
  then show ?thesis by simp
qed

theorem required_value_witness:
  "check_host (''must(xpath_value('' @ quoted ''/host/name'' @ '') == '' @ quoted ''r1'' @ '')'' @ []) = Inr True \<and>
   check_host (''must(xpath_value('' @ quoted ''/host/mtu'' @ '') == '' @ quoted ''9'' @ '')'' @ []) = Inr False"
  unfolding check_host_def
  using required_value [OF checked_paths(1,4,7) order_refl] required_value [OF checked_paths(2,6,7) order_refl]
  by (simp only: checked_leaves) simp




subsection \<open>Every constraint\<close>

text \<open>C10 Checking ends: for every text of well-formed characters there is one sequence of actions, which depends on the text
  only, and with at least the given stack the answer, for every configuration and node, is what these actions leave,
  performed one after the other.\<close>

theorem constraint_checking_ends:
  assumes "decodable text"
  shows "\<exists>calls. \<forall>d \<ge> 42 * (length text + 1) + 2. \<forall>mngr rx rs root h.
    validate d mngr rx rs root h text =
      rbind (replay constraint_parser calls [] (argument mngr rx rs root h)) (\<lambda>(res, a). Inr (ExpressionResult a))"
proof -
  from recorded_run [OF assms order_refl] obtain ok calls
    where "parse_core (42 * (length text + 1) + 2) constraint_recorder PROGRAM text [] = Inr (ok, calls)" by blast
  from validate_is_replay [OF this] show ?thesis by blast
qed

theorem constraint_checking_ends_witness:
  "\<exists>calls. \<forall>d \<ge> 86. \<forall>mngr rx rs root h.
    validate d mngr rx rs root h ''@'' =
      rbind (replay constraint_parser calls [] (argument mngr rx rs root h)) (\<lambda>(res, a). Inr (ExpressionResult a))"
  using constraint_checking_ends [of "''@''"] by (simp add: decodable_ascii)

text \<open>The actions but those of \<open>must\<close> and \<open>then\<close> do not make the answer true.\<close>

definition never_grants :: "handler \<Rightarrow> bool" where
  "never_grants act \<longleftrightarrow> (\<forall>vs a v a'. act vs a = Inr (v, a') \<longrightarrow> ExpressionResult a' \<longrightarrow> ExpressionResult a)"

lemma acting_never_grants:
  assumes "\<And>vs a v a'. body vs a = Inr (v, a') \<Longrightarrow> a' = a \<or> a' = a\<lparr>ExpressionResult := False\<rparr> \<or> (\<exists>b. a' = a\<lparr>ContinueProcessing := b\<rparr>)"
  shows "never_grants (acting nothing body)"
proof -
  have "ExpressionResult a" if "acting nothing body vs a = Inr (v, a')" "ExpressionResult a'" for vs a v a'
    using that assms [of vs a v a'] by (auto simp: acting_def split: if_splits sum.splits)
  then show ?thesis by (simp add: never_grants_def)
qed

lemma handlers_never_grant:
  "never_grants BooleanHandle" "never_grants NumberHandle" "never_grants RelativeOperatorHandle" "never_grants StringHandle"
  "never_grants ReferenceHandle" "never_grants CountHandle" "never_grants ExistsHandle" "never_grants InfixExpressionHandle"
  "never_grants XPathHandle" "never_grants XPathValueHandle" "never_grants XPathMatchRegexHandle"
  "never_grants (wildcard_handle b)" "never_grants XPathKeyBasedHandle" "never_grants XPathKeyRegexReplaceHandle"
  "never_grants XPathValueKeyRegexReplaceHandle"
  unfolding BooleanHandle_def NumberHandle_def RelativeOperatorHandle_def StringHandle_def ReferenceHandle_def
    CountHandle_def ExistsHandle_def InfixExpressionHandle_def XPathHandle_def XPathValueHandle_def XPathMatchRegexHandle_def
    wildcard_handle_def XPathKeyBasedHandle_def XPathKeyRegexReplaceHandle_def XPathValueKeyRegexReplaceHandle_def
  by (rule acting_never_grants, force simp: failing_def rbind_eq_Inr Let_def split: if_splits option.splits)+

lemma actions_never_grant:
  "action_table r = Some act \<Longrightarrow> r \<noteq> MUST_FUNC \<Longrightarrow> r \<noteq> THEN_STATEMENT \<Longrightarrow> never_grants act"
  by (cases r) (auto simp: handlers_never_grant XPathAnyHandle_def XPathAllHandle_def)

lemma replay_never_grants:
  assumes "\<forall>(r, vs) \<in> set calls. r \<noteq> MUST_FUNC \<and> r \<noteq> THEN_STATEMENT"
    and "replay constraint_parser calls res a = Inr (res', a')" and "ExpressionResult a'"
  shows "ExpressionResult a"
  using assms
proof (induction calls arbitrary: res a)
  case (Cons call calls)
  obtain r vs where c: "call = (r, vs)" by fastforce
  show ?case
  proof (cases "action_table r")
    case None
    with Cons c show ?thesis by auto
  next
    case (Some act)
    with Cons.prems c obtain v a1 where act: "act (look_values constraint_parser res vs) a = Inr (v, a1)"
      and r: "replay constraint_parser calls (res @ [v]) a1 = Inr (res', a')"
      by (auto simp: rbind_eq_Inr)
    from Cons.IH [OF _ r] Cons.prems have "ExpressionResult a1" by auto
    with actions_never_grant [OF Some] Cons.prems(1) c act show ?thesis by (auto simp: never_grants_def)
  qed
qed simp

text \<open>C35 A text that states nothing is refused: if the reader completes no \<open>must\<close> and no \<open>then\<close>, for instance because the
  text is not a constraint at all, the node is not valid, for every configuration and node.\<close>

theorem text_without_must_is_refused:
  assumes "parse_core k constraint_recorder PROGRAM text [] = Inr (ok, calls)" and "k \<le> d"
    and "\<forall>(r, vs) \<in> set calls. r \<noteq> MUST_FUNC \<and> r \<noteq> THEN_STATEMENT"
  shows "validate d mngr rx rs root h text \<noteq> Inr True"
  using replay_never_grants [OF assms(3), of "[]" "argument mngr rx rs root h"]
  by (auto simp: validate_is_replay [OF assms(1,2)] rbind_eq_Inr)

theorem text_without_must_is_refused_witness:
  "check_host ''must'' \<noteq> Inr True"
proof -
  have "parse_core 40 constraint_recorder PROGRAM ''must'' [] = Inr (False, [])" by code_simp
  from text_without_must_is_refused [OF this] show ?thesis unfolding check_host_def by simp
qed

end
