(* ===== verification/Start.thy ===== *)
theory Start
  imports Life_Cycle Constraints
begin

section \<open>What a successful start has checked and sent\<close>

text \<open>
  \<open>fPerformAction\<close> of \<open>src/config.cpp\<close> goes through the ordered nodes twice, once to check their
  constraints with the constraint checker and once to send their messages. A start that answers true has come to
  the end of both.
\<close>

definition satisfies :: "env \<Rightarrow> json \<Rightarrow> node \<Rightarrow> handle \<Rightarrow> string \<Rightarrow> bool" where
  "satisfies env jschema root h c \<longleftrightarrow>
     validate (env_depth env) (getSchemaByXPath (env_regex env) jschema) (env_regex env) (env_regex_search env) root h c = Inr True"

lemma all_constraints_true:
  "all_constraints env jschema root h cs = Inr True \<longleftrightarrow> (\<forall>c \<in> set cs. satisfies env jschema root h c)"
  by (induction cs) (auto simp: satisfies_def rbind_eq_Inr split: if_splits)

text \<open>The messages a node has to send.\<close>

definition start_post :: "env \<Rightarrow> manager \<Rightarrow> string \<Rightarrow> message list" where
  "start_post env m xpath =
     (case schema_of env m xpath of
        Inr (Some n) \<Rightarrow>
          (case (FindAttr (snd n) ACTION_SERVER_ADDRESS, FindAttr (snd n) ACTION_ON_UPDATE_PATH) of
             (addr # _, path # _) \<Rightarrow>
               (case start_message env m xpath of Inr (body, _) \<Rightarrow> [(addr, path, body)] | Inl _ \<Rightarrow> [])
           | _ \<Rightarrow> [])
      | _ \<Rightarrow> [])"

text \<open>Constraints and messages depend on the schema and the file only.\<close>

lemma same_messages:
  assumes "json_schema m' = json_schema m" and "config_file m' = config_file m"
  shows "schema_of env m' = schema_of env m" and "json_schema_of env m' = json_schema_of env m"
    and "start_message env m' = start_message env m" and "start_post env m' = start_post env m"
proof -
  show s: "schema_of env m' = schema_of env m" "json_schema_of env m' = json_schema_of env m"
    using assms by (simp_all add: schema_of_def json_schema_of_def fun_eq_iff)
  show msg: "start_message env m' = start_message env m"
    using assms s by (simp add: start_message_def getConfigNode_def fun_eq_iff)
  show "start_post env m' = start_post env m" by (rule ext) (simp only: start_post_def s msg)
qed

lemma each_constraints:
  "each (start_constraints env config) xs m = (Inr True, m') \<Longrightarrow>
   m' = m \<and> (\<forall>x \<in> set xs. \<forall>n h. schema_of env m x = Inr (Some n) \<longrightarrow> XPath_select ([], config) x = Some h \<longrightarrow>
     (\<forall>c \<in> set (FindAttr (snd n) UPDATE_CONSTRAINTS). satisfies env (json_schema m) config h c))"
proof (induction xs)
  case (Cons x xs)
  obtain r where f: "start_constraints env config x m = (r, m)" by (simp add: start_constraints_def)
  with Cons.prems have c: "r = Inr True" and r: "each (start_constraints env config) xs m = (Inr True, m')"
    by (cases r; simp split: if_splits)+
  from c f have "\<forall>n h. schema_of env m x = Inr (Some n) \<longrightarrow> XPath_select ([], config) x = Some h \<longrightarrow>
      all_constraints env (json_schema m) config h (FindAttr (snd n) UPDATE_CONSTRAINTS) = Inr True"
    by (auto simp: start_constraints_def)
  with Cons.IH [OF r] show ?case by (simp add: all_constraints_true)
qed simp

definition accepted :: "env \<Rightarrow> message list \<Rightarrow> message \<Rightarrow> bool" where
  "accepted env sent msg \<longleftrightarrow>
     (case msg of (addr, path, body) \<Rightarrow>
        case json_dump body of Inl e \<Rightarrow> False | Inr text \<Rightarrow> Client_post (env_send env sent) addr path text)"

fun all_accepted :: "env \<Rightarrow> message list \<Rightarrow> message list \<Rightarrow> bool" where
  "all_accepted env sent [] \<longleftrightarrow> True"
| "all_accepted env sent (msg # msgs) \<longleftrightarrow> accepted env sent msg \<and> all_accepted env (sent @ [msg]) msgs"

lemma all_accepted_append: "all_accepted env sent (ms @ ms') \<longleftrightarrow> all_accepted env sent ms \<and> all_accepted env (sent @ ms) ms'"
  by (induction ms arbitrary: sent) auto

lemma start_rollback_never_succeeds: "fst (start_rollback env addr path sch j actions m) \<noteq> Inr True"
  by (induction actions arbitrary: m) (auto split: sum.splits prod.splits)

lemma start_action_sends:
  assumes "start_action env x (acts, m) = (Inr True, (acts', m'))"
  shows "m' = m\<lparr>posted := posted m @ start_post env m x\<rparr> \<and> all_accepted env (posted m) (start_post env m x)"
  using assms start_rollback_never_succeeds
  by (auto simp: start_action_def start_post_def Let_def post_def accepted_def prod_eq_iff
      split: sum.splits option.splits if_splits prod.splits bool.splits list.splits)

lemma each_action_sends:
  "each (start_action env) xs (acts, m) = (Inr True, (acts', m')) \<Longrightarrow>
   m' = m\<lparr>posted := posted m @ concat (map (start_post env m) xs)\<rparr> \<and> all_accepted env (posted m) (concat (map (start_post env m) xs))"
proof (induction xs arbitrary: acts m)
  case (Cons x xs)
  from Cons.prems obtain acts1 m1 where f: "start_action env x (acts, m) = (Inr True, (acts1, m1))"
    and r: "each (start_action env) xs (acts1, m1) = (Inr True, (acts', m'))"
    by (cases "start_action env x (acts, m)") (auto simp: sbind_def split: sum.splits if_splits)
  from start_action_sends [OF f] have m1: "m1 = m\<lparr>posted := posted m @ start_post env m x\<rparr>"
    and a: "all_accepted env (posted m) (start_post env m x)" by auto
  then have "start_post env m1 = start_post env m" by (intro same_messages) auto
  with Cons.IH [OF r] m1 a show ?case by (simp add: all_accepted_append)
qed simp

lemma load_and_save_run:
  assumes "load_and_save env jschema j m = (Inr (Some t), m')"
  shows "\<exists>ordered refs. resolve (env_regex env) (env_depth env) (json_schema m) t = Inr (True, ordered) \<and> m' = m\<lparr>candidate_references := refs\<rparr>"
proof -
  from assms obtain ordered root where t: "resolve (env_regex env) (env_depth env) (json_schema m) root = Inr (True, ordered)"
    and s: "sbind (saveXPathReference env ordered root m) (\<lambda>saved m'. (Inr (Some root), m')) = (Inr (Some t), m')"
    by (auto simp: load_and_save_def split: sum.splits option.splits if_splits)
  obtain r m1 where v: "saveXPathReference env ordered root m = (r, m1)" by fastforce
  then have "\<exists>refs. m1 = m\<lparr>candidate_references := refs\<rparr>"
    by (cases "save_all_references env m root ordered (candidate_references m)")
       (auto simp: saveXPathReference_def intro: exI [of _ "candidate_references m"])
  with t s v show ?thesis by (cases r) auto
qed

lemma perform_run:
  assumes "fPerformAction env t m = (Inr True, m')" and "resolve (env_regex env) (env_depth env) (json_schema m) t = Inr (True, ordered)"
  shows "\<exists>acts. each (start_constraints env t) ordered m = (Inr True, m) \<and> each (start_action env) ordered ([], m) = (Inr True, (acts, m'))"
proof -
  obtain r1 m1 where c: "each (start_constraints env t) ordered m = (r1, m1)" by fastforce
  obtain r2 acts m2 where a: "each (start_action env) ordered ([], m1) = (r2, (acts, m2))" by (metis surj_pair)
  from assms c a have "r1 = Inr True" "r2 = Inr True" "m2 = m'"
    by (cases r1; auto simp: fPerformAction_def catch_bad_any_cast_def split: if_splits)+
  with c a each_constraints [of env t ordered m m1] show ?thesis by auto
qed

lemma load_run:
  assumes "Manager_load env schema_file subschemas m = (Inr True, m')"
  shows "\<exists>t ordered m1 acts. running_config m' = Some t \<and> resolve (env_regex env) (env_depth env) (json_schema m') t = Inr (True, ordered) \<and>
    each (start_constraints env t) ordered m1 = (Inr True, m1) \<and> json_schema m' = json_schema m1 \<and> config_file m' = config_file m1 \<and>
    posted m1 = posted m \<and> (\<exists>m2. each (start_action env) ordered ([], m1) = (Inr True, (acts, m2)) \<and> posted m2 = posted m')"
proof -
  obtain r1 ms where sl: "JsonSchema_load schema_file subschemas m = (r1, ms)" by fastforce
  from schema_load_cases [OF sl] obtain jschema0 where ms: "ms = m\<lparr>json_schema := jschema0\<rparr>" by blast
  note load = assms [unfolded Manager_load_def sl]
  from load have r1: "r1 = Inr True" by (cases r1) (auto split: if_splits)
  from load r1 obtain jschema j where l: "sbind (load_and_save env jschema j ms) (\<lambda>r m2.
               case r of
                 None \<Rightarrow> (Inr False, m2)
               | Some root_config \<Rightarrow>
                   sbind (fPerformAction env root_config m2) (\<lambda>ok m3.
                     if \<not> ok then (Inr False, m3)
                     else (Inr True, m3\<lparr>running_references := candidate_references m3,
                             running_config := Some root_config, running_json := j\<rparr>))) = (Inr True, m')"
    by (auto split: sum.splits prod.splits if_splits option.splits)
  obtain rl m2 where ls: "load_and_save env jschema j ms = (rl, m2)" by fastforce
  with l obtain t where rl: "rl = Inr (Some t)" by (cases rl) (auto split: option.splits)
  from load_and_save_run [OF ls [unfolded rl]] obtain ordered refs
    where o: "resolve (env_regex env) (env_depth env) (json_schema ms) t = Inr (True, ordered)" and m2: "m2 = ms\<lparr>candidate_references := refs\<rparr>"
    by blast
  obtain rp m3 where pf: "fPerformAction env t m2 = (rp, m3)" by fastforce
  with l ls rl have rp: "rp = Inr True" and m': "m' = m3\<lparr>running_references := candidate_references m3, running_config := Some t, running_json := j\<rparr>"
    by (cases rp; auto split: if_splits)+
  from perform_run [OF pf [unfolded rp]] o m2 obtain acts where c: "each (start_constraints env t) ordered m2 = (Inr True, m2)"
    and a: "each (start_action env) ordered ([], m2) = (Inr True, (acts, m3))" by auto
  from only_sent_fields [OF perform_only_sends [OF pf]] have "json_schema m3 = json_schema m2" "config_file m3 = config_file m2" by auto
  with o m2 m' ms c a show ?thesis by (intro exI [of _ t] exI [of _ ordered] exI [of _ m2] exI [of _ acts]) auto
qed

subsection \<open>A guarded leaf\<close>

text \<open>The small run again, with a constraint on the leaf and room for the parser.\<close>

definition guarded_schema :: json where
  "guarded_schema = JObj [(''properties'', JObj
     [(''host'', JObj [(''properties'', JObj [(''name'', JObj
        [(''action'', JObj [(''on-delete-path'', JStr ''/delete''), (''on-update-path'', JStr ''/update''),
                            (''server-address'', JStr ''netd'')]),
         (''type'', JStr ''string''),
         (''update-constraints'', JArr [JStr (''must(exists(xpath('' @ quoted ''/host'' @ '')))'')])])]),
      (''type'', JStr ''object'')])])]"

definition guarded_env :: env where
  "guarded_env = host_env\<lparr>env_depth := 80\<rparr>"

definition guarded_running :: manager where
  "guarded_running = host_running\<lparr>json_schema := guarded_schema\<rparr>"

lemma guarded_loading: "Manager_load guarded_env (Some (Inr guarded_schema)) [] host_start = (Inr True, guarded_running)"
  by code_simp

definition guarded_constraint :: string where
  "guarded_constraint = ''must(exists(xpath('' @ quoted ''/host'' @ '')))''"

lemma guarded_order:
  "resolve (env_regex guarded_env) (env_depth guarded_env) guarded_schema (host_tree ''r1'') = Inr (True, [''/host'', ''/host/name''])"
  by code_simp

lemma guarded_name:
  "XPath_select ([], host_tree ''r1'') ''/host/name'' = Some ([''host'', ''/''], Leaf ''name'' \<lparr>vtype = STRING, holder = Some (HString ''r1'')\<rparr>)"
  "map_option (\<lambda>n. FindAttr (snd n) UPDATE_CONSTRAINTS) (projr (schema_of guarded_env guarded_running ''/host/name'')) = Some [guarded_constraint]"
  "isl (schema_of guarded_env guarded_running ''/host/name'') = False"
  by code_simp+

lemma guarded_fields:
  "running_config guarded_running = Some (host_tree ''r1'')" "json_schema guarded_running = guarded_schema"
  "posted guarded_running = [name_message ''add'' ''r1'']" "posted host_start = []"
  by code_simp+

subsection \<open>Properties\<close>

text \<open>C5 After a start that answers true the running configuration satisfies its constraints: for every node in the
  order, the constraint checker accepts every update constraint of its schema in the running configuration.\<close>

theorem started_configuration_satisfies_its_constraints:
  assumes "Manager_load env schema_file subschemas m = (Inr True, m')"
  shows "\<exists>t ordered. running_config m' = Some t \<and> resolve (env_regex env) (env_depth env) (json_schema m') t = Inr (True, ordered) \<and>
    (\<forall>x \<in> set ordered. \<forall>n h. schema_of env m' x = Inr (Some n) \<longrightarrow> XPath_select ([], t) x = Some h \<longrightarrow>
       (\<forall>c \<in> set (FindAttr (snd n) UPDATE_CONSTRAINTS). satisfies env (json_schema m') t h c))"
proof -
  from load_run [OF assms] obtain t ordered m1 where t: "running_config m' = Some t"
    "resolve (env_regex env) (env_depth env) (json_schema m') t = Inr (True, ordered)"
    and c: "each (start_constraints env t) ordered m1 = (Inr True, m1)"
    and s: "json_schema m' = json_schema m1" "config_file m' = config_file m1" by blast
  from each_constraints [OF c] t show ?thesis by (auto simp: same_messages [OF s] s)
qed

theorem started_configuration_satisfies_its_constraints_witness:
  "satisfies guarded_env guarded_schema (host_tree ''r1'')
     ([''host'', ''/''], Leaf ''name'' \<lparr>vtype = STRING, holder = Some (HString ''r1'')\<rparr>) guarded_constraint"
proof -
  from guarded_name(2,3) obtain d n where n: "schema_of guarded_env guarded_running ''/host/name'' = Inr (Some (d, n))"
    "FindAttr n UPDATE_CONSTRAINTS = [guarded_constraint]"
    by (cases "schema_of guarded_env guarded_running ''/host/name''") auto
  from started_configuration_satisfies_its_constraints [OF guarded_loading]
  show ?thesis using n guarded_order guarded_name(1) by (auto simp: guarded_fields)
qed



end
