(* ===== verification/Store.thy ===== *)
theory Store
  imports Life_Cycle
begin

section \<open>The manager refines a store with one pending document\<close>

text \<open>
  What the methods of the manager promise to their callers, without trees, references, messages and files: a store
  that has a published document and at most one pending document. Making a candidate puts a valid document in the
  place of the pending one, applying publishes it, cancelling drops it, and a call that does not answer true
  changes nothing. A call is observed by its name and by whether it answered true.
\<close>

subsection \<open>Simulation\<close>

text \<open>The interface between a machine and its specification, both with labelled steps.\<close>

inductive trace :: "('s \<Rightarrow> 'l \<Rightarrow> 's \<Rightarrow> bool) \<Rightarrow> 's \<Rightarrow> 'l list \<Rightarrow> 's \<Rightarrow> bool" for step where
  trace_Nil: "trace step s [] s"
| trace_Cons: "step s l t \<Longrightarrow> trace step t ls u \<Longrightarrow> trace step s (l # ls) u"

inductive_simps trace_simps [simp]: "trace step s [] t" "trace step s (l # ls) t"

locale simulation =
  fixes cstep :: "'c \<Rightarrow> 'l \<Rightarrow> 'c \<Rightarrow> bool" and astep :: "'a \<Rightarrow> 'l \<Rightarrow> 'a \<Rightarrow> bool"
    and R :: "'c \<Rightarrow> 'a \<Rightarrow> bool"
  assumes step: "R s a \<Longrightarrow> cstep s l s' \<Longrightarrow> \<exists>a'. astep a l a' \<and> R s' a'"
begin

lemma traces: "trace cstep s ls s' \<Longrightarrow> R s a \<Longrightarrow> \<exists>a'. trace astep a ls a' \<and> R s' a'"
proof (induction arbitrary: a rule: trace.induct)
  case (trace_Cons s l t ls u)
  from step [OF trace_Cons.prems trace_Cons.hyps(1)] obtain a1 where "astep a l a1" "R t a1" by blast
  with trace_Cons.IH show ?case by fastforce
qed auto

end

subsection \<open>The store\<close>

datatype request = Make | Apply | Cancel

record store =
  released :: json
  pending :: "json option"

inductive store_call :: "(json \<Rightarrow> bool) \<Rightarrow> store \<Rightarrow> request \<times> bool \<Rightarrow> store \<Rightarrow> bool" for valid where
  made: "valid d \<Longrightarrow> store_call valid s (Make, True) (s\<lparr>pending := Some d\<rparr>)"
| applied: "pending s = Some d \<Longrightarrow> store_call valid s (Apply, True) \<lparr>released = d, pending = None\<rparr>"
| cancelled: "pending s = Some d \<Longrightarrow> store_call valid s (Cancel, True) (s\<lparr>pending := None\<rparr>)"
| refused: "store_call valid s (c, False) s"

inductive_cases store_callE: "store_call valid s l s'"

inductive manager_call :: "env \<Rightarrow> manager \<Rightarrow> request \<times> bool \<Rightarrow> manager \<Rightarrow> bool" for env where
  make: "makeCandidateConfig env text m = (r, m') \<Longrightarrow> manager_call env m (Make, r = Inr True) m'"
| apply_candidate: "applyCandidateConfig io m = (r, m') \<Longrightarrow> manager_call env m (Apply, r = Inr True) m'"
| cancel: "cancelCandidateConfig env m = (r, m') \<Longrightarrow> manager_call env m (Cancel, r = Inr True) m'"

text \<open>A document the manager may run: valid, without duplicated members, and a tree is loaded from it.\<close>

definition runnable :: "env \<Rightarrow> json \<Rightarrow> json \<Rightarrow> bool" where
  "runnable env jschema d \<longleftrightarrow> env_validate env jschema d \<and> wf_json d \<and> (\<exists>t. load_tree env jschema d = Inr (Some (True, t)))"

text \<open>The relation: the running document is in the file, and the candidate counts while the flag is set.\<close>

definition implements :: "env \<Rightarrow> json \<Rightarrow> manager \<Rightarrow> store \<Rightarrow> bool" where
  "implements env jschema m s \<longleftrightarrow> manager_inv env m \<and> json_schema m = jschema \<and>
     running_json m = released s \<and> (\<exists>text. config_file m = Some text \<and> json_parse text = Inr (released s)) \<and>
     pending s = (if is_candidate_config_ready m then Some (candidate_json m) else None)"

lemma manager_call_step: "manager_call env m l m' \<Longrightarrow> manager_step env m m'"
  by (cases rule: manager_call.cases) (auto intro: manager_step.intros)

lemma implements_same:
  assumes "implements env jschema m s" and "manager_inv env m'" and "json_schema m' = json_schema m"
    and "running_json m' = running_json m" and "config_file m' = config_file m" and "candidate_json m' = candidate_json m"
    and "is_candidate_config_ready m' = is_candidate_config_ready m"
  shows "implements env jschema m' s"
  using assms by (simp add: implements_def)

lemma implements_made:
  assumes "implements env jschema m s" and "manager_inv env m'" and "made env m m'"
  shows "runnable env jschema (candidate_json m') \<and> implements env jschema m' (s\<lparr>pending := Some (candidate_json m')\<rparr>)"
  using assms unfolding made_def
  by (elim exE conjE) (auto simp: implements_def runnable_def only_sent_fields manager_inv_def)

lemma manager_simulates:
  assumes i: "implements env jschema m s" and c: "manager_call env m l m'"
  shows "\<exists>s'. store_call (runnable env jschema) s l s' \<and> implements env jschema m' s'"
proof -
  have inv: "manager_inv env m'"
    using inv_step [OF manager_call_step [OF c]] i by (simp add: implements_def)
  from c show ?thesis
  proof cases
    case (make input r)
    from make_cases [OF make(2)] show ?thesis
    proof (elim disjE conjE)
      assume "r \<noteq> Inr True" "only_sent m m'"
      with implements_same [OF i inv] make(1) show ?thesis by (auto simp: only_sent_fields intro: refused)
    next
      assume "r = Inr True" "made env m m'"
      with implements_made [OF i inv] make(1) show ?thesis by (auto intro: made)
    qed
  next
    case (apply_candidate io r)
    from apply_cases [OF apply_candidate(2)] show ?thesis
    proof (elim disjE conjE)
      assume "r \<noteq> Inr True" "m' = m"
      with i apply_candidate(1) show ?thesis by (auto intro: refused)
    next
      assume r: "r = Inr True" "is_candidate_config_ready m"
        and "\<exists>text. json_dump_indented (candidate_json m) = Inr text \<and> m' = published text m"
      then obtain contents where p: "json_dump_indented (candidate_json m) = Inr contents" "m' = published contents m" by blast
      from r i have "pending s = Some (candidate_json m)" by (simp add: implements_def)
      from applied [OF this] r p apply_candidate(1)
      have "store_call (runnable env jschema) s l \<lparr>released = candidate_json m, pending = None\<rparr>" by simp
      moreover from r i have "wf_json (candidate_json m)" by (simp add: implements_def manager_inv_def)
      with r inv i p have "implements env jschema m' \<lparr>released = candidate_json m, pending = None\<rparr>"
        using file_holds_dumped [OF p(1)] by (simp add: implements_def published_def file_holds_def)
      ultimately show ?thesis by blast
    qed
  next
    case (cancel r)
    from cancel_cases [OF cancel(2)] show ?thesis
    proof (elim disjE conjE)
      assume "r \<noteq> Inr True" "m' = m"
      with i cancel(1) show ?thesis by (auto intro: refused)
    next
      assume w: "r \<noteq> Inr True" "worked_on m m'"
      then obtain m1 t where "only_sent m m1" "m' = m1\<lparr>candidate_config := Some t\<rparr>" unfolding worked_on_def by blast
      with implements_same [OF i inv] cancel(1) w(1) show ?thesis by (auto simp: only_sent_fields intro: refused)
    next
      assume d: "r = Inr True" "is_candidate_config_ready m" "cleared m m'"
      then obtain m1 where m1: "only_sent m m1"
        "m' = m1\<lparr>candidate_config := None, candidate_json := JNull, is_candidate_config_ready := False\<rparr>"
        unfolding cleared_def by blast
      from d i have "pending s = Some (candidate_json m)" by (simp add: implements_def)
      from cancelled [OF this] d(1) cancel(1) have "store_call (runnable env jschema) s l (s\<lparr>pending := None\<rparr>)" by simp
      moreover from m1 inv i have "implements env jschema m' (s\<lparr>pending := None\<rparr>)"
        by (simp add: implements_def only_sent_fields)
      ultimately show ?thesis by blast
    qed
  qed
qed

interpretation manager_store: simulation "manager_call env" "store_call (runnable env jschema)" "implements env jschema" for env jschema
  by unfold_locales (rule manager_simulates)

lemma started_implements:
  assumes "manager_started env m"
  shows "implements env (json_schema m) m \<lparr>released = running_json m, pending = None\<rparr>"
proof -
  from assms obtain schema_file subschemas contents
    where l: "Manager_load env schema_file subschemas (Manager_init contents) = (Inr True, m)" by (auto simp: manager_started_def)
  from load_cases [OF l] obtain jschema m1 j t where
    s: "only_sent ((Manager_init contents)\<lparr>json_schema := jschema\<rparr>) m1"
    and m: "m = m1\<lparr>running_references := candidate_references m1, running_config := Some t, running_json := j\<rparr>" by auto
  from only_sent_fields [OF s] inv_started [OF assms] show ?thesis
    by (auto simp: implements_def m Manager_init_def manager_inv_def file_holds_def)
qed

subsection \<open>Properties\<close>



end
