(* ===== verification/Spec2Isabelle.thy ===== *)
theory Spec2Isabelle
  imports Daemon Topo XPaths Patching Messages Constraints Start Store
begin

text \<open>
  A verification library of FlexConfig, a daemon that manages the configuration of a device. Paths of files are
  relative to \<open>src/\<close> of the repository.

  \<^bold>\<open>The program.\<close> The daemon (\<open>main.cpp\<close>) loads a JSON document along a JSON schema into a tree of nodes and serves
  HTTP requests. A client registers a session, posts a patch to the running configuration, which makes a candidate, and
  applies or cancels it; one session is active at a time, and a sweep ends the sessions and the
  candidates of clients that have gone. The schema gives every node its dependencies on others, constraints in a language
  of their own, references, and servers that get a message for every change. Making a candidate removes and
  adds nodes in the order of the dependencies, checks their constraints, sends the messages and rolls back what it sent when
  something is refused. Applying replaces the configuration file.

  \<^bold>\<open>Theories and sources.\<close>

  \<^item> Prelude, Std_String, Std_Map: the exceptions of the program as a datatype, results and state with results (a state
  that was changed stays changed when an exception leaves the function), strings and the ordered maps and sets
  (\<open>lib/utils.hpp\<close>, \<open>lib/std_types.hpp\<close>). Ordered maps are association lists; their laws are a locale.
  \<^item> Http, Session, Connection, Release (\<open>lib/http_common.hpp\<close>, \<open>session_management\<close>, \<open>connection_management\<close>): the state of
  the session manager is the record \<open>sessions\<close>; every method is a function of the state and the time, except that
  \<open>SetActiveSessionToken\<close> is two steps, as it takes its mutex twice. The server is the pair of its handlers with
  their manager and the sessions; \<open>server_step\<close> is a request (\<open>serve\<close>, by the table of routes) or a round of the
  sweep. The contract of the three checks of a session is the locale \<open>session_guard\<close>.
  \<^item> Values, Nodes, XPaths (\<open>value\<close>, \<open>node/\<close>, \<open>xpath\<close>): a tree is a value; a reference to a node is the node with the names
  of its ancestors. Visitors have a contract as locales.
  \<^item> Topo, Ordering (\<open>lib/topo_sort\<close>, \<open>nodes_ordering\<close>): the order in which nodes are processed.
  \<^item> Json, Json_Patch, Documents, Json_Lexer, Json_Reader, Json_Writer, Json_Texts, Json_Round_Trip, Texts, Writable
  (\<open>lib/external/nlohmann\<close>): documents, pointers, patches and differences; the lexer, the parser with its two
  consumers of events, and the serializer. The repository brings its own copy of the library; this copy is what is modelled.
  \<^item> Schema, Loading, References, Candidate, Additions, Make_Candidate, Manager (\<open>config.hpp\<close>, \<open>config.cpp\<close>): the record
  \<open>manager\<close> is the state of \<open>Config::Manager\<close> with the static documents of the file; \<open>build\<close> is the local state of
  \<open>fMakeCandidateConfigInternal\<close>, whose phases are one function each. Every public method is in Manager.
  \<^item> Peg, Peg_Runs, Peg_Progress, Replay (\<open>lib/external/peglib/peglib.h\<close>) and Constraint_Actions, Constraint_Checker
  (\<open>constraint_checking.cpp\<close>): the interpreter of grammars, and the grammar of constraints with its actions.
  \<^item> Request_Handlers, Daemon (\<open>main.cpp\<close>): the handlers that join the server to the manager, and \<open>main\<close>, with the events
  of the daemon as a step relation.

  \<^bold>\<open>What is shown.\<close>

  \<^item> Daemon: the invariant of the manager and the one of the server hold together in every state the daemon reaches, and the
  running configuration, its document and the file change by a request of the active session to apply, and by nothing else.
  \<^item> Transaction, Life_Cycle, Store: what each phase and each method can change, for every way it can end; the invariant of the
  manager; applied documents survive a restart; the manager refines a store with a released and a pending
  document (a simulation, as a locale).
  \<^item> Start, Messages, Patching: a successful start has checked all constraints and sent exactly the messages of the nodes in
  their order; the message of an update is the intended one; a difference the manager hands out is accepted when it
  is sent back, and the patch of a cancellation leads to the running document. Some lemmas show where the code does not do this.
  \<^item> Texts, Json_Round_Trip, Json_Texts: what the parser accepts can be written, and what is written is parsed to the same document,
  for the strings of any bytes the lexer accepts and for all 64-bit integers; the search for
  duplicated keys decides the property it is named after. Nothing about the text of a file or of a request is assumed.
  \<^item> Schema, Loading, References, Ordering, Topo, XPaths: lookup is structural descent; loading keeps the
  known members; removals are blocked by references; the order is a permutation with parents and
  dependencies first, and it exists exactly for acyclic dependencies; paths that are printed select the node they came from.
  \<^item> Peg_Progress, Replay, Constraint_Runs, Constraint_Reading, Constraint_Meaning, Constraints: a run of the parser is recorded once
  and its actions are replayed; a grammar whose rules can be ranked always answers; the forms of constraints mean what is
  stated for all paths, values, nodes and configurations.
  \<^item> Session, Connection, Release: the active session is leased and exclusive, the sweep ends exactly the expired sessions, and
  the daemon becomes free again when its clients have gone.

  \<^bold>\<open>Stack and fuel.\<close> A recursion that has no bound in the code has a depth as its argument; a run that needs more
  ends with \<open>StackOverflow\<close>, which is an outcome the properties account for. \<open>env_depth\<close> is the depth for the topological
  sort and for the reader of constraints. For the sort any depth above the number of names is enough (Topo: then it succeeds exactly for
  acyclic dependencies), for the reader 42 units for each character and 44 more are (Constraints: then it always answers), and
  70 units for the forms of constraints the properties name, however long their paths and strings are. All other functions
  are total: the loops of the lexer and the parser by the text that is left, loading by the weight of the schema.

  \<^bold>\<open>Not modelled.\<close>

  \<^item> Parameters, since the code is not the program's own or has no behaviour to translate: regular expressions
  (\<open>std::regex\<close>), validation against a JSON schema (the vendored validator), what other servers answer, what the file system
  answers when the file is replaced (at every event anew), the time. Nothing is assumed about them, but that a
  property may name what they answered.
  \<^item> HTTP parsing and transport, the pool of threads, logging, the command line and \<open>webapp.py\<close>. A request is one step,
  so two requests do not interleave but where the code gives its mutex away; the methods of the manager have no
  lock of their own, and what overlapping calls of them do is not modelled.
  \<^item> Of JSON: floating-point numbers, also in a document whose integers do not fit 64 bits (the model ends with the exception
  \<open>Unmodelled\<close>), positions and texts of errors, the binary formats. Of the engine of grammars: operators the grammar
  of constraints does not use, and the reading of the grammar, which is written as the operators it becomes.
  \<^item> Sharing: nodes are values. Where an exception leaves the loader, what it had already put into the tree is dropped, as the
  callers drop the tree. \<open>NodeCounter\<close>, \<open>DependencyMapperVisitior\<close> and \<open>nodes_to_execute\<close> have no effect and are left out.
\<close>

end
